(* ===== verification/Prelude.thy ===== *)
theory Prelude
  imports Main "HOL-Library.Word" "HOL-Library.Monad_Syntax"
begin

text \<open>
  Shared ground of the development: the machine types, the memory model of byte buffers, the
  ordered associative container that stands for \<open>std::map\<close> and \<open>std::flat_map\<close>, and the lemma
  collections the component theories draw on.

  Memory. A C++ buffer (\<open>std::span\<close>, \<open>std::vector\<close>, array) is a list of bytes, a pointer into it
  an offset. Reading or writing outside the buffer is undefined behaviour in C++; here it is the
  value \<^term>\<open>None\<close>. So every operation that touches a buffer has a result of type option, and
  ``the operation has no undefined behaviour'' is the statement that its result is not
  \<^term>\<open>None\<close>. Errors the code reports through \<open>std::expected\<close> are values of a sum inside
  the option. \<open>std::size_t\<close> is \<^typ>\<open>nat\<close>: every size is the size of an object in memory.
\<close>

unbundle bit_operations_syntax

type_synonym u8 = "8 word"
type_synonym u16 = "16 word"
type_synonym u32 = "32 word"
type_synonym u64 = "64 word"
type_synonym byte = "8 word"

named_theorems mem_simps \<open>rules that evaluate buffer accesses\<close>
named_theorems wire_consts \<open>definitions of the protocol constants\<close>

lemma bit_beyond: "LENGTH('a::len) \<le> n \<Longrightarrow> \<not> bit (w :: 'a word) n"
  by (auto dest: bit_imp_le_length)

lemma word_xor_eq_0_iff: "(x :: 'a::len word) XOR y = 0 \<longleftrightarrow> x = y"
  by (metis xor.assoc xor.left_neutral xor.right_neutral xor_self_eq)

lemma list_all2_preserves:
  "list_all2 P xs ys \<Longrightarrow> (\<And>x y. P x y \<Longrightarrow> I x \<Longrightarrow> I y) \<Longrightarrow> \<forall>x \<in> set xs. I x \<Longrightarrow> \<forall>y \<in> set ys. I y"
  by (induction xs ys rule: list_all2_induct) auto

section \<open>Machine words\<close>

lemma ucast_wi: "(ucast x :: 'b::len word) = word_of_int (uint x)"
  by transfer simp

lemma uint_diff: "uint (a - b) = take_bit LENGTH('a) (uint a - uint b)" for a b :: "'a::len word"
  by (simp add: take_bit_eq_mod uint_word_ariths)

lemma ucast_diff:
  fixes a b :: "'a::len word"
  assumes "LENGTH('b::len) \<le> LENGTH('a)"
  shows "(ucast (a - b) :: 'b word) = ucast a - ucast b"
proof -
  have "(word_of_int (take_bit LENGTH('a) k) :: 'b word) = word_of_int k" for k
    using assms by (simp add: word_of_int_eq_iff take_bit_take_bit)
  then show ?thesis by (simp only: ucast_wi uint_diff wi_hom_sub)
qed

lemma take_bit_diff_word:
  fixes a b :: "'a::len word"
  assumes "n \<le> LENGTH('a)"
  shows "take_bit n (take_bit n a - b) = take_bit n (a - b)"
proof -
  have "uint (take_bit n (take_bit n a - b)) = uint (take_bit n (a - b))"
    using assms take_bit_diff [of n "take_bit n (uint a)" "uint b"] take_bit_diff [of n "uint a" "uint b"]
    by (simp add: unsigned_take_bit_eq uint_diff take_bit_take_bit)
  then show ?thesis by (simp only: unsigned_word_eqI)
qed

lemma take_bit_diff_word2:
  fixes a b :: "'a::len word"
  assumes "n \<le> LENGTH('a)"
  shows "take_bit n (a - take_bit n b) = take_bit n (a - b)"
proof -
  have "uint (take_bit n (a - take_bit n b)) = uint (take_bit n (a - b))"
    using assms take_bit_diff [of n "uint a" "take_bit n (uint b)"] take_bit_diff [of n "uint a" "uint b"]
    by (simp add: unsigned_take_bit_eq uint_diff take_bit_take_bit)
  then show ?thesis by (simp only: unsigned_word_eqI)
qed

lemma take_bit_of_nat_small: "n < 2 ^ k \<Longrightarrow> take_bit k (of_nat n :: 'a::len word) = of_nat n"
  by (metis of_nat_take_bit take_bit_nat_eq_self)

lemma unat_ucast_up:
  assumes "LENGTH('a::len) \<le> LENGTH('b::len)"
  shows "unat (ucast (x :: 'a word) :: 'b word) = unat x"
proof -
  have "unat x < 2 ^ LENGTH('a)" by (rule unsigned_less)
  also have "(2 :: nat) ^ LENGTH('a) \<le> 2 ^ LENGTH('b)" using assms by (rule power_increasing) simp
  finally have "take_bit LENGTH('b) (unat x) = unat x" by (rule take_bit_nat_eq_self)
  then show ?thesis by (simp only: unsigned_ucast_eq)
qed

lemma unat_of_nat_small: "n < 2 ^ LENGTH('a) \<Longrightarrow> unat (of_nat n :: 'a::len word) = n"
  by (simp add: unsigned_of_nat take_bit_nat_eq_self_iff)

section \<open>Error values\<close>

text \<open>Success of a computation that hands errors on.\<close>

lemma case_sum_Inr_iff:
  "(case r of Inl e \<Rightarrow> Some (Inl e) | Inr v \<Rightarrow> f v) = Some (Inr w) \<longleftrightarrow> (\<exists>v. r = Inr v \<and> f v = Some (Inr w))"
  "(case r of Inl e \<Rightarrow> Inl e | Inr v \<Rightarrow> Inr (g v)) = Inr w' \<longleftrightarrow> (\<exists>v. r = Inr v \<and> g v = w')"
  by (auto split: sum.splits)

section \<open>Buffer access\<close>

definition peek :: "byte list \<Rightarrow> nat \<Rightarrow> byte option" where
  "peek m p = (if p < length m then Some (m ! p) else None)"

definition poke :: "byte list \<Rightarrow> nat \<Rightarrow> byte \<Rightarrow> byte list option" where
  "poke m p v = (if p < length m then Some (m[p := v]) else None)"

text \<open>A byte-copy loop (\<open>for (i...) dst[p + i] = src[i]\<close>, \<open>memcpy\<close>) into offset \<open>p\<close>.\<close>

fun store :: "byte list \<Rightarrow> nat \<Rightarrow> byte list \<Rightarrow> byte list option" where
  "store m p [] = Some m"
| "store m p (x # xs) = do { m' \<leftarrow> poke m p x; store m' (Suc p) xs }"

text \<open>\<open>std::span::subspan (off, n)\<close>: the standard requires the range to lie in the span.\<close>

definition subspan :: "byte list \<Rightarrow> nat \<Rightarrow> nat \<Rightarrow> byte list option" where
  "subspan m off n = (if off + n \<le> length m then Some (take n (drop off m)) else None)"

text \<open>\<open>subspan (off)\<close>: everything from \<open>off\<close> on.\<close>

definition subspan_from :: "byte list \<Rightarrow> nat \<Rightarrow> byte list option" where
  "subspan_from m off = (if off \<le> length m then Some (drop off m) else None)"

text \<open>Writing through a subspan: \<open>f\<close> updates the bytes of the view, which alias the buffer.\<close>

definition in_subspan :: "byte list \<Rightarrow> nat \<Rightarrow> nat \<Rightarrow> (byte list \<Rightarrow> byte list option) \<Rightarrow> byte list option" where
  "in_subspan m off n f = do { s \<leftarrow> subspan m off n; s \<leftarrow> f s; store m off s }"

lemma peek_Some [mem_simps]: "p < length m \<Longrightarrow> peek m p = Some (m ! p)"
  by (simp add: peek_def)

lemma peek_None [mem_simps]: "length m \<le> p \<Longrightarrow> peek m p = None"
  by (simp add: peek_def)

lemma peek_eq_Some_iff: "peek m p = Some b \<longleftrightarrow> p < length m \<and> b = m ! p"
  by (auto simp: peek_def)

lemma peek_drop: "peek (drop n m) p = peek m (n + p)"
  by (auto simp: peek_def)

lemma peek_take: "peek (take n m) p = (if p < n then peek m p else None)"
  by (auto simp: peek_def)

lemma peek_append: "peek (xs @ ys) p = (if p < length xs then Some (xs ! p) else peek ys (p - length xs))"
  by (auto simp: peek_def nth_append)

lemma poke_Some [mem_simps]: "p < length m \<Longrightarrow> poke m p v = Some (m[p := v])"
  by (simp add: poke_def)

lemma poke_length: "poke m p v = Some m' \<Longrightarrow> length m' = length m"
  by (auto simp: poke_def split: if_splits)

text \<open>The closed form of a store: the bytes replace a slice of the buffer.\<close>

definition overwrite :: "byte list \<Rightarrow> nat \<Rightarrow> byte list \<Rightarrow> byte list" where
  "overwrite m p xs = take p m @ xs @ drop (p + length xs) m"

lemma store_overwrite: "p + length xs \<le> length m \<Longrightarrow> store m p xs = Some (overwrite m p xs)"
proof (induction xs arbitrary: m p)
  case Nil
  then show ?case by (simp add: overwrite_def)
next
  case (Cons x xs)
  have "store (m[p := x]) (Suc p) xs = Some (overwrite (m[p := x]) (Suc p) xs)"
    using Cons by simp
  moreover have "overwrite (m[p := x]) (Suc p) xs = overwrite m p (x # xs)"
    using Cons.prems by (simp add: overwrite_def take_Suc_conv_app_nth drop_update_cancel)
  ultimately show ?case
    using Cons.prems by (simp add: poke_Some)
qed

lemma store_None: "length m < p + length xs \<Longrightarrow> xs \<noteq> [] \<Longrightarrow> store m p xs = None"
proof (induction xs arbitrary: m p)
  case Nil
  then show ?case by simp
next
  case (Cons x xs)
  show ?case
  proof (cases "p < length m")
    case True
    with Cons.prems have "xs \<noteq> []" by auto
    with Cons True show ?thesis by (simp add: poke_Some)
  next
    case False
    then show ?thesis by (simp add: poke_def)
  qed
qed

lemma store_eq_Some_iff:
  "store m p xs = Some m' \<longleftrightarrow> (xs = [] \<and> m' = m \<or> p + length xs \<le> length m \<and> m' = overwrite m p xs)"
  by (cases "p + length xs \<le> length m"; cases "xs = []")
    (auto simp: store_overwrite store_None not_le overwrite_def)

lemma store_append:
  "store m p (xs @ ys) = do { m' \<leftarrow> store m p xs; store m' (p + length xs) ys }"
  by (induction xs arbitrary: m p) (auto simp: bind_eq_Some_conv split: Option.bind_splits)

lemma length_overwrite [simp]: "p + length xs \<le> length m \<Longrightarrow> length (overwrite m p xs) = length m"
  by (simp add: overwrite_def)

lemma overwrite_0: "length xs \<le> length m \<Longrightarrow> overwrite m 0 xs = xs @ drop (length xs) m"
  by (simp add: overwrite_def)

lemma overwrite_all: "length xs = length m \<Longrightarrow> overwrite m 0 xs = xs"
  by (simp add: overwrite_def)

lemma overwrite_overwrite_adjacent:
  "p + length xs + length ys \<le> length m \<Longrightarrow>
   overwrite (overwrite m p xs) (p + length xs) ys = overwrite m p (xs @ ys)"
  by (simp add: overwrite_def ac_simps)

lemma overwrite_append_left:
  "p = length xs \<Longrightarrow> overwrite (xs @ ys) p zs = xs @ overwrite ys 0 zs"
  by (simp add: overwrite_def)

lemma drop_overwrite [simp]: "p \<le> length m \<Longrightarrow> drop p (overwrite m p xs) = xs @ drop (p + length xs) m"
  by (simp add: overwrite_def)

lemma nth_overwrite:
  "p + length xs \<le> length m \<Longrightarrow> i < length xs \<Longrightarrow> overwrite m p xs ! (p + i) = xs ! i"
  by (simp add: overwrite_def nth_append)

lemma subspan_Some [mem_simps]: "off + n \<le> length m \<Longrightarrow> subspan m off n = Some (take n (drop off m))"
  by (simp add: subspan_def)

lemma subspan_from_Some [mem_simps]: "off \<le> length m \<Longrightarrow> subspan_from m off = Some (drop off m)"
  by (simp add: subspan_from_def)

lemma subspan_eq_Some_iff:
  "subspan m off n = Some s \<longleftrightarrow> off + n \<le> length m \<and> s = take n (drop off m)"
  by (auto simp: subspan_def)

lemma subspan_from_eq_Some_iff:
  "subspan_from m off = Some s \<longleftrightarrow> off \<le> length m \<and> s = drop off m"
  by (auto simp: subspan_from_def)

end
