(* ===== verification/Wire_Types.thy ===== *)
theory Wire_Types
  imports Prelude "HOL-Library.Product_Lexorder"
begin

text \<open>
  \<open>wire/types.hpp\<close>, \<open>wire/constants.hpp\<close>, \<open>wire/message_type.hpp\<close> and \<open>wire/return_code.hpp\<close>:
  the identifier types of the protocol, its constants, and the two enumerations of the header.
  \<open>strong_id\<close> keeps its phantom tag, so that a service id and a method id are different types
  here as they are in the code. The scoped enumerations have a fixed underlying type: any byte
  is a value of them (the code casts received bytes), so they are wrapped bytes with the
  enumerators as constants.
\<close>

section \<open>Identifiers\<close>

datatype 'tag strong_id = Strong_id (id_value: u16)

datatype service_tag = Service_tag
datatype method_tag = Method_tag
datatype event_tag = Event_tag
datatype instance_tag = Instance_tag
datatype eventgroup_tag = Eventgroup_tag
datatype client_tag = Client_tag
datatype session_tag = Session_tag

type_synonym service_id = "service_tag strong_id"
type_synonym method_id = "method_tag strong_id"
type_synonym event_id = "event_tag strong_id"
type_synonym instance_id = "instance_tag strong_id"
type_synonym eventgroup_id = "eventgroup_tag strong_id"
type_synonym client_id = "client_tag strong_id"
type_synonym session_id = "session_tag strong_id"

text \<open>The defaulted three-way comparison: the order of the underlying values.\<close>

instantiation strong_id :: (type) linorder
begin

definition less_eq_strong_id :: "'a strong_id \<Rightarrow> 'a strong_id \<Rightarrow> bool" where
  "less_eq_strong_id a b = (id_value a \<le> id_value b)"

definition less_strong_id :: "'a strong_id \<Rightarrow> 'a strong_id \<Rightarrow> bool" where
  "less_strong_id a b = (id_value a < id_value b)"

instance
  by standard (auto simp: less_eq_strong_id_def less_strong_id_def strong_id.expand)

end

section \<open>Constants\<close>

definition protocol_version :: u8 where [wire_consts]: "protocol_version = 0x01"

definition header_size :: nat where [wire_consts]: "header_size = 16"
definition someip_header_size :: nat where [wire_consts]: "someip_header_size = 8"

definition service_id_offset :: nat where [wire_consts]: "service_id_offset = 0"
definition method_id_offset :: nat where [wire_consts]: "method_id_offset = 2"
definition length_offset :: nat where [wire_consts]: "length_offset = 4"
definition client_id_offset :: nat where [wire_consts]: "client_id_offset = 8"
definition session_id_offset :: nat where [wire_consts]: "session_id_offset = 10"
definition protocol_ver_offset :: nat where [wire_consts]: "protocol_ver_offset = 12"
definition interface_ver_offset :: nat where [wire_consts]: "interface_ver_offset = 13"
definition message_type_offset :: nat where [wire_consts]: "message_type_offset = 14"
definition return_code_offset :: nat where [wire_consts]: "return_code_offset = 15"

definition max_tcp_message_size :: nat where [wire_consts]: "max_tcp_message_size = 4096 * 1024"

definition tp_header_size :: nat where [wire_consts]: "tp_header_size = 4"
definition tp_max_segment_length :: nat where [wire_consts]: "tp_max_segment_length = 1392"

definition magic_cookie_client_service :: u16 where [wire_consts]: "magic_cookie_client_service = 0xFFFF"
definition magic_cookie_client_method :: u16 where [wire_consts]: "magic_cookie_client_method = 0x0000"
definition magic_cookie_server_method :: u16 where [wire_consts]: "magic_cookie_server_method = 0x8000"

definition sd_service :: service_id where [wire_consts]: "sd_service = Strong_id 0xFFFF"
definition sd_method :: method_id where [wire_consts]: "sd_method = Strong_id 0x8100"
definition sd_client :: client_id where [wire_consts]: "sd_client = Strong_id 0x0000"

definition any_service :: service_id where [wire_consts]: "any_service = Strong_id 0xFFFF"
definition any_instance :: instance_id where [wire_consts]: "any_instance = Strong_id 0xFFFF"
definition any_method :: method_id where [wire_consts]: "any_method = Strong_id 0xFFFF"
definition any_client :: client_id where [wire_consts]: "any_client = Strong_id 0xFFFF"

text \<open>\<open>std::hash\<close> of an identifier is that of its value, an argument here.\<close>

definition strong_id_hash :: "(u16 \<Rightarrow> nat) \<Rightarrow> 'tag strong_id \<Rightarrow> nat" where
  "strong_id_hash h i = h (id_value i)"

section \<open>Message types\<close>

datatype message_type = Message_type (mt_code: u8)

definition mt_request :: message_type where [wire_consts]: "mt_request = Message_type 0x00"
definition mt_request_no_return :: message_type where [wire_consts]: "mt_request_no_return = Message_type 0x01"
definition mt_notification :: message_type where [wire_consts]: "mt_notification = Message_type 0x02"
definition mt_request_ack :: message_type where [wire_consts]: "mt_request_ack = Message_type 0x40"
definition mt_response :: message_type where [wire_consts]: "mt_response = Message_type 0x80"
definition mt_error :: message_type where [wire_consts]: "mt_error = Message_type 0x81"

definition is_request :: "message_type \<Rightarrow> bool" where
  "is_request t = (t = mt_request \<or> t = mt_request_ack)"

definition is_response :: "message_type \<Rightarrow> bool" where
  "is_response t = (mt_code t AND 0x80 \<noteq> 0)"

definition is_tp :: "message_type \<Rightarrow> bool" where
  "is_tp t = (mt_code t AND 0x20 \<noteq> 0)"

definition with_tp :: "message_type \<Rightarrow> message_type" where
  "with_tp t = Message_type (mt_code t OR 0x20)"

definition without_tp :: "message_type \<Rightarrow> message_type" where
  "without_tp t = Message_type (mt_code t AND NOT 0x20)"

lemma is_tp_bit: "is_tp t \<longleftrightarrow> bit (mt_code t) 5"
  using and_exp_eq_0_iff_not_bit [of "mt_code t" 5] by (simp add: is_tp_def)

lemma is_response_bit: "is_response t \<longleftrightarrow> bit (mt_code t) 7"
  using and_exp_eq_0_iff_not_bit [of "mt_code t" 7] by (simp add: is_response_def)

lemma bit_0x20: "bit (0x20 :: u8) n \<longleftrightarrow> n = 5"
  using bit_exp_iff [of 5 n, where ?'a = u8] by auto

lemma is_tp_with_tp [simp]: "is_tp (with_tp t)"
  by (simp add: is_tp_bit with_tp_def bit_or_iff bit_0x20)

lemma or_and_not_cancel: "x AND m = 0 \<Longrightarrow> (x OR m) AND NOT m = (x :: 'a::len word)"
  by (auto simp: bit_eq_iff bit_and_iff bit_or_iff bit_not_iff)

lemma without_with_tp: "\<not> is_tp t \<Longrightarrow> without_tp (with_tp t) = t"
  using or_and_not_cancel [of "mt_code t" "0x20"]
  by (cases t) (simp add: is_tp_def without_tp_def with_tp_def)

lemma is_response_with_tp [simp]: "is_response (with_tp t) = is_response t"
  by (simp add: is_response_bit with_tp_def bit_or_iff bit_0x20)

section \<open>Return codes\<close>

datatype return_code = Return_code (rc_code: u8)

definition e_ok :: return_code where [wire_consts]: "e_ok = Return_code 0x00"
definition e_not_ok :: return_code where [wire_consts]: "e_not_ok = Return_code 0x01"

definition is_error :: "return_code \<Rightarrow> bool" where
  "is_error rc = (rc \<noteq> e_ok)"

end
