(* ===== verification/Byte_Order.thy ===== *)
theory Byte_Order
  imports Prelude
begin

text \<open>
  \<open>platform/byte_order.hpp\<close> and the big-endian accessors of \<open>wire/header.hpp\<close>. The accessors are
  translated with the code's integer widths (\<open>read_u16_be\<close> computes in \<open>unsigned\<close> and casts); their
  pure forms \<open>be16\<close>, \<open>be32\<close>, \<open>be64\<close> are the byte sequences they write, and the lemmas of this theory
  turn every access into a store or a lookup of such a sequence. \<open>load_u32_le\<close> is \<open>memcpy\<close> into a
  \<open>std::uint32_t\<close> on a little-endian host, the platform the CRC fast paths are written for.
\<close>

section \<open>Byte sequences of words\<close>

definition be16 :: "u16 \<Rightarrow> byte list" where
  "be16 v = [ucast (drop_bit 8 v), ucast v]"

definition be32 :: "u32 \<Rightarrow> byte list" where
  "be32 v = [ucast (drop_bit 24 v), ucast (drop_bit 16 v), ucast (drop_bit 8 v), ucast v]"

definition be64 :: "u64 \<Rightarrow> byte list" where
  "be64 v = be32 (ucast (drop_bit 32 v)) @ be32 (ucast v)"

definition u16_of :: "byte \<Rightarrow> byte \<Rightarrow> u16" where
  "u16_of b0 b1 = ucast (push_bit 8 (ucast b0 :: u32) OR (ucast b1 :: u32))"

definition u32_of :: "byte \<Rightarrow> byte \<Rightarrow> byte \<Rightarrow> byte \<Rightarrow> u32" where
  "u32_of b0 b1 b2 b3 =
     push_bit 24 (ucast b0) OR push_bit 16 (ucast b1) OR push_bit 8 (ucast b2) OR ucast b3"

definition u64_of :: "u32 \<Rightarrow> u32 \<Rightarrow> u64" where
  "u64_of hi lo = push_bit 32 (ucast hi) OR ucast lo"

lemma length_be [simp]: "length (be16 v) = 2" "length (be32 w) = 4" "length (be64 x) = 8"
  by (simp_all add: be16_def be32_def be64_def)

lemma u16_of_be16: "u16_of (ucast (drop_bit 8 v)) (ucast v) = v"
  unfolding u16_of_def by (rule bit_word_eqI) (auto simp: bit_simps)

lemma u32_of_be32:
  "u32_of (ucast (drop_bit 24 v)) (ucast (drop_bit 16 v)) (ucast (drop_bit 8 v)) (ucast v) = v"
  (is "?w = v")
proof (rule bit_word_eqI)
  fix n :: nat
  assume "n < LENGTH(32)"
  then consider "n < 8" | "8 \<le> n" "n < 16" | "16 \<le> n" "n < 24" | "24 \<le> n" "n < 32"
    by force
  then show "bit ?w n = bit v n"
    by cases (auto simp: u32_of_def bit_simps)
qed

lemma u64_of_be64: "u64_of (ucast (drop_bit 32 v)) (ucast v) = v"
  unfolding u64_of_def by (rule bit_word_eqI) (auto simp: bit_simps)

lemma be16_u16_of [simp]: "be16 (u16_of a b) = [a, b]"
  unfolding be16_def u16_of_def by (auto simp: bit_simps bit_beyond intro!: bit_word_eqI)

lemma be32_u32_of [simp]: "be32 (u32_of a b c d) = [a, b, c, d]"
  unfolding be32_def u32_of_def by (auto simp: bit_simps bit_beyond intro!: bit_word_eqI)

lemma u64_of_split: "ucast (drop_bit 32 (u64_of a b)) = a" "ucast (u64_of a b) = b"
  unfolding u64_of_def by (auto simp: bit_simps bit_beyond intro!: bit_word_eqI)

lemma be64_u64_of [simp]: "be64 (u64_of a b) = be32 a @ be32 b"
  by (simp add: be64_def u64_of_split)

lemma be16_inject [simp]: "be16 v = be16 w \<longleftrightarrow> v = w"
  unfolding be16_def by (metis list.inject u16_of_be16)

lemma be32_inject [simp]: "be32 v = be32 w \<longleftrightarrow> v = w"
  unfolding be32_def by (metis list.inject u32_of_be32)

lemma be64_inject [simp]: "be64 v = be64 w \<longleftrightarrow> v = w"
proof
  assume "be64 v = be64 w"
  then have "ucast (drop_bit 32 v) = (ucast (drop_bit 32 w) :: u32)" "ucast v = (ucast w :: u32)"
    by (simp_all add: be64_def)
  then show "v = w" by (metis u64_of_be64)
qed simp

text \<open>A buffer that is long enough starts with an encoded word.\<close>

lemma split_be16:
  assumes "2 \<le> length m"
  obtains v r where "m = be16 v @ r"
proof -
  have "length (take 2 m) = Suc (Suc 0)" using assms by simp
  then obtain a b where "take 2 m = [a, b]"
    by (auto simp: length_Suc_conv simp del: length_take)
  then have "m = be16 (u16_of a b) @ drop 2 m"
    using append_take_drop_id [of 2 m] by simp
  then show ?thesis by (rule that)
qed

lemma split_be32:
  assumes "4 \<le> length m"
  obtains v r where "m = be32 v @ r"
proof -
  have "length (take 4 m) = Suc (Suc (Suc (Suc 0)))" using assms by simp
  then obtain a b c d where "take 4 m = [a, b, c, d]"
    by (auto simp: length_Suc_conv simp del: length_take)
  then have "m = be32 (u32_of a b c d) @ drop 4 m"
    using append_take_drop_id [of 4 m] by simp
  then show ?thesis by (rule that)
qed

lemma split_be64:
  assumes "8 \<le> length m"
  obtains v r where "m = be64 v @ r"
proof -
  obtain a r where m: "m = be32 a @ r" using assms split_be32 [of m] by force
  then obtain b r' where "r = be32 b @ r'" using assms split_be32 [of r] by force
  with m have "m = be64 (u64_of a b) @ r'" by simp
  then show ?thesis by (rule that)
qed

section \<open>Accessors\<close>

definition read_u16_be :: "byte list \<Rightarrow> nat \<Rightarrow> u16 option" where
  "read_u16_be m p = do {
     b0 \<leftarrow> peek m p;
     b1 \<leftarrow> peek m (p + 1);
     Some (ucast (push_bit 8 (ucast b0 :: u32) OR (ucast b1 :: u32)))
   }"

definition read_u32_be :: "byte list \<Rightarrow> nat \<Rightarrow> u32 option" where
  "read_u32_be m p = do {
     b0 \<leftarrow> peek m p;
     b1 \<leftarrow> peek m (p + 1);
     b2 \<leftarrow> peek m (p + 2);
     b3 \<leftarrow> peek m (p + 3);
     Some (push_bit 24 (ucast b0) OR push_bit 16 (ucast b1) OR push_bit 8 (ucast b2) OR ucast b3)
   }"

definition write_u16_be :: "byte list \<Rightarrow> nat \<Rightarrow> u16 \<Rightarrow> byte list option" where
  "write_u16_be m p v = do {
     m \<leftarrow> poke m p (ucast (drop_bit 8 v));
     poke m (p + 1) (ucast v)
   }"

definition write_u32_be :: "byte list \<Rightarrow> nat \<Rightarrow> u32 \<Rightarrow> byte list option" where
  "write_u32_be m p v = do {
     m \<leftarrow> poke m p (ucast (drop_bit 24 v));
     m \<leftarrow> poke m (p + 1) (ucast (drop_bit 16 v));
     m \<leftarrow> poke m (p + 2) (ucast (drop_bit 8 v));
     poke m (p + 3) (ucast v)
   }"

lemma write_u16_be_store: "write_u16_be m p v = store m p (be16 v)"
  by (simp add: write_u16_be_def be16_def)

lemma write_u32_be_store: "write_u32_be m p v = store m p (be32 v)"
  by (simp add: write_u32_be_def be32_def numeral_2_eq_2 numeral_3_eq_3)

lemma read_u16_be_nth:
  "p + 2 \<le> length m \<Longrightarrow> read_u16_be m p = Some (u16_of (m ! p) (m ! (p + 1)))"
  by (simp add: read_u16_be_def mem_simps u16_of_def)

lemma read_u32_be_nth:
  "p + 4 \<le> length m \<Longrightarrow>
   read_u32_be m p = Some (u32_of (m ! p) (m ! (p + 1)) (m ! (p + 2)) (m ! (p + 3)))"
  by (simp add: read_u32_be_def mem_simps u32_of_def)

lemma read_u16_be_drop: "read_u16_be (drop n m) p = read_u16_be m (n + p)"
  by (simp add: read_u16_be_def peek_drop add.assoc)

lemma read_u32_be_drop: "read_u32_be (drop n m) p = read_u32_be m (n + p)"
  by (simp add: read_u32_be_def peek_drop add.assoc)

lemma read_u16_be_Some_iff: "(\<exists>v. read_u16_be m p = Some v) \<longleftrightarrow> p + 2 \<le> length m"
  by (auto simp: read_u16_be_nth) (auto simp: read_u16_be_def peek_def bind_eq_Some_conv split: if_splits)

lemma read_u32_be_Some_iff: "(\<exists>v. read_u32_be m p = Some v) \<longleftrightarrow> p + 4 \<le> length m"
  by (auto simp: read_u32_be_nth) (auto simp: read_u32_be_def peek_def bind_eq_Some_conv split: if_splits)

text \<open>Reading a slice that holds an encoded word gives the word back.\<close>

lemma read_u16_be_at [mem_simps]: "length xs = p \<Longrightarrow> read_u16_be (xs @ be16 v @ ys) p = Some v"
  by (auto simp: read_u16_be_nth nth_append be16_def u16_of_be16)

lemma read_u32_be_at [mem_simps]: "length xs = p \<Longrightarrow> read_u32_be (xs @ be32 v @ ys) p = Some v"
  by (auto simp: read_u32_be_nth nth_append be32_def u32_of_be32)

lemma read_u16_be_Cons0: "read_u16_be (a # b # xs) 0 = Some (u16_of a b)"
  by (simp add: read_u16_be_nth)

lemma read_u32_be_Cons0: "read_u32_be (a # b # c # d # xs) 0 = Some (u32_of a b c d)"
  by (simp add: read_u32_be_nth numeral_2_eq_2 numeral_3_eq_3)

lemma read_u16_be_append: "p + 2 \<le> length xs \<Longrightarrow> read_u16_be (xs @ ys) p = read_u16_be xs p"
  by (simp add: read_u16_be_nth nth_append)

lemma read_u32_be_append: "p + 4 \<le> length xs \<Longrightarrow> read_u32_be (xs @ ys) p = read_u32_be xs p"
  by (simp add: read_u32_be_nth nth_append)

section \<open>Byte swapping\<close>

definition bswap32 :: "u32 \<Rightarrow> u32" where
  "bswap32 v =
     push_bit 24 (v AND 0x000000FF) OR
     push_bit 8 (v AND 0x0000FF00) OR
     drop_bit 8 (v AND 0x00FF0000) OR
     drop_bit 24 (v AND 0xFF000000)"

definition bswap64 :: "u64 \<Rightarrow> u64" where
  "bswap64 v =
     push_bit 56 (v AND 0x00000000000000FF) OR
     push_bit 40 (v AND 0x000000000000FF00) OR
     push_bit 24 (v AND 0x0000000000FF0000) OR
     push_bit 8 (v AND 0x00000000FF000000) OR
     drop_bit 8 (v AND 0x000000FF00000000) OR
     drop_bit 24 (v AND 0x0000FF0000000000) OR
     drop_bit 40 (v AND 0x00FF000000000000) OR
     drop_bit 56 (v AND 0xFF00000000000000)"

text \<open>\<open>std::memcpy\<close> of 4 or 8 bytes into an unsigned integer, little-endian host.\<close>

definition le32_of :: "byte \<Rightarrow> byte \<Rightarrow> byte \<Rightarrow> byte \<Rightarrow> u32" where
  "le32_of b0 b1 b2 b3 = u32_of b3 b2 b1 b0"

end
