(* ===== verification/Wire_Header.thy ===== *)
theory Wire_Header
  imports Wire_Types Byte_Order
begin

text \<open>
  \<open>wire/header.hpp\<close>: the 16-byte SOME/IP header as a view over a buffer. A \<open>header_view\<close> (and a
  \<open>const_header_view\<close>) is the buffer its pointer starts at, so each getter reads that buffer and each
  setter returns the updated one; \<^term>\<open>None\<close> means that the buffer is too short for the access.

  The abstract contract is the record \<open>header_fields\<close> with its encoding \<open>header_bytes\<close>: getters
  and setters on an encoded header are field selection and field update
  (\<open>hdr_getters\<close>, \<open>hdr_setters\<close>), and every buffer of 16 bytes or more is an encoded header
  (\<open>header_cases\<close>). All later components reason about headers through these three.
\<close>

named_theorems hdr_getters \<open>a getter on an encoded header selects the field\<close>
named_theorems hdr_setters \<open>a setter on an encoded header updates the field\<close>

section \<open>header_view\<close>

definition hdr_service :: "byte list \<Rightarrow> service_id option" where
  "hdr_service m = map_option Strong_id (read_u16_be m service_id_offset)"

definition hdr_method :: "byte list \<Rightarrow> method_id option" where
  "hdr_method m = map_option Strong_id (read_u16_be m method_id_offset)"

definition hdr_length :: "byte list \<Rightarrow> u32 option" where
  "hdr_length m = read_u32_be m length_offset"

definition hdr_client :: "byte list \<Rightarrow> client_id option" where
  "hdr_client m = map_option Strong_id (read_u16_be m client_id_offset)"

definition hdr_session :: "byte list \<Rightarrow> session_id option" where
  "hdr_session m = map_option Strong_id (read_u16_be m session_id_offset)"

definition hdr_protocol_ver :: "byte list \<Rightarrow> u8 option" where
  "hdr_protocol_ver m = peek m protocol_ver_offset"

definition hdr_interface_ver :: "byte list \<Rightarrow> u8 option" where
  "hdr_interface_ver m = peek m interface_ver_offset"

definition hdr_msg_type :: "byte list \<Rightarrow> message_type option" where
  "hdr_msg_type m = map_option Message_type (peek m message_type_offset)"

definition hdr_ret_code :: "byte list \<Rightarrow> return_code option" where
  "hdr_ret_code m = map_option Return_code (peek m return_code_offset)"

text \<open>The payload length: the length field less the 8 bytes it counts of the header itself.\<close>

definition hdr_payload_length :: "byte list \<Rightarrow> u32 option" where
  "hdr_payload_length m = do {
     l \<leftarrow> hdr_length m;
     Some (if someip_header_size \<le> unat l then l - of_nat someip_header_size else 0)
   }"

definition hdr_message_size :: "byte list \<Rightarrow> nat option" where
  "hdr_message_size m = do {
     pl \<leftarrow> hdr_payload_length m;
     Some (header_size + unat pl)
   }"

definition set_service :: "byte list \<Rightarrow> service_id \<Rightarrow> byte list option" where
  "set_service m v = write_u16_be m service_id_offset (id_value v)"

definition set_method :: "byte list \<Rightarrow> method_id \<Rightarrow> byte list option" where
  "set_method m v = write_u16_be m method_id_offset (id_value v)"

definition set_length :: "byte list \<Rightarrow> u32 \<Rightarrow> byte list option" where
  "set_length m v = write_u32_be m length_offset v"

definition set_client :: "byte list \<Rightarrow> client_id \<Rightarrow> byte list option" where
  "set_client m v = write_u16_be m client_id_offset (id_value v)"

definition set_session :: "byte list \<Rightarrow> session_id \<Rightarrow> byte list option" where
  "set_session m v = write_u16_be m session_id_offset (id_value v)"

definition set_protocol_ver :: "byte list \<Rightarrow> u8 \<Rightarrow> byte list option" where
  "set_protocol_ver m v = poke m protocol_ver_offset v"

definition set_interface_ver :: "byte list \<Rightarrow> u8 \<Rightarrow> byte list option" where
  "set_interface_ver m v = poke m interface_ver_offset v"

definition set_msg_type :: "byte list \<Rightarrow> message_type \<Rightarrow> byte list option" where
  "set_msg_type m v = poke m message_type_offset (mt_code v)"

definition set_ret_code :: "byte list \<Rightarrow> return_code \<Rightarrow> byte list option" where
  "set_ret_code m v = poke m return_code_offset (rc_code v)"

text \<open>The sum is computed in \<open>std::size_t\<close> and narrowed by the call, so it wraps at 32 bits.\<close>

definition set_payload_length :: "byte list \<Rightarrow> u32 \<Rightarrow> byte list option" where
  "set_payload_length m payload_len = set_length m (of_nat (unat payload_len + someip_header_size))"

section \<open>const_header_view\<close>

text \<open>The read-only view repeats the getters. \<open>const_view_getters\<close> says that the two views agree, so the
  rest of the development writes the getters of \<open>header_view\<close> for both.\<close>

definition const_hdr_service :: "byte list \<Rightarrow> service_id option" where
  "const_hdr_service m = map_option Strong_id (read_u16_be m service_id_offset)"

definition const_hdr_method :: "byte list \<Rightarrow> method_id option" where
  "const_hdr_method m = map_option Strong_id (read_u16_be m method_id_offset)"

definition const_hdr_length :: "byte list \<Rightarrow> u32 option" where
  "const_hdr_length m = read_u32_be m length_offset"

definition const_hdr_client :: "byte list \<Rightarrow> client_id option" where
  "const_hdr_client m = map_option Strong_id (read_u16_be m client_id_offset)"

definition const_hdr_session :: "byte list \<Rightarrow> session_id option" where
  "const_hdr_session m = map_option Strong_id (read_u16_be m session_id_offset)"

definition const_hdr_protocol_ver :: "byte list \<Rightarrow> u8 option" where
  "const_hdr_protocol_ver m = peek m protocol_ver_offset"

definition const_hdr_interface_ver :: "byte list \<Rightarrow> u8 option" where
  "const_hdr_interface_ver m = peek m interface_ver_offset"

definition const_hdr_msg_type :: "byte list \<Rightarrow> message_type option" where
  "const_hdr_msg_type m = map_option Message_type (peek m message_type_offset)"

definition const_hdr_ret_code :: "byte list \<Rightarrow> return_code option" where
  "const_hdr_ret_code m = map_option Return_code (peek m return_code_offset)"

definition const_hdr_payload_length :: "byte list \<Rightarrow> u32 option" where
  "const_hdr_payload_length m = do {
     l \<leftarrow> const_hdr_length m;
     Some (if someip_header_size \<le> unat l then l - of_nat someip_header_size else 0)
   }"

definition const_hdr_message_size :: "byte list \<Rightarrow> nat option" where
  "const_hdr_message_size m = do {
     pl \<leftarrow> const_hdr_payload_length m;
     Some (header_size + unat pl)
   }"

lemma const_view_getters [simp]:
  "const_hdr_service = hdr_service" "const_hdr_method = hdr_method" "const_hdr_length = hdr_length" "const_hdr_client = hdr_client"
  "const_hdr_session = hdr_session" "const_hdr_protocol_ver = hdr_protocol_ver" "const_hdr_interface_ver = hdr_interface_ver" "const_hdr_msg_type = hdr_msg_type"
  "const_hdr_ret_code = hdr_ret_code" "const_hdr_payload_length = hdr_payload_length" "const_hdr_message_size = hdr_message_size"
  by (intro ext; simp add: const_hdr_service_def hdr_service_def const_hdr_method_def hdr_method_def const_hdr_length_def hdr_length_def
      const_hdr_client_def hdr_client_def const_hdr_session_def hdr_session_def const_hdr_protocol_ver_def hdr_protocol_ver_def
      const_hdr_interface_ver_def hdr_interface_ver_def const_hdr_msg_type_def hdr_msg_type_def
      const_hdr_ret_code_def hdr_ret_code_def const_hdr_payload_length_def hdr_payload_length_def
      const_hdr_message_size_def hdr_message_size_def)+

section \<open>header\<close>

text \<open>A \<open>header\<close> owns 16 zero-initialised bytes; \<open>make\<close> fills all fields.\<close>

definition header_default :: "byte list" where
  "header_default = replicate header_size 0"

definition header_make :: "service_id \<Rightarrow> method_id \<Rightarrow> client_id \<Rightarrow> session_id \<Rightarrow>
    u8 \<Rightarrow> message_type \<Rightarrow> return_code \<Rightarrow> byte list option" where
  "header_make svc mth client sess iface_ver mtype rcode = do {
     let h = header_default;
     h \<leftarrow> set_service h svc;
     h \<leftarrow> set_method h mth;
     h \<leftarrow> set_client h client;
     h \<leftarrow> set_session h sess;
     h \<leftarrow> set_protocol_ver h protocol_version;
     h \<leftarrow> set_interface_ver h iface_ver;
     h \<leftarrow> set_msg_type h mtype;
     h \<leftarrow> set_ret_code h rcode;
     set_length h (of_nat someip_header_size)
   }"

section \<open>The abstract header\<close>

record header_fields =
  f_service :: service_id
  f_method :: method_id
  f_length :: u32
  f_client :: client_id
  f_session :: session_id
  f_protocol :: u8
  f_interface :: u8
  f_type :: message_type
  f_rcode :: return_code

definition header_bytes :: "header_fields \<Rightarrow> byte list" where
  "header_bytes h =
     be16 (id_value (f_service h)) @ be16 (id_value (f_method h)) @ be32 (f_length h) @
     be16 (id_value (f_client h)) @ be16 (id_value (f_session h)) @
     [f_protocol h, f_interface h, mt_code (f_type h), rc_code (f_rcode h)]"

lemma length_header_bytes [simp]: "length (header_bytes h) = 16"
  by (simp add: header_bytes_def)

lemma list_16_cases:
  assumes "length xs = 16"
  obtains a b c d e f g h i j k l m n p q
  where "xs = [a, b, c, d, e, f, g, h, i, j, k, l, m, n, p, q]"
  using assms by (auto simp: length_Suc_conv eval_nat_numeral)

text \<open>Every buffer long enough for a header is an encoded header.\<close>

lemma header_cases:
  assumes "16 \<le> length m"
  obtains h r where "m = header_bytes h @ r"
proof -
  have "length (take 16 m) = 16" using assms by simp
  then obtain a b c d e f g h i j k l n p q s
    where t: "take 16 m = [a, b, c, d, e, f, g, h, i, j, k, l, n, p, q, s]"
    by (rule list_16_cases)
  let ?h = "\<lparr>f_service = Strong_id (u16_of a b), f_method = Strong_id (u16_of c d),
    f_length = u32_of e f g h, f_client = Strong_id (u16_of i j), f_session = Strong_id (u16_of k l),
    f_protocol = n, f_interface = p, f_type = Message_type q, f_rcode = Return_code s\<rparr>"
  have "m = header_bytes ?h @ drop 16 m"
    using append_take_drop_id [of 16 m] by (simp add: t header_bytes_def)
  then show ?thesis by (rule that)
qed

lemma header_bytes_inject [simp]: "header_bytes h @ r = header_bytes h' @ r' \<longleftrightarrow> h = h' \<and> r = r'"
proof -
  have "be16 v = be16 w \<longleftrightarrow> v = w" for v w
    unfolding be16_def by (metis list.inject u16_of_be16)
  moreover have "be32 v = be32 w \<longleftrightarrow> v = w" for v w
    unfolding be32_def by (metis list.inject u32_of_be32)
  ultimately show ?thesis
    by (cases h; cases h')
      (auto simp: header_bytes_def append_eq_append_conv strong_id.expand message_type.expand
        return_code.expand)
qed

lemmas header_defs =
  hdr_service_def hdr_method_def hdr_length_def hdr_client_def hdr_session_def
  hdr_protocol_ver_def hdr_interface_ver_def hdr_msg_type_def hdr_ret_code_def

lemmas setter_defs =
  set_service_def set_method_def set_length_def set_client_def set_session_def
  set_protocol_ver_def set_interface_ver_def set_msg_type_def set_ret_code_def

lemma hdr_getters_bytes [hdr_getters]:
  "hdr_service (header_bytes h @ r) = Some (f_service h)"
  "hdr_method (header_bytes h @ r) = Some (f_method h)"
  "hdr_length (header_bytes h @ r) = Some (f_length h)"
  "hdr_client (header_bytes h @ r) = Some (f_client h)"
  "hdr_session (header_bytes h @ r) = Some (f_session h)"
  "hdr_protocol_ver (header_bytes h @ r) = Some (f_protocol h)"
  "hdr_interface_ver (header_bytes h @ r) = Some (f_interface h)"
  "hdr_msg_type (header_bytes h @ r) = Some (f_type h)"
  "hdr_ret_code (header_bytes h @ r) = Some (f_rcode h)"
  by (simp_all add: header_defs wire_consts header_bytes_def be16_def be32_def read_u16_be_nth
      read_u32_be_nth u16_of_be16 u32_of_be32 peek_def)

lemma hdr_setters_bytes [hdr_setters]:
  "set_service (header_bytes h @ r) s = Some (header_bytes (h\<lparr>f_service := s\<rparr>) @ r)"
  "set_method (header_bytes h @ r) mt = Some (header_bytes (h\<lparr>f_method := mt\<rparr>) @ r)"
  "set_length (header_bytes h @ r) l = Some (header_bytes (h\<lparr>f_length := l\<rparr>) @ r)"
  "set_client (header_bytes h @ r) c = Some (header_bytes (h\<lparr>f_client := c\<rparr>) @ r)"
  "set_session (header_bytes h @ r) ss = Some (header_bytes (h\<lparr>f_session := ss\<rparr>) @ r)"
  "set_protocol_ver (header_bytes h @ r) v = Some (header_bytes (h\<lparr>f_protocol := v\<rparr>) @ r)"
  "set_interface_ver (header_bytes h @ r) v = Some (header_bytes (h\<lparr>f_interface := v\<rparr>) @ r)"
  "set_msg_type (header_bytes h @ r) ty = Some (header_bytes (h\<lparr>f_type := ty\<rparr>) @ r)"
  "set_ret_code (header_bytes h @ r) rc = Some (header_bytes (h\<lparr>f_rcode := rc\<rparr>) @ r)"
  by (simp_all add: setter_defs wire_consts header_bytes_def be16_def be32_def write_u16_be_def
      write_u32_be_def poke_def)

lemma set_payload_length_bytes [hdr_setters]:
  "set_payload_length (header_bytes h @ r) n = Some (header_bytes (h\<lparr>f_length := n + 8\<rparr>) @ r)"
  by (simp add: set_payload_length_def hdr_setters wire_consts)

lemma hdr_payload_length_bytes [hdr_getters]:
  "hdr_payload_length (header_bytes h @ r) = Some (if 8 \<le> f_length h then f_length h - 8 else 0)"
  by (simp add: hdr_payload_length_def hdr_getters wire_consts word_le_nat_alt)

lemma hdr_message_size_bytes [hdr_getters]:
  "hdr_message_size (header_bytes h @ r) =
     Some (16 + unat (if 8 \<le> f_length h then f_length h - 8 else 0))"
  by (simp add: hdr_message_size_def hdr_getters wire_consts)

lemma hdr_getters_bytes0 [hdr_getters]:
  "hdr_service (header_bytes h) = Some (f_service h)"
  "hdr_method (header_bytes h) = Some (f_method h)"
  "hdr_length (header_bytes h) = Some (f_length h)"
  "hdr_client (header_bytes h) = Some (f_client h)"
  "hdr_session (header_bytes h) = Some (f_session h)"
  "hdr_protocol_ver (header_bytes h) = Some (f_protocol h)"
  "hdr_interface_ver (header_bytes h) = Some (f_interface h)"
  "hdr_msg_type (header_bytes h) = Some (f_type h)"
  "hdr_ret_code (header_bytes h) = Some (f_rcode h)"
  using hdr_getters_bytes [of h "[]"] by simp_all

lemma header_default_bytes:
  "header_default = header_bytes \<lparr>f_service = Strong_id 0, f_method = Strong_id 0, f_length = 0,
     f_client = Strong_id 0, f_session = Strong_id 0, f_protocol = 0, f_interface = 0,
     f_type = Message_type 0, f_rcode = Return_code 0\<rparr> @ []"
  by (simp add: header_default_def header_bytes_def be16_def be32_def wire_consts eval_nat_numeral)

text \<open>The factory returns exactly the encoded header with an empty payload.\<close>

lemma header_make_bytes:
  "header_make svc mth cl ss iv ty rc = Some (header_bytes \<lparr>f_service = svc, f_method = mth,
     f_length = 8, f_client = cl, f_session = ss, f_protocol = 1, f_interface = iv, f_type = ty,
     f_rcode = rc\<rparr>)"
  unfolding header_make_def header_default_bytes
  by (simp only: Let_def hdr_setters Option.bind.bind_lunit) (simp add: wire_consts)

end
