(* ===== verification/Containers.thy ===== *)
theory Containers
  imports Prelude "HOL-Library.AList"
begin

text \<open>
  The associative containers of the C++ standard library the program uses.
  \<open>omap\<close> is \<open>std::map\<close> / \<open>std::flat_map\<close>: an association list in strictly ascending key order,
  so that iterating over it visits the keys as the code's range-for does. \<open>std::unordered_map\<close> is
  an association list with distinct keys, through \<^term>\<open>AList.update\<close> and \<^term>\<open>AList.delete\<close>
  (its iteration order is not specified by the standard, and no statement here depends on it).
  Both provide the interface \<open>keyed_store\<close>, the laws the routing components rely on.
\<close>

section \<open>The interface of a keyed store\<close>

locale keyed_store =
  fixes empty :: "'m"
    and put :: "'k \<Rightarrow> 'v \<Rightarrow> 'm \<Rightarrow> 'm"
    and del :: "'k \<Rightarrow> 'm \<Rightarrow> 'm"
    and get :: "'m \<Rightarrow> 'k \<Rightarrow> 'v option"
    and inv :: "'m \<Rightarrow> bool"
  assumes get_empty: "get empty k = None"
    and inv_empty: "inv empty"
    and get_put: "inv m \<Longrightarrow> get (put k v m) j = (if j = k then Some v else get m j)"
    and inv_put: "inv m \<Longrightarrow> inv (put k v m)"
    and get_del: "inv m \<Longrightarrow> get (del k m) j = (if j = k then None else get m j)"
    and inv_del: "inv m \<Longrightarrow> inv (del k m)"
begin

lemma get_del_put: "inv m \<Longrightarrow> get (del k (put k v m)) j = get (del k m) j"
  by (simp add: get_put get_del inv_put)

lemma get_put_put: "inv m \<Longrightarrow> get (put k w (put k v m)) j = get (put k w m) j"
  by (simp add: get_put inv_put)

lemma get_put_commute:
  "inv m \<Longrightarrow> k \<noteq> l \<Longrightarrow> get (put k v (put l w m)) j = get (put l w (put k v m)) j"
  by (simp add: get_put inv_put)

text \<open>A history of writes: the latest write to a key decides what a lookup returns.\<close>

lemma inv_puts: "inv m \<Longrightarrow> inv (fold (\<lambda>(k, v). put k v) kvs m)"
  by (induction kvs arbitrary: m) (auto simp: inv_put)

lemma get_puts:
  "inv m \<Longrightarrow> get (fold (\<lambda>(k, v). put k v) kvs m) j =
     (case map_of (rev kvs) j of Some v \<Rightarrow> Some v | None \<Rightarrow> get m j)"
proof (induction kvs arbitrary: m)
  case Nil
  then show ?case by simp
next
  case (Cons kv kvs)
  obtain k v where kv: "kv = (k, v)" by (cases kv)
  from Cons have "get (fold (\<lambda>(k, v). put k v) kvs (put k v m)) j =
      (case map_of (rev kvs) j of Some v \<Rightarrow> Some v | None \<Rightarrow> get (put k v m) j)"
    by (simp add: inv_put)
  with Cons.prems show ?case
    by (simp add: kv get_put map_add_def split: option.splits)
qed

end

section \<open>Ordered maps\<close>

type_synonym ('k, 'v) omap = "('k \<times> 'v) list"

fun omap_put :: "'k::linorder \<Rightarrow> 'v \<Rightarrow> ('k, 'v) omap \<Rightarrow> ('k, 'v) omap" where
  "omap_put k v [] = [(k, v)]"
| "omap_put k v ((k', v') # m) =
     (if k < k' then (k, v) # (k', v') # m
      else if k = k' then (k, v) # m
      else (k', v') # omap_put k v m)"

definition omap_del :: "'k \<Rightarrow> ('k, 'v) omap \<Rightarrow> ('k, 'v) omap" where
  "omap_del k m = filter (\<lambda>(k', _). k' \<noteq> k) m"

definition omap_inv :: "('k::linorder, 'v) omap \<Rightarrow> bool" where
  "omap_inv m = sorted_wrt (<) (map fst m)"

lemma set_omap_put: "fst ` set (omap_put k v m) = insert k (fst ` set m)"
  by (induction k v m rule: omap_put.induct) auto

lemma omap_inv_Nil [simp]: "omap_inv []"
  by (simp add: omap_inv_def)

lemma omap_inv_Cons: "omap_inv ((k, v) # m) \<longleftrightarrow> (\<forall>j \<in> fst ` set m. k < j) \<and> omap_inv m"
  by (simp add: omap_inv_def)

lemma omap_inv_put [simp]: "omap_inv m \<Longrightarrow> omap_inv (omap_put k v m)"
proof (induction k v m rule: omap_put.induct)
  case (2 k v k' v' m)
  then show ?case
    by (cases k k' rule: linorder_cases) (auto simp: omap_inv_Cons set_omap_put)
qed (simp add: omap_inv_def)

lemma map_of_omap_put: "omap_inv m \<Longrightarrow> map_of (omap_put k v m) = (map_of m)(k \<mapsto> v)"
proof (induction k v m rule: omap_put.induct)
  case (2 k v k' v' m)
  then show ?case
    by (cases k k' rule: linorder_cases) (auto simp: omap_inv_Cons fun_eq_iff)
qed auto

lemma map_of_omap_del: "map_of (omap_del k m) = (map_of m)(k := None)"
  by (induction m) (auto simp: omap_del_def fun_eq_iff)

lemma omap_inv_del [simp]: "omap_inv m \<Longrightarrow> omap_inv (omap_del k m)"
  by (auto simp: omap_inv_def omap_del_def case_prod_beta' sorted_wrt_map intro: sorted_wrt_filter)

lemma omap_inv_distinct: "omap_inv m \<Longrightarrow> distinct (map fst m)"
  by (simp add: omap_inv_def strict_sorted_iff)

lemma omap_put_idem: "omap_inv m \<Longrightarrow> map_of m k = Some v \<Longrightarrow> omap_put k v m = m"
proof (induction k v m rule: omap_put.induct)
  case (2 k v k' v' m)
  have "k \<in> fst ` set m" if "k \<noteq> k'"
    using "2.prems"(2) that by (force dest: map_of_SomeD)
  with "2.prems"(1) have "\<not> k < k'"
    unfolding omap_inv_Cons by (metis less_asym less_irrefl)
  with 2 show ?case
    by (cases "k = k'") (auto simp: omap_inv_Cons)
qed simp

text \<open>An ordered map is determined by its lookup function.\<close>

lemma omap_eqI:
  assumes a: "omap_inv a" and b: "omap_inv b" and eq: "map_of a = map_of b"
  shows "a = b"
proof (rule map_sorted_distinct_set_unique)
  have "(k, v) \<in> set a \<longleftrightarrow> (k, v) \<in> set b" for k v
    using a b eq by (metis map_of_eq_Some_iff omap_inv_distinct)
  then show s: "set a = set b" by auto
  show "inj_on fst (set a \<union> set b)"
    using omap_inv_distinct [OF a] s by (simp add: distinct_map)
qed (use a b in \<open>auto simp: omap_inv_def strict_sorted_iff\<close>)

lemma omap_del_put: "omap_inv m \<Longrightarrow> omap_del k (omap_put k v m) = omap_del k m"
  by (rule omap_eqI) (simp_all add: map_of_omap_put map_of_omap_del)

lemma omap_del_absent: "omap_inv m \<Longrightarrow> map_of m k = None \<Longrightarrow> omap_del k m = m"
  by (rule omap_eqI) (auto simp: map_of_omap_del)

text \<open>Inserting into a map given by an index set: the index is added to the set.\<close>

lemma omap_put_sorted_list:
  fixes g :: "'a::linorder \<Rightarrow> 'k::linorder"
  assumes "sorted_wrt (<) xs"
    and "\<And>a b. a \<in> insert i (set xs) \<Longrightarrow> b \<in> insert i (set xs) \<Longrightarrow> a < b \<Longrightarrow> g a < g b"
  shows "omap_put (g i) (f i) (map (\<lambda>j. (g j, f j)) xs) =
     map (\<lambda>j. (g j, f j)) (if i \<in> set xs then xs else insort i xs)"
  using assms
proof (induction xs)
  case Nil
  then show ?case by simp
next
  case (Cons x xs)
  from Cons.prems have IH: "omap_put (g i) (f i) (map (\<lambda>j. (g j, f j)) xs) =
     map (\<lambda>j. (g j, f j)) (if i \<in> set xs then xs else insort i xs)"
    by (intro Cons.IH) auto
  show ?case
  proof (cases i x rule: linorder_cases)
    case less
    with Cons.prems have "g i < g x" "i \<notin> set xs" "i \<noteq> x" "i \<le> x" by fastforce+
    then show ?thesis by simp
  next
    case equal
    then show ?thesis by simp
  next
    case greater
    with Cons.prems(2) [of x i] have "g x < g i" by simp
    with greater IH show ?thesis by auto
  qed
qed

lemma omap_put_sorted_set:
  fixes g :: "'a::linorder \<Rightarrow> 'k::linorder"
  assumes "finite S" and "\<And>a b. a \<in> insert i S \<Longrightarrow> b \<in> insert i S \<Longrightarrow> a < b \<Longrightarrow> g a < g b"
  shows "omap_put (g i) (f i) (map (\<lambda>j. (g j, f j)) (sorted_list_of_set S)) =
     map (\<lambda>j. (g j, f j)) (sorted_list_of_set (insert i S))"
proof (cases "i \<in> S")
  case True
  then show ?thesis
    using omap_put_sorted_list [of "sorted_list_of_set S" i g f] assms by (simp add: insert_absorb)
next
  case False
  then show ?thesis
    using omap_put_sorted_list [of "sorted_list_of_set S" i g f] assms by simp
qed

interpretation omap: keyed_store "[]" omap_put omap_del map_of omap_inv
  by unfold_locales (simp_all add: map_of_omap_put map_of_omap_del)

section \<open>Unordered maps\<close>

definition umap_inv :: "('k \<times> 'v) list \<Rightarrow> bool" where
  "umap_inv m = distinct (map fst m)"

interpretation umap: keyed_store "[]" AList.update AList.delete map_of umap_inv
  by unfold_locales (simp_all add: umap_inv_def update_conv' delete_conv' distinct_update distinct_delete)

end
