(* ===== verification/Wire_TP.thy ===== *)
theory Wire_TP
  imports Wire_Header Containers
begin

text \<open>
  \<open>wire/tp.hpp\<close>: SOME/IP-TP segmentation and reassembly. The bit fields of \<open>tp_header\<close> keep their
  widths as words. \<open>segment_loop\<close> is the while loop of \<open>segment_message\<close>; it does not advance when
  the maximal segment payload is 0, so it is a partial function. The assembler keeps, per stream
  key, an ordered map from offset to fragment; \<open>assemble\<close> is the loop of \<open>feed\<close> over it, with the
  writes \<open>result[off + i]\<close> checked against the size of \<open>result\<close>.
\<close>

datatype codec_error = Codec_ok | Buffer_too_small | Invalid_length | Unsupported_type

section \<open>The TP header\<close>

record tp_header =
  tph_offset :: "28 word"
  tph_reserved :: "3 word"
  tph_more :: "1 word"

definition read_tp_header :: "byte list \<Rightarrow> nat \<Rightarrow> tp_header option" where
  "read_tp_header m p = do {
     raw \<leftarrow> read_u32_be m p;
     Some \<lparr>tph_offset = ucast (drop_bit 4 raw), tph_reserved = 0, tph_more = ucast (raw AND 1)\<rparr>
   }"

definition write_tp_header :: "byte list \<Rightarrow> nat \<Rightarrow> tp_header \<Rightarrow> byte list option" where
  "write_tp_header m p h =
     (let raw = push_bit 4 (ucast (tph_offset h) :: u32) OR (ucast (tph_more h) AND 1)
      in write_u32_be m p raw)"

section \<open>Segmentation\<close>

text \<open>One iteration of the loop: build the segment of \<open>chunk\<close> bytes at \<open>offset\<close>.\<close>

definition make_segment ::
    "byte list \<Rightarrow> byte list \<Rightarrow> nat \<Rightarrow> nat \<Rightarrow> bool \<Rightarrow> byte list option" where
  "make_segment hdr payload offset chunk more_segs = do {
     let seg = replicate (header_size + tp_header_size + chunk) 0;
     h \<leftarrow> subspan hdr 0 header_size;
     seg \<leftarrow> store seg 0 h;
     t \<leftarrow> hdr_msg_type seg;
     seg \<leftarrow> set_msg_type seg (with_tp t);
     seg \<leftarrow> set_length seg (of_nat (someip_header_size + tp_header_size + chunk));
     let tph = \<lparr>tph_offset = ucast (of_nat offset :: u32), tph_reserved = 0,
                tph_more = (if more_segs then 1 else 0)\<rparr>;
     seg \<leftarrow> write_tp_header seg header_size tph;
     src \<leftarrow> subspan payload offset chunk;
     store seg (header_size + tp_header_size) src
   }"

partial_function (option) segment_loop ::
    "byte list \<Rightarrow> byte list \<Rightarrow> nat \<Rightarrow> nat \<Rightarrow> byte list list \<Rightarrow> byte list list option" where
  "segment_loop hdr payload max_segment_payload offset segments =
     (if offset < length payload then
        (let remaining = length payload - offset;
             chunk = (if remaining > max_segment_payload then max_segment_payload else remaining);
             more_segs = offset + chunk < length payload
         in do {
              seg \<leftarrow> make_segment hdr payload offset chunk more_segs;
              segment_loop hdr payload max_segment_payload (offset + chunk) (segments @ [seg])
            })
      else Some segments)"

definition segment_message :: "byte list \<Rightarrow> byte list \<Rightarrow> nat \<Rightarrow> byte list list option" where
  "segment_message hdr payload max_segment_payload =
     segment_loop hdr payload max_segment_payload 0 []"

section \<open>Reassembly\<close>

text \<open>The stream key, compared field by field in declaration order.\<close>

datatype tp_stream_key =
  Tp_stream_key (key_service: u16) (key_method: u16) (key_client: u16) (key_session: u16)

definition key_tuple :: "tp_stream_key \<Rightarrow> u16 \<times> u16 \<times> u16 \<times> u16" where
  "key_tuple k = (key_service k, key_method k, key_client k, key_session k)"

lemma key_tuple_inject: "key_tuple a = key_tuple b \<longleftrightarrow> a = b"
  by (cases a; cases b) (simp add: key_tuple_def)

instantiation tp_stream_key :: linorder
begin

definition less_eq_tp_stream_key :: "tp_stream_key \<Rightarrow> tp_stream_key \<Rightarrow> bool" where
  "less_eq_tp_stream_key a b = (key_tuple a \<le> key_tuple b)"

definition less_tp_stream_key :: "tp_stream_key \<Rightarrow> tp_stream_key \<Rightarrow> bool" where
  "less_tp_stream_key a b = (key_tuple a < key_tuple b)"

instance
  by standard (auto simp: less_eq_tp_stream_key_def less_tp_stream_key_def less_le_not_le
      simp flip: key_tuple_inject simp del: less_eq_prod_simp less_prod_simp)

end

record stream_state =
  fragments :: "(u32, byte list) omap"
  final_offset :: u32

definition stream_init :: stream_state where
  "stream_init = \<lparr>fragments = [], final_offset = 0\<rparr>"

type_synonym tp_assembler = "(tp_stream_key, stream_state) omap"

text \<open>The loop of \<open>feed\<close> over the fragments, in ascending order of offset.\<close>

fun assemble :: "(u32 \<times> byte list) list \<Rightarrow> u32 \<Rightarrow> byte list \<Rightarrow>
    (codec_error + u32 \<times> byte list) option" where
  "assemble [] expected result = Some (Inr (expected, result))"
| "assemble ((off, frag) # frags) expected result =
     (if off \<noteq> expected then Some (Inl Invalid_length)
      else do {
        result \<leftarrow> store result (unat off) frag;
        assemble frags (off + of_nat (length frag)) result
      })"

definition feed_key :: "byte list \<Rightarrow> tp_stream_key option" where
  "feed_key hdr = do {
     svc \<leftarrow> hdr_service hdr;
     mth \<leftarrow> hdr_method hdr;
     cl \<leftarrow> hdr_client hdr;
     ss \<leftarrow> hdr_session hdr;
     Some (Tp_stream_key (id_value svc) (id_value mth) (id_value cl) (id_value ss))
   }"

text \<open>
  \<open>feed\<close>: the result (an error or the payload) with the assembler afterwards. The reference
  \<open>streams_[key]\<close> creates the stream when it is new, and the updated stream stays in the map
  on every path but the last.
\<close>

definition feed :: "tp_assembler \<Rightarrow> byte list \<Rightarrow> byte list \<Rightarrow>
    ((codec_error + byte list) \<times> tp_assembler) option" where
  "feed streams hdr segment_data = do {
     key \<leftarrow> feed_key hdr;
     if length segment_data < header_size + tp_header_size
     then Some (Inl Buffer_too_small, streams)
     else do {
       tph \<leftarrow> read_tp_header segment_data header_size;
       let stream = (case map_of streams key of Some s \<Rightarrow> s | None \<Rightarrow> stream_init);
       payload_data \<leftarrow> subspan_from segment_data (header_size + tp_header_size);
       let stream = stream\<lparr>fragments :=
             omap_put (ucast (tph_offset tph)) payload_data (fragments stream)\<rparr>;
       let stream = (if tph_more tph = 0
             then stream\<lparr>final_offset := ucast (tph_offset tph) + of_nat (length payload_data)\<rparr>
             else stream);
       let streams = omap_put key stream streams;
       if final_offset stream = 0 then Some (Inl Invalid_length, streams)
       else do {
         res \<leftarrow> assemble (fragments stream) 0 (replicate (unat (final_offset stream)) 0);
         case res of
           Inl e \<Rightarrow> Some (Inl e, streams)
         | Inr (expected, result) \<Rightarrow>
             if expected \<noteq> final_offset stream then Some (Inl Invalid_length, streams)
             else Some (Inr result, omap_del key streams)
       }
     }
   }"

end
