(* ===== verification/Wire_TP_Correct.thy ===== *)
theory Wire_TP_Correct
  imports Wire_TP
begin

text \<open>
  Correctness of SOME/IP-TP: the segments of a payload in closed form, and reassembly from the
  segments in any order and with any number of duplicates.
\<close>

section \<open>The TP header on the wire\<close>

definition tph_raw :: "tp_header \<Rightarrow> u32" where
  "tph_raw h = push_bit 4 (ucast (tph_offset h)) OR (ucast (tph_more h) AND 1)"

lemma write_tp_header_store: "write_tp_header m p h = store m p (be32 (tph_raw h))"
  by (simp add: write_tp_header_def tph_raw_def write_u32_be_store)

lemma tph_raw_offset: "ucast (drop_bit 4 (tph_raw h)) = tph_offset h"
  unfolding tph_raw_def by (rule bit_word_eqI) (auto simp: bit_simps)

lemma tph_raw_more: "ucast (tph_raw h AND 1) = tph_more h"
  unfolding tph_raw_def
  by (rule bit_word_eqI) (auto simp: bit_simps)

lemma read_tp_header_at:
  "length xs = p \<Longrightarrow> read_tp_header (xs @ be32 (tph_raw h) @ ys) p = Some (h\<lparr>tph_reserved := 0\<rparr>)"
  by (simp add: read_tp_header_def read_u32_be_at tph_raw_offset tph_raw_more)

section \<open>The segments of a payload\<close>

definition seg_count :: "byte list \<Rightarrow> nat \<Rightarrow> nat" where
  "seg_count payload mx = (length payload + mx - 1) div mx"

definition seg_chunk :: "byte list \<Rightarrow> nat \<Rightarrow> nat \<Rightarrow> byte list" where
  "seg_chunk payload mx i = take mx (drop (i * mx) payload)"

definition seg_tph :: "byte list \<Rightarrow> nat \<Rightarrow> nat \<Rightarrow> tp_header" where
  "seg_tph payload mx i = \<lparr>tph_offset = ucast (of_nat (i * mx) :: u32), tph_reserved = 0,
     tph_more = (if Suc i < seg_count payload mx then 1 else 0)\<rparr>"

definition segment_bytes :: "header_fields \<Rightarrow> byte list \<Rightarrow> nat \<Rightarrow> nat \<Rightarrow> byte list" where
  "segment_bytes h payload mx i =
     header_bytes (h\<lparr>f_type := with_tp (f_type h),
                     f_length := of_nat (12 + length (seg_chunk payload mx i))\<rparr>) @
     be32 (tph_raw (seg_tph payload mx i)) @ seg_chunk payload mx i"

lemma less_seg_count_iff: "0 < mx \<Longrightarrow> i < seg_count payload mx \<longleftrightarrow> i * mx < length payload"
proof -
  assume mx: "0 < mx"
  have "i < seg_count payload mx \<longleftrightarrow> Suc i * mx \<le> length payload + mx - 1"
    unfolding seg_count_def Suc_le_eq [symmetric]
    using mx by (simp only: less_eq_div_iff_mult_less_eq)
  then show ?thesis using mx by auto
qed

lemma make_segment_bytes:
  assumes "offset + chunk \<le> length payload"
  shows "make_segment (header_bytes h) payload offset chunk mr = Some
     (header_bytes (h\<lparr>f_type := with_tp (f_type h), f_length := of_nat (12 + chunk)\<rparr>) @
      be32 (tph_raw \<lparr>tph_offset = ucast (of_nat offset :: u32), tph_reserved = 0,
                      tph_more = (if mr then 1 else 0)\<rparr>) @ take chunk (drop offset payload))"
    (is "_ = Some (header_bytes ?h @ be32 ?raw @ ?src)")
proof -
  have s1: "store (replicate (20 + chunk) 0) 0 (header_bytes h) =
      Some (header_bytes h @ replicate (4 + chunk) 0)"
    by (simp add: store_overwrite overwrite_def)
  have s2: "write_tp_header (header_bytes g @ replicate (4 + chunk) 0) 16 t =
      Some ((header_bytes g @ be32 (tph_raw t)) @ replicate chunk 0)" for g t
    by (simp add: write_tp_header_store store_overwrite overwrite_def)
  have s3: "store ((header_bytes g @ be32 r) @ replicate chunk 0) 20 ?src =
      Some (header_bytes g @ be32 r @ ?src)" for g r
    using assms by (simp add: store_overwrite overwrite_def)
  show ?thesis
    using assms
    by (simp add: make_segment_def wire_consts mem_simps s1 hdr_getters hdr_setters s2 s3 Let_def
        del: append_assoc)
qed

lemma segment_loop_step:
  assumes mx: "0 < mx" and i: "i < seg_count payload mx"
  shows "segment_loop (header_bytes h) payload mx (i * mx) segs =
     segment_loop (header_bytes h) payload mx (min (length payload) (Suc i * mx))
       (segs @ [segment_bytes h payload mx i])"
proof -
  let ?n = "length payload"
  let ?c = "if ?n - i * mx > mx then mx else ?n - i * mx"
  have lt: "i * mx < ?n" using i mx by (simp add: less_seg_count_iff)
  have chunk: "?c = length (seg_chunk payload mx i)"
    by (simp add: seg_chunk_def min_def)
  have src: "take ?c (drop (i * mx) payload) = seg_chunk payload mx i"
    by (simp add: seg_chunk_def)
  have nxt: "i * mx + ?c = min ?n (Suc i * mx)" using lt by auto
  have mr: "i * mx + ?c < ?n \<longleftrightarrow> Suc i < seg_count payload mx"
    using lt mx by (auto simp: less_seg_count_iff)
  have "make_segment (header_bytes h) payload (i * mx) ?c (i * mx + ?c < ?n) =
      Some (segment_bytes h payload mx i)"
    unfolding mr using lt
    by (subst make_segment_bytes)
      (auto simp: segment_bytes_def seg_tph_def src seg_chunk_def min_def not_less)
  then show ?thesis
    using lt nxt by (subst segment_loop.simps) (simp add: Let_def)
qed

lemma segment_loop_done:
  "length payload \<le> offset \<Longrightarrow> segment_loop hdr payload mx offset segs = Some segs"
  by (subst segment_loop.simps) simp

lemma segment_loop_bytes:
  assumes mx: "0 < mx" and "i \<le> seg_count payload mx"
  shows "segment_loop (header_bytes h) payload mx (min (length payload) (i * mx)) segs =
     Some (segs @ map (segment_bytes h payload mx) [i ..< seg_count payload mx])"
  using assms(2)
proof (induction "seg_count payload mx - i" arbitrary: i segs)
  case 0
  then have "\<not> i < seg_count payload mx" by simp
  then have "length payload \<le> i * mx" using mx by (simp add: less_seg_count_iff)
  with 0 show ?case by (simp add: segment_loop_done)
next
  case (Suc d)
  then have i: "i < seg_count payload mx" by simp
  then have "min (length payload) (i * mx) = i * mx" using mx by (simp add: less_seg_count_iff)
  with Suc i show ?case
    by (simp add: segment_loop_step [OF mx i] upt_conv_Cons [OF i] del: mult_Suc)
qed

lemma segment_message_bytes:
  "0 < mx \<Longrightarrow> segment_message (header_bytes h) payload mx =
     Some (map (segment_bytes h payload mx) [0 ..< seg_count payload mx])"
  using segment_loop_bytes [of mx 0 payload h "[]"] by (simp add: segment_message_def)

lemma seg_chunks_concat:
  assumes "0 < mx"
  shows "concat (map (seg_chunk payload mx) [0 ..< seg_count payload mx]) = payload"
proof -
  have "concat (map (seg_chunk payload mx) [0 ..< k]) = take (k * mx) payload" for k
    by (induction k) (simp_all add: seg_chunk_def add.commute flip: take_add)
  moreover have "length payload \<le> seg_count payload mx * mx"
    using assms less_seg_count_iff [of mx "seg_count payload mx" payload] by simp
  ultimately show ?thesis by simp
qed

section \<open>Feeding segments\<close>

text \<open>The state of a stream that has received the segments with indices in \<open>S\<close>.\<close>

definition seg_off :: "nat \<Rightarrow> nat \<Rightarrow> u32" where
  "seg_off mx i = of_nat (i * mx)"

definition seg_state :: "byte list \<Rightarrow> nat \<Rightarrow> nat set \<Rightarrow> stream_state" where
  "seg_state payload mx S = \<lparr>
     fragments = map (\<lambda>i. (seg_off mx i, seg_chunk payload mx i)) (sorted_list_of_set S),
     final_offset = (if seg_count payload mx - 1 \<in> S then of_nat (length payload) else 0)\<rparr>"

definition hdr_key :: "header_fields \<Rightarrow> tp_stream_key" where
  "hdr_key h = Tp_stream_key (id_value (f_service h)) (id_value (f_method h))
     (id_value (f_client h)) (id_value (f_session h))"

lemma seg_state_empty: "seg_state payload mx {} = stream_init"
  by (simp add: seg_state_def stream_init_def)

lemma unat_seg_off: "i * mx < 2 ^ 28 \<Longrightarrow> unat (seg_off mx i) = i * mx"
  unfolding seg_off_def by (subst unat_of_nat) simp

lemma seg_off_less: "i * mx < 2 ^ 28 \<Longrightarrow> j * mx < 2 ^ 28 \<Longrightarrow> seg_off mx i < seg_off mx j \<longleftrightarrow> i * mx < j * mx"
  by (simp add: word_less_nat_alt unat_seg_off)

lemma seg_state_put:
  assumes mx: "0 < mx" and n: "length payload < 2 ^ 28" and S: "insert i S \<subseteq> {..<seg_count payload mx}"
  shows "omap_put (seg_off mx i) (seg_chunk payload mx i) (fragments (seg_state payload mx S)) =
    fragments (seg_state payload mx (insert i S))"
proof -
  have "finite S" using S by (auto intro: finite_subset)
  moreover have "seg_off mx a < seg_off mx b" if "a \<in> insert i S" "b \<in> insert i S" "a < b" for a b
  proof -
    have "a * mx < length payload" "b * mx < length payload"
      using that(1,2) S mx by (auto simp: less_seg_count_iff)
    with that(3) n mx show ?thesis by (simp add: seg_off_less)
  qed
  ultimately show ?thesis
    unfolding seg_state_def stream_state.simps by (intro omap_put_sorted_set)
qed

section \<open>The assembly loop\<close>

definition partial_result :: "byte list \<Rightarrow> nat \<Rightarrow> byte list" where
  "partial_result payload m = take m payload @ replicate (length payload - m) 0"

lemma store_partial_result:
  assumes lt: "j * mx < length payload"
  shows "store (partial_result payload (j * mx)) (j * mx) (seg_chunk payload mx j) =
     Some (partial_result payload (Suc j * mx))"
proof -
  let ?p = "j * mx" and ?c = "seg_chunk payload mx j" and ?n = "length payload"
  have t: "take ?p payload @ ?c = take (Suc j * mx) payload"
    by (simp add: seg_chunk_def add.commute flip: take_add)
  have d: "?n - (?p + length ?c) = ?n - Suc j * mx" and le: "?p + length ?c \<le> ?n"
    using lt by (auto simp: seg_chunk_def)
  have "overwrite (partial_result payload ?p) ?p ?c =
      (take ?p payload @ ?c) @ replicate (?n - (?p + length ?c)) 0"
    using lt by (simp add: overwrite_def partial_result_def)
  then show ?thesis
    using le lt unfolding t d by (subst store_overwrite) (simp_all add: partial_result_def)
qed

lemma of_nat_seg_next:
  assumes "i * mx < length payload"
  shows "seg_off mx i + of_nat (length (seg_chunk payload mx i)) =
     of_nat (min (length payload) (Suc i * mx))"
proof -
  have "min (length payload) (Suc i * mx) = i * mx + length (seg_chunk payload mx i)"
    using assms by (auto simp: seg_chunk_def)
  then show ?thesis by (simp add: seg_off_def)
qed

abbreviation seg_entry :: "byte list \<Rightarrow> nat \<Rightarrow> nat \<Rightarrow> u32 \<times> byte list" where
  "seg_entry payload mx i \<equiv> (seg_off mx i, seg_chunk payload mx i)"

lemma assemble_step:
  assumes "0 < mx" "length payload < 2 ^ 28" "j < seg_count payload mx"
  shows "assemble (seg_entry payload mx j # frags)
      (of_nat (min (length payload) (j * mx))) (partial_result payload (j * mx)) =
    assemble frags (of_nat (min (length payload) (Suc j * mx)))
      (partial_result payload (Suc j * mx))"
proof -
  have lt: "j * mx < length payload" using assms by (simp add: less_seg_count_iff)
  then have "of_nat (min (length payload) (j * mx)) = seg_off mx j"
    by (simp add: seg_off_def)
  with lt assms show ?thesis
    by (simp add: unat_seg_off store_partial_result of_nat_seg_next del: mult_Suc)
qed

lemma assemble_complete:
  assumes "0 < mx" "length payload < 2 ^ 28" "j \<le> seg_count payload mx"
  shows "assemble (map (seg_entry payload mx) [j ..< seg_count payload mx])
      (of_nat (min (length payload) (j * mx))) (partial_result payload (j * mx)) =
    Some (Inr (of_nat (length payload), payload))"
  using assms(3)
proof (induction "seg_count payload mx - j" arbitrary: j)
  case 0
  then have "length payload \<le> j * mx" using assms by (simp flip: not_less add: less_seg_count_iff)
  with 0 show ?case by (simp add: partial_result_def)
next
  case (Suc d)
  then have j: "j < seg_count payload mx" by simp
  from Suc show ?case
    by (simp only: upt_conv_Cons [OF j] list.map assemble_step [OF assms(1,2) j])
qed

lemma assemble_gap:
  assumes "0 < mx" "length payload < 2 ^ 28" "sorted_wrt (<) js"
    and "\<And>i. i \<in> set js \<Longrightarrow> j \<le> i \<and> i < seg_count payload mx"
    and "js \<noteq> [j ..< j + length js]"
  shows "assemble (map (seg_entry payload mx) js)
      (of_nat (min (length payload) (j * mx))) (partial_result payload (j * mx)) =
    Some (Inl Invalid_length)"
  using assms(3-5)
proof (induction js arbitrary: j)
  case Nil
  then show ?case by simp
next
  case (Cons i js)
  then have i: "j \<le> i" "i < seg_count payload mx" by auto
  show ?case
  proof (cases "i = j")
    case True
    have "js \<noteq> [Suc j ..< Suc j + length js]"
      using Cons.prems(3) True upt_conv_Cons [of j "j + length (i # js)"] by auto
    moreover have "Suc j \<le> x \<and> x < seg_count payload mx" if "x \<in> set js" for x
      using Cons.prems(1,2) that True by fastforce
    ultimately have "assemble (map (seg_entry payload mx) js)
      (of_nat (min (length payload) (Suc j * mx))) (partial_result payload (Suc j * mx)) =
      Some (Inl Invalid_length)"
      using Cons.prems(1) by (intro Cons.IH) auto
    then show ?thesis
      using i True by (simp only: list.map assemble_step [OF assms(1,2)])
  next
    case False
    have b: "i * mx < length payload" "j * mx < i * mx"
      using i False assms(1) by (auto simp: less_seg_count_iff)
    from b(2,1) have "j * mx < length payload" by (rule less_trans)
    with b have "seg_off mx j < seg_off mx i"
      using assms(2) by (subst seg_off_less) auto
    moreover have "of_nat (min (length payload) (j * mx)) = seg_off mx j"
      unfolding seg_off_def using \<open>j * mx < length payload\<close> by (subst min_absorb2) auto
    ultimately have "seg_off mx i \<noteq> of_nat (min (length payload) (j * mx))" by simp
    then show ?thesis by simp
  qed
qed

section \<open>One received segment\<close>

lemma sorted_list_of_set_lessThan [simp]: "sorted_list_of_set {..<k} = [0 ..< k]"
  by (simp flip: atLeast0LessThan)

lemma partial_result_0: "partial_result payload 0 = replicate (length payload) 0"
  by (simp add: partial_result_def)

lemma assemble_seg_state:
  assumes mx: "0 < mx" and n: "length payload < 2 ^ 28" and S: "S \<subseteq> {..<seg_count payload mx}"
    and fin: "seg_count payload mx - 1 \<in> S"
  shows "assemble (fragments (seg_state payload mx S)) 0 (replicate (length payload) 0) =
     Some (if S = {..<seg_count payload mx} then Inr (of_nat (length payload), payload)
           else Inl Invalid_length)"
proof (cases "S = {..<seg_count payload mx}")
  case True
  then show ?thesis
    using assemble_complete [OF mx n, of 0] by (simp add: seg_state_def partial_result_0)
next
  case False
  have "finite S" using S by (rule finite_subset) simp
  let ?js = "sorted_list_of_set S"
  have "?js \<noteq> [0 ..< 0 + length ?js]"
  proof
    assume eq: "?js = [0 ..< 0 + length ?js]"
    have "set ?js = {..<length ?js}" by (subst eq) (simp add: atLeast0LessThan)
    then have "S = {..<card S}" using \<open>finite S\<close> by simp
    then have "seg_count payload mx - 1 < card S" using fin by blast
    then have "{..<seg_count payload mx} \<subseteq> {..<card S}" by auto
    then have "{..<seg_count payload mx} \<subseteq> S" using \<open>S = {..<card S}\<close> by simp
    with S False show False by auto
  qed
  then have "assemble (map (seg_entry payload mx) ?js)
      (of_nat (min (length payload) (0 * mx))) (partial_result payload (0 * mx)) =
    Some (Inl Invalid_length)"
    using S \<open>finite S\<close> by (intro assemble_gap [OF mx n]) auto
  with False show ?thesis by (simp add: seg_state_def partial_result_0)
qed

lemma feed_key_segment: "feed_key (segment_bytes h payload mx i) = Some (hdr_key h)"
  by (simp add: feed_key_def segment_bytes_def hdr_getters hdr_key_def)

lemma seg_offset_28: "ucast (ucast (of_nat m :: u32) :: 28 word) = (of_nat m :: u32)" if "m < 2 ^ 28"
  using that by (simp add: word_unat_eq_iff unsigned_ucast_eq unsigned_take_bit_eq unat_of_nat
      take_bit_nat_eq_self)

lemma seg_last_end:
  assumes mx: "0 < mx" and i: "i < seg_count payload mx" and last: "\<not> Suc i < seg_count payload mx"
  shows "seg_off mx i + of_nat (length (seg_chunk payload mx i)) = of_nat (length payload)"
proof -
  have "i * mx < length payload" "length payload \<le> Suc i * mx"
    using mx i last by (simp_all add: less_seg_count_iff flip: not_less)
  then show ?thesis
    by (simp add: of_nat_seg_next min_absorb1 del: mult_Suc)
qed

lemma seg_state_insert:
  assumes mx: "0 < mx" and n: "length payload < 2 ^ 28" and S: "insert i S \<subseteq> {..<seg_count payload mx}"
  shows "(let st = seg_state payload mx S\<lparr>fragments :=
           omap_put (seg_off mx i) (seg_chunk payload mx i) (fragments (seg_state payload mx S))\<rparr>
         in if tph_more (seg_tph payload mx i) = 0
            then st\<lparr>final_offset := seg_off mx i + of_nat (length (seg_chunk payload mx i))\<rparr>
            else st) = seg_state payload mx (insert i S)"
proof (cases "Suc i < seg_count payload mx")
  case True
  then have "seg_count payload mx - 1 \<in> insert i S \<longleftrightarrow> seg_count payload mx - 1 \<in> S" by auto
  with True show ?thesis
    unfolding seg_state_put [OF mx n S] Let_def by (simp add: seg_tph_def seg_state_def)
next
  case False
  with S have i: "i < seg_count payload mx" "i = seg_count payload mx - 1" by auto
  then show ?thesis
    unfolding seg_state_put [OF mx n S] Let_def seg_last_end [OF mx i(1) False]
    by (simp add: seg_tph_def seg_state_def)
qed

definition stream_of :: "tp_assembler \<Rightarrow> tp_stream_key \<Rightarrow> stream_state" where
  "stream_of st key = (case map_of st key of Some s \<Rightarrow> s | None \<Rightarrow> stream_init)"

definition stream_update :: "stream_state \<Rightarrow> u32 \<Rightarrow> bool \<Rightarrow> byte list \<Rightarrow> stream_state" where
  "stream_update s off is_last pl =
     (let s' = s\<lparr>fragments := omap_put off pl (fragments s)\<rparr>
      in if is_last then s'\<lparr>final_offset := off + of_nat (length pl)\<rparr> else s')"

definition stream_finish :: "tp_assembler \<Rightarrow> tp_stream_key \<Rightarrow> stream_state \<Rightarrow>
    ((codec_error + byte list) \<times> tp_assembler) option" where
  "stream_finish st key s =
     (if final_offset s = 0 then Some (Inl Invalid_length, omap_put key s st)
      else case assemble (fragments s) 0 (replicate (unat (final_offset s)) 0) of
        None \<Rightarrow> None
      | Some (Inl e) \<Rightarrow> Some (Inl e, omap_put key s st)
      | Some (Inr (expected, result)) \<Rightarrow>
          if expected \<noteq> final_offset s then Some (Inl Invalid_length, omap_put key s st)
          else Some (Inr result, omap_del key (omap_put key s st)))"

text \<open>\<open>feed\<close> on a segment long enough for both headers: update the stream, then try to finish it.\<close>

lemma feed_eq:
  assumes "feed_key hdr = Some key" and "20 \<le> length seg" and "read_tp_header seg 16 = Some t"
  shows "feed st hdr seg = stream_finish st key
     (stream_update (stream_of st key) (ucast (tph_offset t)) (tph_more t = 0) (drop 20 seg))"
proof -
  let ?s = "stream_update (stream_of st key) (ucast (tph_offset t)) (tph_more t = 0) (drop 20 seg)"
  have "feed st hdr seg =
      (if final_offset ?s = 0 then Some (Inl Invalid_length, omap_put key ?s st)
       else do {
         res \<leftarrow> assemble (fragments ?s) 0 (replicate (unat (final_offset ?s)) 0);
         case res of
           Inl e \<Rightarrow> Some (Inl e, omap_put key ?s st)
         | Inr (expected, result) \<Rightarrow>
             if expected \<noteq> final_offset ?s then Some (Inl Invalid_length, omap_put key ?s st)
             else Some (Inr result, omap_del key (omap_put key ?s st))
       })"
    using assms unfolding feed_def stream_update_def stream_of_def Let_def
    by (simp only: wire_consts numeral_plus_numeral arith_simps not_less if_False subspan_from_def
        Option.bind.bind_lunit if_True not_le [symmetric] simp_thms)
  then show ?thesis
    by (auto simp: stream_finish_def split: option.splits sum.splits)
qed

lemma stream_update_segment:
  assumes mx: "0 < mx" and n: "length payload < 2 ^ 28" and S: "insert i S \<subseteq> {..<seg_count payload mx}"
  shows "stream_update (seg_state payload mx S) (seg_off mx i) (tph_more (seg_tph payload mx i) = 0)
     (seg_chunk payload mx i) = seg_state payload mx (insert i S)"
  using seg_state_insert [OF assms] by (simp add: stream_update_def)

lemma stream_finish_segment:
  fixes key :: tp_stream_key and st :: tp_assembler
  assumes mx: "0 < mx" and n: "length payload < 2 ^ 28" "payload \<noteq> []"
    and S: "S \<subseteq> {..<seg_count payload mx}" and "S \<noteq> {}"
  defines "st' \<equiv> omap_put key (seg_state payload mx S) st"
  shows "stream_finish st key (seg_state payload mx S) = Some
     (if S = {..<seg_count payload mx} then (Inr payload, omap_del key st')
      else (Inl Invalid_length, st'))"
proof -
  let ?k = "seg_count payload mx"
  have fin: "final_offset (seg_state payload mx T) =
      (if ?k - 1 \<in> T then of_nat (length payload) else 0)" for T
    by (simp add: seg_state_def)
  have nz: "unat (of_nat (length payload) :: u32) = length payload" "length payload \<noteq> 0"
    using n by (simp_all add: unat_of_nat)
  then have nz': "(of_nat (length payload) :: u32) \<noteq> 0" by (metis unat_0)
  show ?thesis
  proof (cases "?k - 1 \<in> S")
    case True
    then show ?thesis
      using assemble_seg_state [OF mx n(1) S] nz nz'
      by (cases "S = {..<?k}") (simp_all add: stream_finish_def fin st'_def)
  next
    case False
    moreover from this have "S \<noteq> {..<?k}" using S \<open>S \<noteq> {}\<close> by auto
    ultimately show ?thesis by (simp add: stream_finish_def fin st'_def)
  qed
qed

lemma feed_segment:
  assumes mx: "0 < mx" and n: "length payload < 2 ^ 28" "payload \<noteq> []"
    and S: "insert i S \<subseteq> {..<seg_count payload mx}"
    and st: "stream_of st (hdr_key h) = seg_state payload mx S"
  defines "seg \<equiv> segment_bytes h payload mx i"
  defines "st' \<equiv> omap_put (hdr_key h) (seg_state payload mx (insert i S)) st"
  shows "feed st seg seg = Some
     (if insert i S = {..<seg_count payload mx} then (Inr payload, omap_del (hdr_key h) st')
      else (Inl Invalid_length, st'))"
proof -
  have "i * mx < length payload" using S mx by (simp add: less_seg_count_iff)
  then have off: "ucast (tph_offset (seg_tph payload mx i)) = seg_off mx i"
    using n by (simp add: seg_tph_def seg_offset_28 seg_off_def del: of_nat_mult)
  have tph: "read_tp_header seg 16 = Some (seg_tph payload mx i)"
    unfolding seg_def segment_bytes_def by (simp add: read_tp_header_at) (simp add: seg_tph_def)
  have "drop 20 seg = seg_chunk payload mx i" and "20 \<le> length seg"
    by (simp_all add: seg_def segment_bytes_def)
  with S tph show ?thesis
    using feed_eq [OF feed_key_segment [of h payload mx i, folded seg_def] _ tph, of st]
      stream_finish_segment [OF mx n S, where key = "hdr_key h" and st = st]
    by (simp add: off st stream_update_segment [OF mx n(1) S] st'_def)
qed

section \<open>Whole messages\<close>

text \<open>A receiver: every segment of a sequence is fed, with its own header.\<close>

fun feed_all :: "tp_assembler \<Rightarrow> byte list list \<Rightarrow>
    ((codec_error + byte list) list \<times> tp_assembler) option" where
  "feed_all st [] = Some ([], st)"
| "feed_all st (seg # segs) = do {
     (r, st') \<leftarrow> feed st seg seg;
     (rs, st'') \<leftarrow> feed_all st' segs;
     Some (r # rs, st'')
   }"

lemma stream_of_put: "omap_inv st \<Longrightarrow> stream_of (omap_put key s st) key = s"
  by (simp add: stream_of_def map_of_omap_put)

lemma feed_all_segments:
  assumes mx: "0 < mx" and n: "length payload < 2 ^ 28" "payload \<noteq> []"
    and "omap_inv st" and "js \<noteq> []"
    and "stream_of st (hdr_key h) = seg_state payload mx S"
    and "S \<union> set js = {..<seg_count payload mx}"
    and "S \<union> set (butlast js) \<noteq> {..<seg_count payload mx}"
  shows "feed_all st (map (segment_bytes h payload mx) js) =
     Some (replicate (length js - 1) (Inl Invalid_length) @ [Inr payload], omap_del (hdr_key h) st)"
  using assms(4-8)
proof (induction js arbitrary: st S)
  case Nil
  then show ?case by simp
next
  case (Cons i js)
  let ?T = "insert i S"
  let ?st' = "omap_put (hdr_key h) (seg_state payload mx ?T) st"
  have T: "?T \<subseteq> {..<seg_count payload mx}" using Cons.prems(4) by auto
  note step = feed_segment [OF mx n T Cons.prems(3)]
  show ?case
  proof (cases "js = []")
    case True
    with Cons.prems(1,4) step show ?thesis by (simp add: omap_del_put)
  next
    case False
    have "?T \<noteq> {..<seg_count payload mx}"
    proof
      assume eq: "?T = {..<seg_count payload mx}"
      have "set (butlast js) \<subseteq> set (i # js)" by (auto dest: in_set_butlastD)
      also have "set (i # js) \<subseteq> {..<seg_count payload mx}" using Cons.prems(4) by blast
      finally have "?T \<union> set (butlast js) = {..<seg_count payload mx}"
        unfolding eq by (rule Un_absorb2)
      with Cons.prems(5) False show False by simp
    qed
    moreover have "feed_all ?st' (map (segment_bytes h payload mx) js) =
        Some (replicate (length js - 1) (Inl Invalid_length) @ [Inr payload],
          omap_del (hdr_key h) ?st')"
    proof (rule Cons.IH)
      show "omap_inv ?st'" using Cons.prems(1) by simp
      show "stream_of ?st' (hdr_key h) = seg_state payload mx ?T"
        using Cons.prems(1) by (rule stream_of_put)
      show "?T \<union> set js = {..<seg_count payload mx}" using Cons.prems(4) by simp
      show "?T \<union> set (butlast js) \<noteq> {..<seg_count payload mx}"
        using Cons.prems(5) False by simp
    qed (fact False)
    ultimately have "feed_all st (map (segment_bytes h payload mx) (i # js)) =
        Some (Inl Invalid_length # replicate (length js - 1) (Inl Invalid_length) @ [Inr payload],
          omap_del (hdr_key h) ?st')"
      using step by simp
    moreover have "Inl Invalid_length # replicate (length js - 1) (Inl Invalid_length) @ [Inr payload] =
        replicate (length (i # js) - 1) (Inl Invalid_length) @ [Inr payload]"
      using False by (cases js) simp_all
    ultimately show ?thesis
      by (simp only: omap_del_put [OF Cons.prems(1)])
  qed
qed

lemma feed_key_header: "feed_key (header_bytes h @ r) = Some (hdr_key h)"
  by (simp add: feed_key_def hdr_getters hdr_key_def)

lemma header_16_cases:
  assumes "length hdr = header_size"
  obtains h where "hdr = header_bytes h"
proof -
  from assms have "16 \<le> length hdr" by (simp add: wire_consts)
  then obtain h r where "hdr = header_bytes h @ r" by (rule header_cases)
  with assms that show ?thesis by (simp add: wire_consts)
qed

lemma assemble_safe:
  "(\<And>off frag. (off, frag) \<in> set frags \<Longrightarrow> unat off + length frag \<le> length result) \<Longrightarrow>
   assemble frags expected result \<noteq> None"
proof (induction frags expected result rule: assemble.induct)
  case (2 off frag frags expected result)
  have "unat off + length frag \<le> length result" using "2.prems" by simp
  then have "store result (unat off) frag = Some (overwrite result (unat off) frag)"
    and "length (overwrite result (unat off) frag) = length result"
    by (simp_all add: store_overwrite)
  with "2.IH" "2.prems" show ?case by auto
qed simp

lemma segment_loop_diverges:
  assumes "segment_loop hdr payload mx offset segs = Some r"
  shows "0 < mx \<or> length payload \<le> offset"
proof (rule segment_loop.raw_induct [where P = "\<lambda>hdr payload mx offset segs r.
    0 < mx \<or> length payload \<le> offset", OF _ assms])
  fix f hdr payload mx offset segs r
  assume IH: "\<And>hdr payload mx offset segs r. f hdr payload mx offset segs = Some r \<Longrightarrow>
      0 < mx \<or> length payload \<le> offset"
    and eq: "(if offset < length payload then
        (let remaining = length payload - offset;
             chunk = (if remaining > mx then mx else remaining);
             more_segs = offset + chunk < length payload
         in do {
              seg \<leftarrow> make_segment hdr payload offset chunk more_segs;
              f hdr payload mx (offset + chunk) (segs @ [seg])
            })
      else Some segs) = Some r"
  show "0 < mx \<or> length payload \<le> offset"
  proof (rule ccontr)
    assume "\<not> (0 < mx \<or> length payload \<le> offset)"
    then have mx: "mx = 0" and lt: "offset < length payload" by auto
    from eq obtain seg where "f hdr payload 0 offset (segs @ [seg]) = Some r"
      unfolding mx using lt by (auto simp: Let_def bind_eq_Some_conv)
    then have "0 < (0::nat) \<or> length payload \<le> offset" by (rule IH)
    with lt show False by simp
  qed
qed

lemma segment_bytes_facts:
  "length (segment_bytes h payload mx i) = 20 + length (seg_chunk payload mx i)"
  "drop 20 (segment_bytes h payload mx i) = seg_chunk payload mx i"
  "hdr_service (segment_bytes h payload mx i) = Some (f_service h)"
  "hdr_method (segment_bytes h payload mx i) = Some (f_method h)"
  "hdr_client (segment_bytes h payload mx i) = Some (f_client h)"
  "hdr_session (segment_bytes h payload mx i) = Some (f_session h)"
  "hdr_msg_type (segment_bytes h payload mx i) = Some (with_tp (f_type h))"
  "hdr_length (segment_bytes h payload mx i) = Some (of_nat (12 + length (seg_chunk payload mx i)))"
  "read_tp_header (segment_bytes h payload mx i) 16 = Some (seg_tph payload mx i)"
  by (simp_all add: segment_bytes_def hdr_getters read_tp_header_at) (simp add: seg_tph_def)

lemma length_seg_chunk: "length (seg_chunk payload mx i) \<le> mx"
  by (simp add: seg_chunk_def)

section \<open>Segments of peers that agree on the length of a message\<close>

text \<open>What a receiver reads of a segment: its stream, its offset, whether it is the last one, its data.\<close>

definition tp_view :: "byte list \<Rightarrow> (tp_stream_key \<times> nat \<times> bool \<times> byte list) option" where
  "tp_view seg = (if length seg < 20 then None else do {
     key \<leftarrow> feed_key seg;
     t \<leftarrow> read_tp_header seg 16;
     Some (key, unat (tph_offset t), tph_more t = 0, drop 20 seg)
   })"

text \<open>A message of a stream that agrees with the length \<open>L\<close> assigns to the stream.\<close>

definition seg_within :: "(tp_stream_key \<Rightarrow> nat) \<Rightarrow> byte list \<Rightarrow> bool" where
  "seg_within L seg = (case tp_view seg of None \<Rightarrow> True
     | Some (key, off, is_last, data) \<Rightarrow>
         off + length data \<le> L key \<and> (is_last \<longrightarrow> off + length data = L key))"

text \<open>Byte \<open>j\<close> of the message of \<open>key\<close> was received in one of the segments.\<close>

definition received_byte :: "byte list list \<Rightarrow> tp_stream_key \<Rightarrow> nat \<Rightarrow> byte \<Rightarrow> bool" where
  "received_byte segs key j b = (\<exists>seg \<in> set segs. \<exists>off is_last data. tp_view seg = Some (key, off, is_last, data) \<and>
     off \<le> j \<and> j < off + length data \<and> b = data ! (j - off))"

lemma received_byte_mono: "received_byte segs key j b \<Longrightarrow> set segs \<subseteq> set segs' \<Longrightarrow> received_byte segs' key j b"
  unfolding received_byte_def by blast

definition fragment_ok :: "(tp_stream_key \<Rightarrow> nat) \<Rightarrow> byte list list \<Rightarrow> tp_stream_key \<Rightarrow> u32 \<times> byte list \<Rightarrow> bool" where
  "fragment_ok L segs key f = (unat (fst f) + length (snd f) \<le> L key \<and>
     (\<exists>seg \<in> set segs. \<exists>is_last. tp_view seg = Some (key, unat (fst f), is_last, snd f)))"

definition stream_ok :: "(tp_stream_key \<Rightarrow> nat) \<Rightarrow> byte list list \<Rightarrow> tp_stream_key \<Rightarrow> stream_state \<Rightarrow> bool" where
  "stream_ok L segs key s = ((\<forall>f \<in> set (fragments s). fragment_ok L segs key f) \<and>
     (final_offset s = 0 \<or> unat (final_offset s) = L key))"

definition streams_ok :: "(tp_stream_key \<Rightarrow> nat) \<Rightarrow> byte list list \<Rightarrow> tp_assembler \<Rightarrow> bool" where
  "streams_ok L segs st = (omap_inv st \<and> (\<forall>key s. map_of st key = Some s \<longrightarrow> stream_ok L segs key s))"

lemma set_omap_put_subset: "set (omap_put k v m) \<subseteq> insert (k, v) (set m)"
  by (induction k v m rule: omap_put.induct) auto

lemma stream_ok_mono: "stream_ok L segs key s \<Longrightarrow> set segs \<subseteq> set segs' \<Longrightarrow> stream_ok L segs' key s"
  unfolding stream_ok_def fragment_ok_def by blast

lemma stream_ok_of: "streams_ok L segs st \<Longrightarrow> stream_ok L segs key (stream_of st key)"
  by (auto simp: streams_ok_def stream_of_def stream_ok_def stream_init_def split: option.splits)

lemma streams_ok_put:
  "streams_ok L segs st \<Longrightarrow> stream_ok L segs key s \<Longrightarrow> streams_ok L segs (omap_put key s st)"
  by (auto simp: streams_ok_def map_of_omap_put)

lemma streams_ok_del: "streams_ok L segs st \<Longrightarrow> streams_ok L segs (omap_del key st)"
  by (auto simp: streams_ok_def omap.get_del split: if_splits)

lemma stream_ok_update:
  assumes "stream_ok L segs key s" and "tp_view seg = Some (key, unat off, is_last, data)" and "seg \<in> set segs"
    and "seg_within L seg" and "L key < 2 ^ 32"
  shows "stream_ok L segs key (stream_update s off is_last data)"
proof -
  have frag: "fragment_ok L segs key (off, data)"
    using assms(2-4) by (auto simp: fragment_ok_def seg_within_def)
  have "unat (off + of_nat (length data)) = L key" if is_last
  proof -
    have "unat off + length data = L key" using assms(2,4) that by (simp add: seg_within_def)
    then show ?thesis using assms(5) by (simp add: unat_word_ariths unat_of_nat)
  qed
  then show ?thesis
    using assms(1) frag set_omap_put_subset [of off data "fragments s"]
    by (auto simp: stream_ok_def stream_update_def Let_def)
qed

text \<open>The loop of \<open>feed\<close> fills the result without a hole up to the offset it expects last.\<close>

lemma assemble_covers:
  assumes "assemble frags expected result = Some (Inr (e, r))" and "length result < 2 ^ 32"
    and "\<And>f. f \<in> set frags \<Longrightarrow> unat (fst f) + length (snd f) \<le> length result"
  shows "length r = length result \<and> (\<forall>j < length r.
      (\<exists>f \<in> set frags. unat (fst f) \<le> j \<and> j < unat (fst f) + length (snd f) \<and> r ! j = snd f ! (j - unat (fst f))) \<or>
      r ! j = result ! j \<and> \<not> (unat expected \<le> j \<and> j < unat e))"
  using assms
proof (induction frags expected result rule: assemble.induct)
  case (2 off frag frags expected result)
  have fits: "unat off + length frag \<le> length result" using "2.prems"(3) by force
  let ?res = "overwrite result (unat off) frag"
  have next_off: "unat (off + of_nat (length frag)) = unat off + length frag"
    using fits "2.prems"(2) by (simp add: unat_word_ariths unat_of_nat)
  have st: "store result (unat off) frag = Some ?res" "length ?res = length result"
    using fits by (simp_all add: store_overwrite)
  have off: "off = expected" and run: "assemble frags (off + of_nat (length frag)) ?res = Some (Inr (e, r))"
    using "2.prems"(1) st(1) by (simp_all split: if_splits)
  have IH: "length r = length ?res \<and> (\<forall>j < length r.
      (\<exists>f \<in> set frags. unat (fst f) \<le> j \<and> j < unat (fst f) + length (snd f) \<and> r ! j = snd f ! (j - unat (fst f))) \<or>
      r ! j = ?res ! j \<and> \<not> (unat off + length frag \<le> j \<and> j < unat e))"
    using "2.IH" [OF _ st(1) run] off st(2) "2.prems"(2,3) next_off by simp
  show ?case
  proof (intro conjI allI impI)
    show "length r = length result" using IH st(2) by simp
    fix j assume j: "j < length r"
    show "(\<exists>f \<in> set ((off, frag) # frags). unat (fst f) \<le> j \<and> j < unat (fst f) + length (snd f) \<and>
        r ! j = snd f ! (j - unat (fst f))) \<or> r ! j = result ! j \<and> \<not> (unat expected \<le> j \<and> j < unat e)"
    proof (cases "r ! j = ?res ! j \<and> \<not> (unat off + length frag \<le> j \<and> j < unat e)")
      case True
      have "?res ! j = (if unat off \<le> j \<and> j < unat off + length frag then frag ! (j - unat off) else result ! j)"
        using fits j IH st(2) by (auto simp: overwrite_def nth_append)
      with True show ?thesis using off by (auto simp: not_less)
    next
      case False
      with IH j show ?thesis by auto
    qed
  qed
qed simp

lemma stream_finish_ok:
  assumes "streams_ok L segs st" and "stream_ok L segs key s" and "L key < 2 ^ 32"
  shows "\<exists>r st'. stream_finish st key s = Some (r, st') \<and> streams_ok L segs st' \<and>
    (\<forall>p. r = Inr p \<longrightarrow> length p = L key \<and> (\<forall>j < length p. received_byte segs key j (p ! j)))"
proof (cases "final_offset s = 0")
  case True
  with assms show ?thesis by (simp add: stream_finish_def streams_ok_put)
next
  case False
  let ?buf = "replicate (unat (final_offset s)) (0 :: byte)"
  have len: "unat (final_offset s) = L key"
    and frags: "\<And>f. f \<in> set (fragments s) \<Longrightarrow> fragment_ok L segs key f"
    using assms(2) False by (auto simp: stream_ok_def)
  have within: "unat (fst f) + length (snd f) \<le> length ?buf" if "f \<in> set (fragments s)" for f
    using frags [OF that] len by (simp add: fragment_ok_def)
  have "assemble (fragments s) 0 ?buf \<noteq> None"
    using within by (intro assemble_safe) force
  then obtain res where res: "assemble (fragments s) 0 ?buf = Some res" by blast
  note put = streams_ok_put [OF assms(1,2)]
  show ?thesis
  proof (cases res)
    case (Inl err)
    with res False put show ?thesis by (simp add: stream_finish_def)
  next
    case (Inr er)
    obtain e r where er: "er = (e, r)" by force
    have covers: "length r = L key" "\<And>j. j < length r \<Longrightarrow>
        (\<exists>f \<in> set (fragments s). unat (fst f) \<le> j \<and> j < unat (fst f) + length (snd f) \<and> r ! j = snd f ! (j - unat (fst f))) \<or>
        \<not> j < unat e"
      using assemble_covers [OF res [unfolded Inr er]] within assms(3) len by auto
    have bytes: "received_byte segs key j (r ! j)" if e: "e = final_offset s" and j: "j < length r" for j
    proof -
      obtain f where f: "f \<in> set (fragments s)" "unat (fst f) \<le> j" "j < unat (fst f) + length (snd f)"
          "r ! j = snd f ! (j - unat (fst f))"
        using covers(2) [OF j] j e covers(1) len by auto
      with frags [OF f(1)] show ?thesis unfolding received_byte_def fragment_ok_def by blast
    qed
    with res False put covers(1) show ?thesis
      by (auto simp: stream_finish_def Inr er streams_ok_del)
  qed
qed

lemma feed_ok:
  assumes "streams_ok L segs st" and "16 \<le> length seg" and "seg_within L seg" and "\<forall>key. L key < 2 ^ 32"
  shows "\<exists>r st'. feed st seg seg = Some (r, st') \<and> streams_ok L (segs @ [seg]) st' \<and>
    (\<forall>p. r = Inr p \<longrightarrow> (\<exists>key. feed_key seg = Some key \<and> length p = L key \<and>
      (\<forall>j < length p. received_byte (segs @ [seg]) key j (p ! j))))"
proof -
  have st: "streams_ok L (segs @ [seg]) st"
    using assms(1) stream_ok_mono [of L segs _ _ "segs @ [seg]"] by (auto simp: streams_ok_def)
  obtain h rest where "seg = header_bytes h @ rest" using assms(2) by (rule header_cases)
  then have key: "feed_key seg = Some (hdr_key h)" by (simp add: feed_key_header)
  show ?thesis
  proof (cases "length seg < 20")
    case True
    with key st show ?thesis by (simp add: feed_def wire_consts)
  next
    case False
    then obtain t where t: "read_tp_header seg 16 = Some t"
      by (simp add: read_tp_header_def read_u32_be_nth)
    let ?off = "ucast (tph_offset t) :: u32"
    have "unat (tph_offset t) < 2 ^ 32" using unsigned_less [of "tph_offset t", where 'a = nat] by simp
    then have "unat ?off = unat (tph_offset t)"
      by (simp add: unsigned_ucast_eq unsigned_take_bit_eq take_bit_nat_eq_self)
    then have "tp_view seg = Some (hdr_key h, unat ?off, tph_more t = 0, drop 20 seg)"
      using False key t by (simp add: tp_view_def)
    then have "stream_ok L (segs @ [seg]) (hdr_key h)
        (stream_update (stream_of st (hdr_key h)) ?off (tph_more t = 0) (drop 20 seg))"
      using stream_ok_of [OF st] assms(3,4) by (intro stream_ok_update) auto
    from stream_finish_ok [OF st this] assms(4) show ?thesis
      using feed_eq [OF key _ t, of st] False key by auto
  qed
qed

lemma feed_all_ok:
  assumes "streams_ok L pre st" and "\<And>seg. seg \<in> set segs \<Longrightarrow> 16 \<le> length seg \<and> seg_within L seg" and "\<forall>key. L key < 2 ^ 32"
  shows "\<exists>rs st'. feed_all st segs = Some (rs, st') \<and> length rs = length segs \<and>
    (\<forall>i p. i < length segs \<and> rs ! i = Inr p \<longrightarrow> (\<exists>key. feed_key (segs ! i) = Some key \<and> length p = L key \<and>
      (\<forall>j < length p. received_byte (pre @ take (Suc i) segs) key j (p ! j))))"
  using assms(1,2)
proof (induction segs arbitrary: pre st)
  case (Cons seg segs)
  obtain r st1 where one: "feed st seg seg = Some (r, st1)" "streams_ok L (pre @ [seg]) st1"
      "\<And>p. r = Inr p \<Longrightarrow> \<exists>key. feed_key seg = Some key \<and> length p = L key \<and>
        (\<forall>j < length p. received_byte (pre @ [seg]) key j (p ! j))"
    using feed_ok [OF Cons.prems(1) _ _ assms(3), of seg] Cons.prems(2) by auto
  obtain rs st' where rest: "feed_all st1 segs = Some (rs, st')" "length rs = length segs"
      "\<And>i p. i < length segs \<Longrightarrow> rs ! i = Inr p \<Longrightarrow> \<exists>key. feed_key (segs ! i) = Some key \<and> length p = L key \<and>
        (\<forall>j < length p. received_byte ((pre @ [seg]) @ take (Suc i) segs) key j (p ! j))"
    using Cons.IH [OF one(2)] Cons.prems(2) by auto
  have "\<exists>key. feed_key ((seg # segs) ! i) = Some key \<and> length p = L key \<and>
      (\<forall>j < length p. received_byte (pre @ take (Suc i) (seg # segs)) key j (p ! j))"
    if "i < length (seg # segs)" "(r # rs) ! i = Inr p" for i p
    using that one(3) rest(3) by (cases i) auto
  with one(1) rest(1,2) show ?case by auto
qed simp

section \<open>Properties\<close>

lemma length_16_zeros: "length (replicate 16 (0::byte)) = header_size"
  by (simp add: wire_consts)

text \<open>
  C1. Reassembly. Cut any payload shorter than 2^28 bytes with any positive segment size, and
  feed the segments to the assembler in any order, with any duplicates: every call before the
  one that brings the last missing segment answers \<open>invalid_length\<close>, that call returns exactly
  the payload, and the assembler is left as it was before the first segment.
\<close>

theorem tp_reassembly:
  assumes "length hdr = header_size" and "0 < mx"
    and "payload \<noteq> []" and "length payload < 2 ^ 28"
    and "set js = {..<seg_count payload mx}" and "set (butlast js) \<noteq> {..<seg_count payload mx}"
    and "omap_inv st" and "feed_key hdr = Some key" and "map_of st key = None"
  shows "\<exists>segs. segment_message hdr payload mx = Some segs \<and> length segs = seg_count payload mx \<and>
     feed_all st (map (\<lambda>i. segs ! i) js) =
       Some (replicate (length js - 1) (Inl Invalid_length) @ [Inr payload], st)"
proof -
  obtain h where h: "hdr = header_bytes h" using assms(1) by (rule header_16_cases)
  then have key: "key = hdr_key h"
    using assms(8) feed_key_header [of h "[]"] by simp
  let ?segs = "map (segment_bytes h payload mx) [0 ..< seg_count payload mx]"
  have "js \<noteq> []" using assms(5,6) by (metis butlast.simps(1))
  then have "feed_all st (map (segment_bytes h payload mx) js) =
      Some (replicate (length js - 1) (Inl Invalid_length) @ [Inr payload], st)"
    using feed_all_segments [OF assms(2,4,3,7), of js h "{}"] assms(5,6,7,9)
    by (simp add: seg_state_empty stream_of_def key omap_del_absent)
  moreover have "map (\<lambda>i. ?segs ! i) js = map (segment_bytes h payload mx) js"
    using assms(5) by (intro map_cong) auto
  moreover have "segment_message hdr payload mx = Some ?segs" "length ?segs = seg_count payload mx"
    unfolding h by (simp_all add: segment_message_bytes [OF assms(2)])
  ultimately show ?thesis by metis
qed

theorem tp_reassembly_witness:
  "\<exists>segs. segment_message (replicate 16 0) [1, 2, 3, 4, 5] 2 = Some segs \<and>
     length segs = seg_count [1, 2, 3, 4, 5] 2 \<and>
     feed_all [] (map (\<lambda>i. segs ! i) [2, 0, 2, 1]) =
       Some (replicate (length [2, 0, 2, 1 :: nat] - 1) (Inl Invalid_length) @ [Inr [1, 2, 3, 4, 5]], [])"
proof (rule tp_reassembly [OF length_16_zeros, where key = "Tp_stream_key 0 0 0 0"])
  show "set [2, 0, 2, 1] = {..<seg_count [1, 2, 3, 4, 5] 2}"
    by (auto simp: seg_count_def)
  show "set (butlast [2, 0, 2, 1]) \<noteq> {..<seg_count [1, 2, 3, 4, 5] 2}"
    by (auto simp: seg_count_def set_eq_iff intro!: exI [of _ 1])
  show "feed_key (replicate 16 0) = Some (Tp_stream_key 0 0 0 0)"
    by (simp add: feed_key_def hdr_service_def hdr_method_def hdr_client_def hdr_session_def
        wire_consts read_u16_be_nth u16_of_def)
qed simp_all

text \<open>
  Segments on the wire. Segmentation returns for every positive segment size; each segment
  is a well-formed TP message (its header is the original one with the TP flag set and the
  length of this segment, its TP header carries the byte offset and is flagged as the last one
  exactly at the end), no segment carries more than the maximum, and the concatenated payload
  parts are the payload.
\<close>

theorem tp_segments:
  assumes "length hdr = header_size" and "0 < mx"
  shows "\<exists>segs. segment_message hdr payload mx = Some segs \<and>
     length segs = (length payload + mx - 1) div mx \<and>
     concat (map (drop 20) segs) = payload \<and>
     (\<forall>i < length segs.
        length (segs ! i) \<le> 20 + mx \<and>
        hdr_service (segs ! i) = hdr_service hdr \<and> hdr_method (segs ! i) = hdr_method hdr \<and>
        hdr_client (segs ! i) = hdr_client hdr \<and> hdr_session (segs ! i) = hdr_session hdr \<and>
        hdr_msg_type (segs ! i) = map_option with_tp (hdr_msg_type hdr) \<and>
        hdr_length (segs ! i) = Some (of_nat (length (segs ! i) - 8)) \<and>
        read_tp_header (segs ! i) 16 = Some \<lparr>tph_offset = ucast (of_nat (i * mx) :: u32),
          tph_reserved = 0, tph_more = (if Suc i < length segs then 1 else 0)\<rparr>)"
proof -
  obtain h where h: "hdr = header_bytes h" using assms(1) by (rule header_16_cases)
  define segs where "segs = map (segment_bytes h payload mx) [0 ..< seg_count payload mx]"
  have nth: "segs ! i = segment_bytes h payload mx i" if "i < length segs" for i
    using that by (simp add: segs_def)
  have len: "length segs = seg_count payload mx" by (simp add: segs_def)
  have "concat (map (drop 20) segs) = concat (map (seg_chunk payload mx) [0 ..< seg_count payload mx])"
    by (simp add: segs_def segment_bytes_facts comp_def)
  then have "concat (map (drop 20) segs) = payload"
    by (simp only: seg_chunks_concat [OF assms(2)])
  moreover have "segment_message hdr payload mx = Some segs"
    unfolding h segs_def by (rule segment_message_bytes [OF assms(2)])
  moreover have "length (segs ! i) \<le> 20 + mx \<and>
        hdr_service (segs ! i) = hdr_service hdr \<and> hdr_method (segs ! i) = hdr_method hdr \<and>
        hdr_client (segs ! i) = hdr_client hdr \<and> hdr_session (segs ! i) = hdr_session hdr \<and>
        hdr_msg_type (segs ! i) = map_option with_tp (hdr_msg_type hdr) \<and>
        hdr_length (segs ! i) = Some (of_nat (length (segs ! i) - 8)) \<and>
        read_tp_header (segs ! i) 16 = Some \<lparr>tph_offset = ucast (of_nat (i * mx) :: u32),
          tph_reserved = 0, tph_more = (if Suc i < length segs then 1 else 0)\<rparr>"
    if "i < length segs" for i
    unfolding nth [OF that] unfolding h
    by (simp add: segment_bytes_facts hdr_getters length_seg_chunk) (simp add: seg_tph_def len)
  ultimately show ?thesis
    using len unfolding seg_count_def by blast
qed

theorem tp_segments_witness:
  "\<exists>segs. segment_message (replicate 16 0) [7, 8, 9] 2 = Some segs \<and>
     concat (map (drop 20) segs) = [7, 8, 9]"
  using tp_segments [OF length_16_zeros, of 2 "[7, 8, 9]"] by auto

text \<open>
  C12. Termination of segmentation. With a complete header, \<open>segment_message\<close> returns if and only
  if the maximal segment payload is positive or there is nothing to send: with a maximum of 0 and
  a non-empty payload the loop never advances.
\<close>

theorem tp_segment_terminates:
  assumes "length hdr = header_size"
  shows "(\<exists>segs. segment_message hdr payload mx = Some segs) \<longleftrightarrow> 0 < mx \<or> payload = []"
proof -
  obtain h where h: "hdr = header_bytes h" using assms by (rule header_16_cases)
  have "segment_message hdr [] mx = Some []"
    by (simp add: segment_message_def segment_loop_done)
  then show ?thesis
    using segment_loop_diverges [of hdr payload mx 0 "[]"] segment_message_bytes [of mx h payload]
    by (auto simp: segment_message_def h)
qed

theorem tp_segment_terminates_witness:
  "\<not> (\<exists>segs. segment_message (replicate 16 0) [1] 0 = Some segs)"
  by (subst tp_segment_terminates [OF length_16_zeros]) simp

definition tp_seg :: "u32 \<Rightarrow> byte list \<Rightarrow> byte list" where
  "tp_seg raw pl = replicate 16 0 @ be32 raw @ pl"

lemma tp_seg_zero: "feed_key (tp_seg raw pl) = Some (Tp_stream_key 0 0 0 0)"
  by (simp add: tp_seg_def feed_key_def hdr_service_def hdr_method_def hdr_client_def hdr_session_def
      wire_consts read_u16_be_nth nth_append u16_of_def)

lemma tp_seg_tph: "read_tp_header (tp_seg raw pl) 16 =
    Some \<lparr>tph_offset = ucast (drop_bit 4 raw), tph_reserved = 0, tph_more = ucast (raw AND 1)\<rparr>"
  by (simp add: tp_seg_def read_tp_header_def read_u32_be_at)

text \<open>
  C9. Reassembly is memory safe, and returns only bytes it received, as long as the peers agree on
  the length of each message. Take any sequence of received segments with complete SOME/IP headers, of
  any number of interleaved streams, in any order, with gaps, duplicates and overlaps, in which no
  segment of a stream reaches past the length \<open>L\<close> of its message (less than 2^32) and those flagged as
  last end exactly there; a segment too short for the TP header may hold anything. Then
  every call of \<open>feed\<close> writes only inside its result buffer; and whatever payload a call returns has
  the length of the message of its stream, and each of its bytes was received at that offset in
  one of the segments of the stream up to this one: a message with a hole is never returned.
\<close>

theorem feed_memory_safe:
  assumes "\<forall>seg \<in> set segs. 16 \<le> length seg" and "\<forall>key. L key < 2 ^ 32"
    and "\<forall>seg \<in> set segs. \<forall>key off is_last data. tp_view seg = Some (key, off, is_last, data) \<longrightarrow>
      off + length data \<le> L key \<and> (is_last \<longrightarrow> off + length data = L key)"
  shows "\<exists>rs st. feed_all [] segs = Some (rs, st) \<and> length rs = length segs \<and>
    (\<forall>i p. i < length segs \<and> rs ! i = Inr p \<longrightarrow>
      (\<exists>key. feed_key (segs ! i) = Some key \<and> length p = L key \<and>
        (\<forall>j < length p. \<exists>seg \<in> set (take (Suc i) segs). \<exists>off is_last data.
          tp_view seg = Some (key, off, is_last, data) \<and> off \<le> j \<and> j < off + length data \<and> p ! j = data ! (j - off))))"
proof -
  have "streams_ok L [] []" by (simp add: streams_ok_def)
  moreover have "seg_within L seg" if "seg \<in> set segs" for seg
    using assms(3) that by (auto simp: seg_within_def split: option.splits)
  ultimately show ?thesis
    using feed_all_ok [of L "[]" "[]" segs] assms(1,2) by (simp add: received_byte_def)
qed

lemma tp_seg_view: "tp_view (tp_seg raw pl) =
    Some (Tp_stream_key 0 0 0 0, unat (ucast (drop_bit 4 raw) :: 28 word), ucast (raw AND 1) = (0 :: 1 word), pl)"
  unfolding tp_view_def tp_seg_zero tp_seg_tph by (simp add: tp_seg_def)

text \<open>A message of five bytes in three segments, the last one first and the first one twice.\<close>

theorem feed_memory_safe_witness:
  "\<exists>rs st. feed_all [] [tp_seg 0x30 [4, 5], tp_seg 0x01 [1, 2], tp_seg 0x01 [1, 2], tp_seg 0x21 [3]] = Some (rs, st) \<and>
    (\<forall>p. rs ! 3 = Inr p \<longrightarrow> length p = 5)"
proof -
  let ?segs = "[tp_seg 0x30 [4, 5], tp_seg 0x01 [1, 2], tp_seg 0x01 [1, 2], tp_seg 0x21 [3]]"
  have long: "\<forall>seg \<in> set ?segs. 16 \<le> length seg" by (simp add: tp_seg_def)
  have within: "\<forall>seg \<in> set ?segs. \<forall>key off is_last data. tp_view seg = Some (key, off, is_last, data) \<longrightarrow>
      off + length data \<le> 5 \<and> (is_last \<longrightarrow> off + length data = 5)"
    by (simp add: tp_seg_view drop_bit_eq_div)
  have small: "\<forall>key :: tp_stream_key. (5 :: nat) < 2 ^ 32" by simp
  from feed_memory_safe [OF long small within] obtain rs st where run: "feed_all [] ?segs = Some (rs, st)"
    and len: "\<forall>i p. i < length ?segs \<and> rs ! i = Inr p \<longrightarrow> (\<exists>key. feed_key (?segs ! i) = Some key \<and> length p = 5 \<and>
      (\<forall>j < length p. \<exists>seg \<in> set (take (Suc i) ?segs). \<exists>off is_last data.
        tp_view seg = Some (key, off, is_last, data) \<and> off \<le> j \<and> j < off + length data \<and> p ! j = data ! (j - off)))"
    by blast
  show ?thesis using run len [THEN spec, of 3] by auto
qed

text \<open>
  C10. Memory safety fails otherwise. A segment that announces the end of the payload before the
  end of data already received makes \<open>feed\<close> write past its result buffer: two datagrams of the
  same stream (8 bytes at offset 0, more to come; then one last byte at offset 4) do it.
\<close>

theorem feed_overflow:
  "\<exists>st. feed [] (tp_seg 0x01 [1, 2, 3, 4, 5, 6, 7, 8]) (tp_seg 0x01 [1, 2, 3, 4, 5, 6, 7, 8]) =
       Some (Inl Invalid_length, st) \<and>
     feed st (tp_seg 0x40 [9]) (tp_seg 0x40 [9]) = None"
proof -
  let ?k = "Tp_stream_key 0 0 0 0"
  let ?s = "\<lparr>fragments = [(0, [1, 2, 3, 4, 5, 6, 7, 8])], final_offset = 0\<rparr>"
  have len: "20 \<le> length (tp_seg raw pl)" and pl: "drop 20 (tp_seg raw pl) = pl" for raw pl
    by (simp_all add: tp_seg_def)
  have "feed [] (tp_seg 0x01 [1, 2, 3, 4, 5, 6, 7, 8]) (tp_seg 0x01 [1, 2, 3, 4, 5, 6, 7, 8]) =
      Some (Inl Invalid_length, [(?k, ?s)])"
    by (simp add: feed_eq [OF tp_seg_zero len tp_seg_tph] pl stream_update_def stream_of_def
        stream_init_def stream_finish_def)
  moreover have "feed [(?k, ?s)] (tp_seg 0x40 [9]) (tp_seg 0x40 [9]) = None"
    by (simp add: feed_eq [OF tp_seg_zero len tp_seg_tph] pl stream_update_def stream_of_def
        stream_finish_def poke_def)
  ultimately show ?thesis by blast
qed

end
