(* ===== verification/Crc.thy ===== *)
theory Crc
  imports Byte_Order
begin

text \<open>
  \<open>e2e/crc.hpp\<close>: CRC-8/SAE-J1850, CRC-32/Ethernet and the 64-bit CRC of the E2E profiles. The
  tables are computed as the \<open>consteval\<close> functions do; \<open>crc32_fast\<close> and \<open>crc64_fast\<close> are the
  slicing-by-8 loops with their byte-at-a-time remainder; \<open>crc32_consteval\<close> and \<open>crc64_consteval\<close>
  are the \<open>if consteval\<close> branches. \<open>memcpy\<close> into an integer is little-endian.
\<close>

section \<open>CRC-8\<close>

definition crc8_shift :: "u8 \<Rightarrow> u8" where
  "crc8_shift crc = (if crc AND 0x80 \<noteq> 0 then push_bit 1 crc XOR 0x1D else push_bit 1 crc)"

definition crc8_table :: "u8 list" where
  "crc8_table = map (\<lambda>i. (crc8_shift ^^ 8) (of_nat i)) [0 ..< 256]"

definition crc8_sae_j1850 :: "byte list \<Rightarrow> u8 \<Rightarrow> u8" where
  "crc8_sae_j1850 data init = foldl (\<lambda>crc b. crc8_table ! unat (crc XOR b)) init data XOR 0xFF"

section \<open>CRC-32\<close>

definition crc32_shift :: "u32 \<Rightarrow> u32" where
  "crc32_shift crc = (if crc AND 1 \<noteq> 0 then drop_bit 1 crc XOR 0xEDB88320 else drop_bit 1 crc)"

definition crc32_table :: "u32 list" where
  "crc32_table = map (\<lambda>i. (crc32_shift ^^ 8) (of_nat i)) [0 ..< 256]"

fun crc32_slice :: "nat \<Rightarrow> u32 list" where
  "crc32_slice 0 = crc32_table"
| "crc32_slice (Suc k) =
     map (\<lambda>i. drop_bit 8 (crc32_slice k ! i) XOR crc32_table ! unat (crc32_slice k ! i AND 0xFF))
       [0 ..< 256]"

definition crc32_byte :: "u32 \<Rightarrow> byte \<Rightarrow> u32" where
  "crc32_byte crc b = crc32_slice 0 ! unat ((crc XOR ucast b) AND 0xFF) XOR drop_bit 8 crc"

fun crc32_loop :: "byte list \<Rightarrow> u32 \<Rightarrow> u32" where
  "crc32_loop (p0 # p1 # p2 # p3 # p4 # p5 # p6 # p7 # p) crc =
     (let a = le32_of p0 p1 p2 p3; b = le32_of p4 p5 p6 p7; a = a XOR crc
      in crc32_loop p
        (crc32_slice 7 ! unat (a AND 0xFF) XOR
         crc32_slice 6 ! unat (drop_bit 8 a AND 0xFF) XOR
         crc32_slice 5 ! unat (drop_bit 16 a AND 0xFF) XOR
         crc32_slice 4 ! unat (drop_bit 24 a) XOR
         crc32_slice 3 ! unat (b AND 0xFF) XOR
         crc32_slice 2 ! unat (drop_bit 8 b AND 0xFF) XOR
         crc32_slice 1 ! unat (drop_bit 16 b AND 0xFF) XOR
         crc32_slice 0 ! unat (drop_bit 24 b)))"
| "crc32_loop p crc = foldl crc32_byte crc p"

definition crc32_fast :: "byte list \<Rightarrow> u32 \<Rightarrow> u32" where
  "crc32_fast data crc = crc32_loop data crc XOR 0xFFFFFFFF"

definition crc32_consteval :: "byte list \<Rightarrow> u32 \<Rightarrow> u32" where
  "crc32_consteval data init =
     foldl (\<lambda>crc b. crc32_table ! unat ((crc XOR ucast b) AND 0xFF) XOR drop_bit 8 crc) init data
     XOR 0xFFFFFFFF"

definition crc32_ethernet :: "byte list \<Rightarrow> u32 \<Rightarrow> u32" where
  "crc32_ethernet data init = crc32_fast data init"

section \<open>CRC-64\<close>

definition crc64_shift :: "u64 \<Rightarrow> u64" where
  "crc64_shift crc =
     (if crc AND push_bit 63 1 \<noteq> 0 then push_bit 1 crc XOR 0x42F0E1EBA9EA3693 else push_bit 1 crc)"

definition crc64_table :: "u64 list" where
  "crc64_table = map (\<lambda>i. (crc64_shift ^^ 8) (push_bit 56 (of_nat i))) [0 ..< 256]"

fun crc64_slice :: "nat \<Rightarrow> u64 list" where
  "crc64_slice 0 = crc64_table"
| "crc64_slice (Suc k) =
     map (\<lambda>i. push_bit 8 (crc64_slice k ! i) XOR
              crc64_table ! unat (ucast (drop_bit 56 (crc64_slice k ! i)) :: u8))
       [0 ..< 256]"

definition crc64_byte :: "u64 \<Rightarrow> byte \<Rightarrow> u64" where
  "crc64_byte crc b = crc64_slice 0 ! unat (ucast (drop_bit 56 crc XOR ucast b) :: u8) XOR push_bit 8 crc"

definition le64_of :: "byte \<Rightarrow> byte \<Rightarrow> byte \<Rightarrow> byte \<Rightarrow> byte \<Rightarrow> byte \<Rightarrow> byte \<Rightarrow> byte \<Rightarrow> u64" where
  "le64_of b0 b1 b2 b3 b4 b5 b6 b7 = u64_of (le32_of b4 b5 b6 b7) (le32_of b0 b1 b2 b3)"

fun crc64_loop :: "byte list \<Rightarrow> u64 \<Rightarrow> u64" where
  "crc64_loop (p0 # p1 # p2 # p3 # p4 # p5 # p6 # p7 # p) crc =
     (let block = bswap64 (le64_of p0 p1 p2 p3 p4 p5 p6 p7); combined = crc XOR block
      in crc64_loop p
        (crc64_slice 7 ! unat (ucast (drop_bit 56 combined) :: u8) XOR
         crc64_slice 6 ! unat (ucast (drop_bit 48 combined) :: u8) XOR
         crc64_slice 5 ! unat (ucast (drop_bit 40 combined) :: u8) XOR
         crc64_slice 4 ! unat (ucast (drop_bit 32 combined) :: u8) XOR
         crc64_slice 3 ! unat (ucast (drop_bit 24 combined) :: u8) XOR
         crc64_slice 2 ! unat (ucast (drop_bit 16 combined) :: u8) XOR
         crc64_slice 1 ! unat (ucast (drop_bit 8 combined) :: u8) XOR
         crc64_slice 0 ! unat (ucast combined :: u8)))"
| "crc64_loop p crc = foldl crc64_byte crc p"

definition crc64_fast :: "byte list \<Rightarrow> u64 \<Rightarrow> u64" where
  "crc64_fast data crc = crc64_loop data crc XOR 0xFFFFFFFFFFFFFFFF"

definition crc64_consteval :: "byte list \<Rightarrow> u64 \<Rightarrow> u64" where
  "crc64_consteval data init =
     foldl (\<lambda>crc b. crc64_table ! unat (ucast (drop_bit 56 crc XOR ucast b) :: u8) XOR push_bit 8 crc)
       init data
     XOR 0xFFFFFFFFFFFFFFFF"

definition crc64 :: "byte list \<Rightarrow> u64 \<Rightarrow> u64" where
  "crc64 data init = crc64_fast data init"

end
