(* ===== verification/Crc_Correct.thy ===== *)
theory Crc_Correct
  imports Crc
begin

text \<open>
  Correctness of the CRC routines. A CRC register is a linear map on words that consumes one byte
  at a time; the locale \<open>crc_register\<close> states what that takes, and inside it the slicing-by-8
  identity and the detection of short error bursts are proved once. It is interpreted for the
  three CRCs of the code, with the bit-by-bit polynomial division as the linear map.
\<close>

section \<open>CRC registers\<close>

text \<open>
  \<open>z\<close> is the update by one zero byte; \<open>place j b\<close> is the register contribution of byte \<open>b\<close> that is
  consumed \<open>j\<close> bytes later; \<open>ext j\<close> recovers it.
\<close>

locale crc_register =
  fixes z :: "'a::len word \<Rightarrow> 'a word"
    and place :: "nat \<Rightarrow> byte \<Rightarrow> 'a word"
    and ext :: "nat \<Rightarrow> 'a word \<Rightarrow> byte"
    and width :: nat
  assumes z_xor: "z (x XOR y) = z x XOR z y"
    and z_zero: "z x = 0 \<Longrightarrow> x = 0"
    and z_place: "Suc j < width \<Longrightarrow> z (place (Suc j) b) = place j b"
    and ext_xor: "ext j (x XOR y) = ext j x XOR ext j y"
    and ext_place: "i < width \<Longrightarrow> j < width \<Longrightarrow> ext i (place j b) = (if i = j then b else 0)"
    and place_xor: "place j (a XOR b) = place j a XOR place j b"
    and width_pos: "0 < width"
begin

lemma z_0: "z 0 = 0"
  using z_xor [of 0 0] by simp

lemma place_0: "place j 0 = 0"
  using place_xor [of j 0 0] by simp

lemma ext_0: "ext j 0 = 0"
  using ext_xor [of j 0 0] by simp

lemma z_inj: "z x = z y \<Longrightarrow> x = y"
  using z_zero [of "x XOR y"] by (simp add: z_xor word_xor_eq_0_iff)

lemma z_pow_xor: "(z ^^ n) (x XOR y) = (z ^^ n) x XOR (z ^^ n) y"
  by (induction n) (simp_all add: z_xor)

lemma z_pow_place: "j < width \<Longrightarrow> (z ^^ (j + n)) (place j b) = (z ^^ n) (place 0 b)"
proof (induction j)
  case (Suc j)
  then show ?case by (simp add: funpow_swap1 z_place)
qed simp

text \<open>The bytes of a block, each at its place.\<close>

fun pack :: "nat \<Rightarrow> byte list \<Rightarrow> 'a word" where
  "pack j [] = 0"
| "pack j (b # bs) = place j b XOR pack (Suc j) bs"

lemma z_pack: "Suc j + length bs \<le> width \<Longrightarrow> z (pack (Suc j) bs) = pack j bs"
  by (induction bs arbitrary: j) (simp_all add: z_0 z_xor z_place)

lemma pack_append: "pack j (xs @ ys) = pack j xs XOR pack (j + length xs) ys"
  by (induction xs arbitrary: j) (simp_all add: xor.assoc)

lemma ext_pack:
  "j + length bs \<le> width \<Longrightarrow> i < width \<Longrightarrow>
   ext i (pack j bs) = (if j \<le> i \<and> i < j + length bs then bs ! (i - j) else 0)"
  by (induction bs arbitrary: j) (auto simp: ext_0 ext_xor ext_place nth_Cons')

lemma pack_inject:
  assumes "length bs = length cs" "length bs \<le> width" "pack 0 bs = pack 0 cs"
  shows "bs = cs"
proof (rule nth_equalityI)
  fix i assume "i < length bs"
  then show "bs ! i = cs ! i"
    using ext_pack [of 0 bs i] ext_pack [of 0 cs i] assms by simp
qed (fact assms(1))

text \<open>Consuming up to a register's width of bytes: mix them all in, then shift.\<close>

lemma foldl_pack:
  "length bs \<le> width \<Longrightarrow> foldl (\<lambda>c b. z (c XOR place 0 b)) c bs = (z ^^ length bs) (c XOR pack 0 bs)"
proof (induction bs arbitrary: c)
  case Nil
  then show ?case by simp
next
  case (Cons b bs)
  have "pack 0 bs = z (pack (Suc 0) bs)"
    using Cons.prems by (simp add: z_pack)
  then have "z (c XOR place 0 b) XOR pack 0 bs = z (c XOR pack 0 (b # bs))"
    by (simp add: z_xor xor.assoc)
  with Cons show ?case by (simp add: funpow_swap1)
qed

lemma foldl_inj:
  "foldl (\<lambda>c b. z (c XOR place 0 b)) c bs = foldl (\<lambda>c b. z (c XOR place 0 b)) d bs \<Longrightarrow> c = d"
proof (induction bs arbitrary: c d)
  case (Cons b bs)
  then have "z (c XOR place 0 b) = z (d XOR place 0 b)" by fastforce
  then have "c XOR place 0 b = d XOR place 0 b" by (rule z_inj)
  then have "(c XOR place 0 b) XOR place 0 b = (d XOR place 0 b) XOR place 0 b" by (rule arg_cong)
  then show ?case by (simp add: xor.assoc)
qed simp

text \<open>Any change confined to a block no longer than the register changes the CRC.\<close>

lemma burst_detected:
  assumes "length d = length e" and "length d \<le> width"
    and "foldl (\<lambda>c b. z (c XOR place 0 b)) c (xs @ d @ ys) =
         foldl (\<lambda>c b. z (c XOR place 0 b)) c (xs @ e @ ys)"
  shows "d = e"
proof -
  let ?c = "foldl (\<lambda>c b. z (c XOR place 0 b)) c xs"
  have "foldl (\<lambda>c b. z (c XOR place 0 b)) ?c d = foldl (\<lambda>c b. z (c XOR place 0 b)) ?c e"
    by (rule foldl_inj [of _ ys]) (use assms(3) in simp)
  then have eq: "(z ^^ length d) (?c XOR pack 0 d) = (z ^^ length d) (?c XOR pack 0 e)"
    using assms by (simp add: foldl_pack)
  have "inj z" by (rule injI) (rule z_inj)
  then have "inj (z ^^ length d)" by (rule inj_fn)
  then have "?c XOR pack 0 d = ?c XOR pack 0 e" using eq by (rule injD)
  then have "?c XOR (?c XOR pack 0 d) = ?c XOR (?c XOR pack 0 e)" by (rule arg_cong)
  then have "pack 0 d = pack 0 e" by (simp flip: xor.assoc)
  with assms show ?thesis by (intro pack_inject)
qed

text \<open>Consuming a block byte by byte, as a sum with one term per byte.\<close>

fun slices :: "byte list \<Rightarrow> 'a word" where
  "slices [] = 0"
| "slices (b # bs) = (z ^^ Suc (length bs)) (place 0 b) XOR slices bs"

lemma foldl_slices: "foldl (\<lambda>c b. z (c XOR place 0 b)) c bs = (z ^^ length bs) c XOR slices bs"
  by (induction bs arbitrary: c) (simp_all add: funpow_swap1 z_pow_xor xor.assoc z_xor)

lemma slices_zeros: "slices (replicate n 0) = 0"
proof (induction n)
  case (Suc n)
  have "(z ^^ m) 0 = 0" for m by (induction m) (simp_all add: z_0)
  with Suc show ?case by (simp add: place_0 z_0)
qed simp

lemma z_pow_pack:
  "j + length cs \<le> width \<Longrightarrow> (z ^^ (j + length cs + n)) (pack j cs) = slices (cs @ replicate n 0)"
proof (induction cs arbitrary: j)
  case Nil
  have "(z ^^ m) 0 = 0" for m by (induction m) (simp_all add: z_0)
  then show ?case by (simp add: slices_zeros)
next
  case (Cons c cs)
  have "(z ^^ (j + length (c # cs) + n)) (place j c) = (z ^^ (Suc (length cs) + n)) (place 0 c)"
    using z_pow_place [of j "length (c # cs) + n" c] Cons.prems by (simp add: add.assoc)
  with Cons.IH [of "Suc j"] Cons.prems show ?case
    by (simp add: z_pow_xor z_xor)
qed

lemma slices_xor:
  "length xs = length ys \<Longrightarrow> slices (map2 (XOR) xs ys) = slices xs XOR slices ys"
  by (induction xs ys rule: list_induct2)
    (simp_all add: place_xor z_xor z_pow_xor xor.assoc xor.left_commute)

end

text \<open>A register that is the sum of its bytes: the slicing identity.\<close>

locale crc_slicing = crc_register +
  assumes pack_ext: "pack 0 (map (\<lambda>j. ext j c) [0 ..< width]) = c"
begin

lemma slicing:
  assumes "width \<le> length bs"
  shows "foldl (\<lambda>c b. z (c XOR place 0 b)) c bs =
    slices (map2 (XOR) bs (map (\<lambda>j. ext j c) [0 ..< width] @ replicate (length bs - width) 0))"
proof -
  have "(z ^^ length bs) c = slices (map (\<lambda>j. ext j c) [0 ..< width] @ replicate (length bs - width) 0)"
    using z_pow_pack [of 0 "map (\<lambda>j. ext j c) [0 ..< width]" "length bs - width"] assms
    by (simp add: pack_ext)
  then show ?thesis
    using assms by (simp add: foldl_slices slices_xor xor.commute)
qed

end

section \<open>The bit-by-bit registers\<close>

lemma funpow_xor:
  fixes f :: "'a::len word \<Rightarrow> 'a word"
  assumes "\<And>x y. f (x XOR y) = f x XOR f y"
  shows "(f ^^ n) (x XOR y) = (f ^^ n) x XOR (f ^^ n) y"
  by (induction n) (simp_all add: assms)

lemma funpow_zero:
  fixes f :: "'a::len word \<Rightarrow> 'a word"
  assumes "\<And>x. f x = 0 \<Longrightarrow> x = 0"
  shows "(f ^^ n) x = 0 \<Longrightarrow> x = 0"
  by (induction n) (auto dest: assms)

lemma crc8_shift_alt: "crc8_shift c = push_bit 1 c XOR (if bit c 7 then 0x1D else 0)"
  using and_exp_eq_0_iff_not_bit [of c 7] by (simp add: crc8_shift_def)

lemma crc32_shift_alt: "crc32_shift c = drop_bit 1 c XOR (if bit c 0 then 0xEDB88320 else 0)"
  using and_exp_eq_0_iff_not_bit [of c 0] by (simp add: crc32_shift_def)

lemma crc64_shift_alt:
  "crc64_shift c = push_bit 1 c XOR (if bit c 63 then 0x42F0E1EBA9EA3693 else 0)"
  using and_exp_eq_0_iff_not_bit [of c 63] by (simp add: crc64_shift_def push_bit_of_1)

lemma crc_shift_xor:
  "crc8_shift (a XOR b) = crc8_shift a XOR crc8_shift b"
  "crc32_shift (c XOR d) = crc32_shift c XOR crc32_shift d"
  "crc64_shift (e XOR f) = crc64_shift e XOR crc64_shift f"
  by (auto simp: crc8_shift_alt crc32_shift_alt crc64_shift_alt bit_xor_iff push_bit_xor drop_bit_xor
      xor.assoc xor.left_commute)

text \<open>A zero result means a zero register: the bit shifted out is a bit of the polynomial.\<close>

lemma bit_crc_shift:
  "bit (crc8_shift x) n \<longleftrightarrow> (0 < n \<and> n < 8 \<and> bit x (n - 1)) \<noteq> (bit x 7 \<and> bit (0x1D :: u8) n)"
  "bit (crc32_shift y) n \<longleftrightarrow> (bit y (Suc n)) \<noteq> (bit y 0 \<and> bit (0xEDB88320 :: u32) n)"
  "bit (crc64_shift w) n \<longleftrightarrow>
     (0 < n \<and> n < 64 \<and> bit w (n - 1)) \<noteq> (bit w 63 \<and> bit (0x42F0E1EBA9EA3693 :: u64) n)"
  unfolding crc8_shift_alt crc32_shift_alt crc64_shift_alt bit_xor_iff bit_push_bit_iff bit_drop_bit_eq
  by (auto simp: bit_drop_bit_eq Suc_le_eq)

lemma crc8_shift_zero: "crc8_shift x = 0 \<Longrightarrow> x = 0"
proof (rule bit_word_eqI)
  fix n :: nat
  assume z: "crc8_shift x = 0" and n: "n < LENGTH(8)"
  have bits: "\<not> bit (crc8_shift x) m" for m using z by simp
  have top: "\<not> bit x 7" using bits [of 0] by (simp add: bit_crc_shift(1))
  show "bit x n = bit 0 n"
    using bits [of "Suc n"] top n by (cases "n = 7") (simp_all add: bit_crc_shift(1))
qed

lemma crc32_shift_zero: "crc32_shift x = 0 \<Longrightarrow> x = 0"
proof (rule bit_word_eqI)
  fix n :: nat
  assume z: "crc32_shift x = 0" and n: "n < LENGTH(32)"
  have bits: "\<not> bit (crc32_shift x) m" for m using z by simp
  have low: "\<not> bit x 0" using bits [of 31] bit_beyond [of 32 x] by (simp add: bit_crc_shift(2))
  show "bit x n = bit 0 n"
    using bits [of "n - 1"] low by (cases n) (simp_all add: bit_crc_shift(2))
qed

lemma crc64_shift_zero: "crc64_shift x = 0 \<Longrightarrow> x = 0"
proof (rule bit_word_eqI)
  fix n :: nat
  assume z: "crc64_shift x = 0" and n: "n < LENGTH(64)"
  have bits: "\<not> bit (crc64_shift x) m" for m using z by simp
  have top: "\<not> bit x 63" using bits [of 0] by (simp add: bit_crc_shift(3))
  show "bit x n = bit 0 n"
    using bits [of "Suc n"] top n by (cases "n = 63") (simp_all add: bit_crc_shift(3))
qed

section \<open>Updates by a whole byte\<close>

definition crc8_z :: "u8 \<Rightarrow> u8" where "crc8_z = crc8_shift ^^ 8"
definition crc32_z :: "u32 \<Rightarrow> u32" where "crc32_z = crc32_shift ^^ 8"
definition crc64_z :: "u64 \<Rightarrow> u64" where "crc64_z = crc64_shift ^^ 8"

lemma crc_z_xor:
  "crc8_z (a XOR b) = crc8_z a XOR crc8_z b"
  "crc32_z (c XOR d) = crc32_z c XOR crc32_z d"
  "crc64_z (e XOR f) = crc64_z e XOR crc64_z f"
  unfolding crc8_z_def crc32_z_def crc64_z_def by (rule funpow_xor, rule crc_shift_xor)+

lemma crc_z_zero:
  "crc8_z a = 0 \<Longrightarrow> a = 0" "crc32_z b = 0 \<Longrightarrow> b = 0" "crc64_z c = 0 \<Longrightarrow> c = 0"
  unfolding crc8_z_def crc32_z_def crc64_z_def
  by (erule funpow_zero [rotated], erule crc8_shift_zero crc32_shift_zero crc64_shift_zero)+

text \<open>A register whose outgoing byte is zero is only shifted.\<close>

lemma crc32_shift_pow_high:
  "(\<forall>i < n. \<not> bit w i) \<Longrightarrow> (crc32_shift ^^ n) w = drop_bit n w"
proof (induction n)
  case (Suc n)
  then have "crc32_shift ((crc32_shift ^^ n) w) = crc32_shift (drop_bit n w)" by simp
  also have "\<dots> = drop_bit (Suc n) w"
    using Suc.prems by (simp add: crc32_shift_alt bit_drop_bit_eq)
  finally show ?case by simp
qed simp

lemma crc64_shift_pow_low:
  "n \<le> 64 \<Longrightarrow> (\<forall>i < n. \<not> bit w (63 - i)) \<Longrightarrow> (crc64_shift ^^ n) w = push_bit n w"
proof (induction n)
  case (Suc n)
  then have "crc64_shift ((crc64_shift ^^ n) w) = crc64_shift (push_bit n w)" by simp
  also have "\<dots> = push_bit 1 (push_bit n w)"
    using Suc.prems unfolding crc64_shift_alt by (simp add: bit_push_bit_iff)
  finally show ?case by (simp add: push_bit_push_bit)
qed simp

section \<open>The three registers\<close>

definition crc8_place :: "nat \<Rightarrow> byte \<Rightarrow> u8" where "crc8_place j b = b"
definition crc8_ext :: "nat \<Rightarrow> u8 \<Rightarrow> byte" where "crc8_ext j c = c"

definition crc32_place :: "nat \<Rightarrow> byte \<Rightarrow> u32" where "crc32_place j b = push_bit (8 * j) (ucast b)"
definition crc32_ext :: "nat \<Rightarrow> u32 \<Rightarrow> byte" where "crc32_ext j c = ucast (drop_bit (8 * j) c)"

definition crc64_place :: "nat \<Rightarrow> byte \<Rightarrow> u64" where
  "crc64_place j b = push_bit (56 - 8 * j) (ucast b)"
definition crc64_ext :: "nat \<Rightarrow> u64 \<Rightarrow> byte" where
  "crc64_ext j c = ucast (drop_bit (56 - 8 * j) c)"

lemma crc32_z_place: "Suc j < 4 \<Longrightarrow> crc32_z (crc32_place (Suc j) b) = crc32_place j b"
proof -
  assume j: "Suc j < 4"
  have "crc32_z (crc32_place (Suc j) b) = drop_bit 8 (crc32_place (Suc j) b)"
    unfolding crc32_z_def by (rule crc32_shift_pow_high) (simp add: crc32_place_def bit_push_bit_iff)
  also have "\<dots> = crc32_place j b"
    using j by (intro bit_word_eqI) (auto simp: crc32_place_def bit_simps dest: bit_imp_le_length)
  finally show ?thesis .
qed

lemma crc64_z_place: "Suc j < 8 \<Longrightarrow> crc64_z (crc64_place (Suc j) b) = crc64_place j b"
proof -
  assume j: "Suc j < 8"
  have "crc64_z (crc64_place (Suc j) b) = push_bit 8 (crc64_place (Suc j) b)"
    unfolding crc64_z_def using j
    by (intro crc64_shift_pow_low) (auto simp: crc64_place_def bit_simps dest: bit_imp_le_length)
  also have "\<dots> = crc64_place j b"
    using j by (simp add: crc64_place_def push_bit_push_bit)
  finally show ?thesis .
qed

lemma crc32_ext_place: "i < 4 \<Longrightarrow> j < 4 \<Longrightarrow> crc32_ext i (crc32_place j b) = (if i = j then b else 0)"
  by (intro bit_word_eqI) (auto simp: crc32_place_def crc32_ext_def bit_simps dest: bit_imp_le_length)

lemma crc64_ext_place: "i < 8 \<Longrightarrow> j < 8 \<Longrightarrow> crc64_ext i (crc64_place j b) = (if i = j then b else 0)"
  by (intro bit_word_eqI) (auto simp: crc64_place_def crc64_ext_def bit_simps dest: bit_imp_le_length)

interpretation crc8_reg: crc_register crc8_z crc8_place crc8_ext 1
  by unfold_locales
    (auto simp: crc_z_xor crc8_place_def crc8_ext_def dest: crc_z_zero)

interpretation crc32_reg: crc_register crc32_z crc32_place crc32_ext 4
  by unfold_locales
    (auto simp: crc_z_xor crc32_z_place crc32_ext_place dest: crc_z_zero,
     auto simp: crc32_place_def crc32_ext_def drop_bit_xor push_bit_xor bit_simps intro!: bit_word_eqI)

interpretation crc64_reg: crc_register crc64_z crc64_place crc64_ext 8
  by unfold_locales
    (auto simp: crc_z_xor crc64_z_place crc64_ext_place dest: crc_z_zero,
     auto simp: crc64_place_def crc64_ext_def drop_bit_xor push_bit_xor bit_simps intro!: bit_word_eqI)

interpretation crc32_reg: crc_slicing crc32_z crc32_place crc32_ext 4
proof unfold_locales
  fix c :: u32
  show "crc32_reg.pack 0 (map (\<lambda>j. crc32_ext j c) [0 ..< 4]) = c"
    unfolding upt_conv_Cons [of 0 4, simplified]
    by (auto simp: upt_rec numeral_2_eq_2 crc32_place_def crc32_ext_def bit_simps bit_beyond intro!: bit_word_eqI)
qed

lemma bit_byte_of:
  "k \<le> 56 \<Longrightarrow> bit (push_bit k (ucast (ucast (drop_bit k c) :: byte)) :: u64) n \<longleftrightarrow>
     k \<le> n \<and> n < k + 8 \<and> bit (c :: u64) n"
  by (auto simp: bit_simps dest: bit_imp_le_length)

interpretation crc64_reg: crc_slicing crc64_z crc64_place crc64_ext 8
proof unfold_locales
  fix c :: u64
  have "[0 ..< 8] = [0, 1, 2, 3, 4, 5, 6, 7]" by (simp add: upt_rec)
  then have "crc64_reg.pack 0 (map (\<lambda>j. crc64_ext j c) [0 ..< 8]) =
      push_bit 56 (ucast (ucast (drop_bit 56 c) :: byte)) XOR
      push_bit 48 (ucast (ucast (drop_bit 48 c) :: byte)) XOR
      push_bit 40 (ucast (ucast (drop_bit 40 c) :: byte)) XOR
      push_bit 32 (ucast (ucast (drop_bit 32 c) :: byte)) XOR
      push_bit 24 (ucast (ucast (drop_bit 24 c) :: byte)) XOR
      push_bit 16 (ucast (ucast (drop_bit 16 c) :: byte)) XOR
      push_bit 8 (ucast (ucast (drop_bit 8 c) :: byte)) XOR
      push_bit 0 (ucast (ucast (drop_bit 0 c) :: byte))" (is "_ = ?sum")
    by (simp add: crc64_place_def crc64_ext_def)
  also have "\<dots> = c"
  proof (rule bit_word_eqI)
    fix n :: nat
    assume "n < LENGTH(64)"
    then consider "n < 8" | "8 \<le> n" "n < 16" | "16 \<le> n" "n < 24" | "24 \<le> n" "n < 32"
      | "32 \<le> n" "n < 40" | "40 \<le> n" "n < 48" | "48 \<le> n" "n < 56" | "56 \<le> n" "n < 64"
      by force
    then show "bit ?sum n = bit c n" unfolding bit_xor_iff by cases (simp_all add: bit_byte_of bit_byte_of [of 0, simplified])
  qed
  finally show "crc64_reg.pack 0 (map (\<lambda>j. crc64_ext j c) [0 ..< 8]) = c" .
qed

section \<open>The tables\<close>

lemma of_nat_unat_byte: "(of_nat (unat b) :: 'a::len word) = ucast (b :: byte)"
  by (simp add: unsigned_of_nat of_nat_unat)

lemma unat_byte_less [simp]: "unat (b :: byte) < 256"
  using unsigned_less [of b, where 'a = nat] by simp

lemma and_mask_byte: "v AND 0xFF = ucast (ucast v :: byte)" for v :: u32
proof -
  have "v AND 0xFF = take_bit 8 v"
    by (simp add: take_bit_eq_mask mask_eq_exp_minus_1)
  also have "\<dots> = ucast (ucast v :: byte)"
    by (rule bit_word_eqI) (auto simp: bit_simps)
  finally show ?thesis .
qed

lemma unat_and_mask_byte: "unat (v AND 0xFF) = unat (ucast v :: byte)" for v :: u32
  unfolding and_mask_byte by (simp add: unsigned_ucast_eq unsigned_take_bit_eq)

lemma crc8_table_nth: "crc8_table ! unat b = crc8_z b"
  by (simp add: crc8_table_def crc8_z_def)

lemma crc32_table_nth: "crc32_table ! unat (b :: byte) = crc32_z (ucast b)"
  by (simp add: crc32_table_def crc32_z_def of_nat_unat_byte)

lemma crc64_table_nth: "crc64_table ! unat (b :: byte) = crc64_z (push_bit 56 (ucast b))"
  by (simp add: crc64_table_def crc64_z_def of_nat_unat_byte)

lemma crc32_z_split: "crc32_z v = crc32_z (ucast (ucast v :: byte)) XOR drop_bit 8 v"
proof -
  let ?h = "push_bit 8 (drop_bit 8 v)"
  have "v = ucast (ucast v :: byte) XOR ?h"
    by (rule bit_word_eqI) (auto simp: bit_simps)
  then have "crc32_z v = crc32_z (ucast (ucast v :: byte)) XOR crc32_z ?h"
    by (metis crc_z_xor(2))
  also have "crc32_z ?h = drop_bit 8 ?h"
    unfolding crc32_z_def by (rule crc32_shift_pow_high) (simp add: bit_push_bit_iff)
  also have "\<dots> = drop_bit 8 v"
    by (rule bit_word_eqI) (auto simp: bit_simps dest: bit_imp_le_length)
  finally show ?thesis .
qed

lemma crc64_z_split:
  "crc64_z v = crc64_z (push_bit 56 (ucast (ucast (drop_bit 56 v) :: byte))) XOR push_bit 8 v"
proof -
  let ?t = "push_bit 56 (ucast (ucast (drop_bit 56 v) :: byte))" and ?l = "take_bit 56 v"
  have "v = ?t XOR ?l"
    by (rule bit_word_eqI) (auto simp: bit_simps dest: bit_imp_le_length)
  then have "crc64_z v = crc64_z ?t XOR crc64_z ?l"
    by (metis crc_z_xor(3))
  also have "crc64_z ?l = push_bit 8 ?l"
    unfolding crc64_z_def by (rule crc64_shift_pow_low) (auto simp: bit_take_bit_iff)
  also have "\<dots> = push_bit 8 v"
    by (rule bit_word_eqI) (auto simp: bit_simps)
  finally show ?thesis .
qed

text \<open>Entry \<open>i\<close> of slice \<open>k\<close> is the byte \<open>i\<close> followed by \<open>k\<close> zero bytes.\<close>

lemma crc32_slice_nth:
  "crc32_slice k ! unat (b :: byte) = (crc32_z ^^ Suc k) (ucast b)"
proof (induction k arbitrary: b)
  case 0
  then show ?case by (simp add: crc32_table_nth)
next
  case (Suc k)
  let ?w = "crc32_slice k ! unat b"
  have "crc32_slice (Suc k) ! unat b = drop_bit 8 ?w XOR crc32_table ! unat (?w AND 0xFF)"
    by simp
  also have "\<dots> = crc32_z ?w"
    by (simp add: unat_and_mask_byte crc32_table_nth crc32_z_split [of ?w] xor.commute)
  finally show ?case by (simp only: Suc.IH funpow.simps o_apply)
qed

lemma crc64_slice_nth:
  "crc64_slice k ! unat (b :: byte) = (crc64_z ^^ Suc k) (push_bit 56 (ucast b))"
proof (induction k arbitrary: b)
  case 0
  then show ?case by (simp add: crc64_table_nth)
next
  case (Suc k)
  let ?w = "crc64_slice k ! unat b"
  have "crc64_slice (Suc k) ! unat b =
      push_bit 8 ?w XOR crc64_table ! unat (ucast (drop_bit 56 ?w) :: u8)"
    by simp
  also have "\<dots> = crc64_z ?w"
    by (simp only: crc64_table_nth crc64_z_split [of ?w] xor.commute)
  finally show ?case by (simp only: Suc.IH funpow.simps o_apply)
qed

section \<open>The loops consume one byte per step\<close>

lemma crc8_steps:
  "crc8_sae_j1850 data init = foldl (\<lambda>c b. crc8_z (c XOR crc8_place 0 b)) init data XOR 0xFF"
  by (simp add: crc8_sae_j1850_def crc8_table_nth crc8_place_def)

lemma crc32_byte_step: "crc32_byte c b = crc32_z (c XOR crc32_place 0 b)"
proof -
  have "drop_bit 8 (ucast b :: u32) = 0"
    by (rule bit_word_eqI) (auto simp: bit_simps dest: bit_imp_le_length)
  then show ?thesis
    by (simp add: crc32_byte_def unat_and_mask_byte crc32_table_nth crc32_place_def drop_bit_xor
        crc32_z_split [of "c XOR ucast b"])
qed

lemma crc64_byte_step: "crc64_byte c b = crc64_z (c XOR crc64_place 0 b)"
proof -
  have "push_bit 8 (push_bit 56 (ucast b :: u64)) = 0"
    by (rule bit_word_eqI) (auto simp: bit_simps)
  moreover have "(ucast (drop_bit 56 (push_bit 56 (ucast b :: u64))) :: byte) = b"
    by (rule bit_word_eqI) (auto simp: bit_simps dest: bit_imp_le_length)
  moreover have "(ucast (ucast b :: u64) :: byte) = b"
    by (rule bit_word_eqI) (auto simp: bit_simps)
  moreover have ucast_xor: "(ucast (x XOR y) :: byte) = ucast x XOR ucast y" for x y :: u64
    by (rule bit_word_eqI) (auto simp: bit_simps)
  ultimately show ?thesis
    by (simp add: crc64_byte_def crc64_table_nth crc64_place_def drop_bit_xor push_bit_xor
        crc64_z_split [of "c XOR push_bit 56 (ucast b)"])
qed

lemma crc32_ext_le:
  "ucast (le32_of b0 b1 b2 b3 XOR c) = b0 XOR crc32_ext 0 c"
  "ucast (drop_bit 8 (le32_of b0 b1 b2 b3 XOR c)) = b1 XOR crc32_ext 1 c"
  "ucast (drop_bit 16 (le32_of b0 b1 b2 b3 XOR c)) = b2 XOR crc32_ext 2 c"
  "ucast (drop_bit 24 (le32_of b0 b1 b2 b3 XOR c)) = b3 XOR crc32_ext 3 c"
  unfolding le32_of_def u32_of_def crc32_ext_def
  by (rule bit_word_eqI; auto simp: bit_simps dest: bit_imp_le_length)+

lemma ucast_le32_of:
  "ucast (le32_of b0 b1 b2 b3) = b0"
  "ucast (drop_bit 8 (le32_of b0 b1 b2 b3)) = b1"
  "ucast (drop_bit 16 (le32_of b0 b1 b2 b3)) = b2"
  "ucast (drop_bit 24 (le32_of b0 b1 b2 b3)) = b3"
  using crc32_ext_le [of b0 b1 b2 b3 0] by (simp_all add: crc32_ext_def)

lemma unat_top_byte: "unat (drop_bit 24 v) = unat (ucast (drop_bit 24 v) :: byte)" for v :: u32
proof -
  have "drop_bit 24 v = ucast (ucast (drop_bit 24 v) :: byte)"
    by (rule bit_word_eqI) (auto simp: bit_simps dest: bit_imp_le_length)
  then show ?thesis
    by (metis take_bit_word_eq_self unat_and_mask_byte and_mask_byte)
qed

lemma crc32_slices:
  "crc32_slice 0 ! unat (b :: byte) = (crc32_z ^^ 1) (ucast b)"
  "crc32_slice 1 ! unat (b :: byte) = (crc32_z ^^ 2) (ucast b)"
  "crc32_slice 2 ! unat (b :: byte) = (crc32_z ^^ 3) (ucast b)"
  "crc32_slice 3 ! unat (b :: byte) = (crc32_z ^^ 4) (ucast b)"
  "crc32_slice 4 ! unat (b :: byte) = (crc32_z ^^ 5) (ucast b)"
  "crc32_slice 5 ! unat (b :: byte) = (crc32_z ^^ 6) (ucast b)"
  "crc32_slice 6 ! unat (b :: byte) = (crc32_z ^^ 7) (ucast b)"
  "crc32_slice 7 ! unat (b :: byte) = (crc32_z ^^ 8) (ucast b)"
  using crc32_slice_nth [of _ b] by (simp_all only: numeral_eq_Suc pred_numeral_simps One_nat_def BitM.simps)

lemma crc32_slices8:
  "crc32_reg.slices [a, b, c, d, e, f, g, h] =
     (crc32_z ^^ 8) (ucast a) XOR
     (crc32_z ^^ 7) (ucast b) XOR
     (crc32_z ^^ 6) (ucast c) XOR
     (crc32_z ^^ 5) (ucast d) XOR
     (crc32_z ^^ 4) (ucast e) XOR
     (crc32_z ^^ 3) (ucast f) XOR
     (crc32_z ^^ 2) (ucast g) XOR
     (crc32_z ^^ 1) (ucast h)"
  by (simp add: crc32_place_def numeral_eq_Suc xor.assoc del: funpow.simps)

lemma crc32_loop_steps: "crc32_loop p c = foldl (\<lambda>c b. crc32_z (c XOR crc32_place 0 b)) c p"
proof (induction p c rule: crc32_loop.induct)
  case (1 p0 p1 p2 p3 p4 p5 p6 p7 p c)
  let ?s = "\<lambda>c b. crc32_z (c XOR crc32_place 0 b)"
  let ?bs = "[p0, p1, p2, p3, p4, p5, p6, p7]"
  let ?x = "[p0 XOR crc32_ext 0 c, p1 XOR crc32_ext 1 c,
      p2 XOR crc32_ext 2 c, p3 XOR crc32_ext 3 c, p4, p5, p6, p7]"
  have upt: "[0 ..< 4] = [0, 1, 2, 3]" by (simp add: upt_rec)
  have "foldl ?s c ?bs = crc32_reg.slices (map2 (XOR) ?bs
      (map (\<lambda>j. crc32_ext j c) [0 ..< 4] @ replicate (length ?bs - 4) 0))"
    by (rule crc32_reg.slicing) simp
  also have "\<dots> = crc32_reg.slices ?x"
    by (simp add: upt numeral_eq_Suc)
  finally have eq: "foldl ?s c ?bs = crc32_reg.slices ?x" .
  have "crc32_loop (?bs @ p) c = crc32_loop p (crc32_reg.slices ?x)"
    by (simp only: append.simps crc32_loop.simps(1) Let_def unat_and_mask_byte unat_top_byte crc32_slices
        crc32_ext_le ucast_le32_of crc32_slices8)
  moreover have "crc32_loop p (crc32_reg.slices ?x) = foldl ?s (crc32_reg.slices ?x) p"
    using 1 [OF refl refl refl]
    by (simp only: unat_and_mask_byte unat_top_byte crc32_slices crc32_ext_le ucast_le32_of crc32_slices8)
  ultimately have "crc32_loop (?bs @ p) c = foldl ?s c (?bs @ p)"
    by (simp only: eq foldl_append)
  then show ?case by (simp only: append.simps)
qed (simp_all add: crc32_byte_step [abs_def] del: crc32_slice.simps)

lemma crc64_slices:
  "crc64_slice 0 ! unat (b :: byte) = (crc64_z ^^ 1) (push_bit 56 (ucast b))"
  "crc64_slice 1 ! unat (b :: byte) = (crc64_z ^^ 2) (push_bit 56 (ucast b))"
  "crc64_slice 2 ! unat (b :: byte) = (crc64_z ^^ 3) (push_bit 56 (ucast b))"
  "crc64_slice 3 ! unat (b :: byte) = (crc64_z ^^ 4) (push_bit 56 (ucast b))"
  "crc64_slice 4 ! unat (b :: byte) = (crc64_z ^^ 5) (push_bit 56 (ucast b))"
  "crc64_slice 5 ! unat (b :: byte) = (crc64_z ^^ 6) (push_bit 56 (ucast b))"
  "crc64_slice 6 ! unat (b :: byte) = (crc64_z ^^ 7) (push_bit 56 (ucast b))"
  "crc64_slice 7 ! unat (b :: byte) = (crc64_z ^^ 8) (push_bit 56 (ucast b))"
  using crc64_slice_nth [of _ b] by (simp_all only: numeral_eq_Suc pred_numeral_simps One_nat_def BitM.simps)

lemma crc64_slices8:
  "crc64_reg.slices [a, b, c, d, e, f, g, h] =
     (crc64_z ^^ 8) (push_bit 56 (ucast a)) XOR
     (crc64_z ^^ 7) (push_bit 56 (ucast b)) XOR
     (crc64_z ^^ 6) (push_bit 56 (ucast c)) XOR
     (crc64_z ^^ 5) (push_bit 56 (ucast d)) XOR
     (crc64_z ^^ 4) (push_bit 56 (ucast e)) XOR
     (crc64_z ^^ 3) (push_bit 56 (ucast f)) XOR
     (crc64_z ^^ 2) (push_bit 56 (ucast g)) XOR
     (crc64_z ^^ 1) (push_bit 56 (ucast h))"
  by (simp add: crc64_place_def numeral_eq_Suc xor.assoc del: funpow.simps)

lemma byte_and_mask: "k \<le> 56 \<Longrightarrow> v AND push_bit k 0xFF = push_bit k (ucast (ucast (drop_bit k v) :: byte))"
  for v :: u64
proof (rule bit_word_eqI)
  fix n :: nat
  assume k: "k \<le> 56" and n: "n < LENGTH(64)"
  have "(0xFF :: u64) = mask 8" by (simp add: mask_eq_exp_minus_1)
  then have "bit (push_bit k 0xFF :: u64) n \<longleftrightarrow> k \<le> n \<and> n < k + 8"
    using n by (simp only: bit_push_bit_iff bit_mask_iff) auto
  then show "bit (v AND push_bit k 0xFF) n = bit (push_bit k (ucast (ucast (drop_bit k v) :: byte)) :: u64) n"
    using k by (auto simp: bit_byte_of bit_and_iff)
qed

text \<open>A 64-bit word from its bytes, the most significant first.\<close>

definition bytes64 :: "byte \<Rightarrow> byte \<Rightarrow> byte \<Rightarrow> byte \<Rightarrow> byte \<Rightarrow> byte \<Rightarrow> byte \<Rightarrow> byte \<Rightarrow> u64" where
  "bytes64 a b c d e f g h =
     push_bit 56 (ucast a) OR
     push_bit 48 (ucast b) OR
     push_bit 40 (ucast c) OR
     push_bit 32 (ucast d) OR
     push_bit 24 (ucast e) OR
     push_bit 16 (ucast f) OR
     push_bit 8 (ucast g) OR
     ucast h"

lemma bytes64_byte:
  "ucast (drop_bit 56 (bytes64 a b c d e f g h)) = a"
  "ucast (drop_bit 48 (bytes64 a b c d e f g h)) = b"
  "ucast (drop_bit 40 (bytes64 a b c d e f g h)) = c"
  "ucast (drop_bit 32 (bytes64 a b c d e f g h)) = d"
  "ucast (drop_bit 24 (bytes64 a b c d e f g h)) = e"
  "ucast (drop_bit 16 (bytes64 a b c d e f g h)) = f"
  "ucast (drop_bit 8 (bytes64 a b c d e f g h)) = g"
  "ucast (bytes64 a b c d e f g h) = h"
  unfolding bytes64_def
  by (rule bit_word_eqI; auto simp: bit_simps dest: bit_imp_le_length)+

lemma le64_of_bytes64: "le64_of b0 b1 b2 b3 b4 b5 b6 b7 = bytes64 b7 b6 b5 b4 b3 b2 b1 b0"
proof -
  have push: "(ucast (push_bit k (ucast b :: u32)) :: u64) = push_bit k (ucast b)" if "k \<le> 24"
    for k and b :: byte
    using that by (intro bit_word_eqI) (auto simp: bit_simps dest: bit_imp_le_length)
  have keep: "(ucast (ucast b :: u32) :: u64) = ucast b" for b :: byte
    using push [of 0 b] by simp
  have or: "(ucast (x OR y) :: u64) = ucast x OR ucast y" for x y :: u32
    by (rule bit_word_eqI) (auto simp: bit_simps)
  show ?thesis
    by (simp add: le64_of_def u64_of_def le32_of_def u32_of_def bytes64_def or push keep push_bit_or
        push_bit_push_bit or.assoc)
qed

lemma bswap64_bytes64: "bswap64 (bytes64 a b c d e f g h) = bytes64 h g f e d c b a"
proof -
  have masks: "(0x000000000000FF00 :: u64) = push_bit 8 0xFF" "(0x0000000000FF0000 :: u64) = push_bit 16 0xFF"
    "(0x00000000FF000000 :: u64) = push_bit 24 0xFF" "(0x000000FF00000000 :: u64) = push_bit 32 0xFF"
    "(0x0000FF0000000000 :: u64) = push_bit 40 0xFF" "(0x00FF000000000000 :: u64) = push_bit 48 0xFF"
    "(0xFF00000000000000 :: u64) = push_bit 56 0xFF"
    by (simp_all add: push_bit_eq_mult)
  have low: "v AND 0xFF = ucast (ucast v :: byte)" for v :: u64
    using byte_and_mask [of 0 v] by simp
  have drop: "drop_bit i (push_bit j (ucast x :: u64)) = push_bit (j - i) (ucast x)"
    if "i \<le> j" "j \<le> 56" for i j and x :: byte
    using that by (intro bit_word_eqI) (auto simp: bit_simps add.commute dest: bit_imp_le_length)
  show ?thesis
    unfolding bswap64_def masks
    by (simp only: byte_and_mask low bytes64_byte) (simp add: bytes64_def drop push_bit_push_bit or.left_commute or.commute)
qed

text \<open>\<open>bswap64\<close> of a little-endian load is the big-endian value.\<close>

lemma crc64_ext_le:
  "ucast (drop_bit 56 (c XOR bswap64 (le64_of b0 b1 b2 b3 b4 b5 b6 b7))) = b0 XOR crc64_ext 0 c"
  "ucast (drop_bit 48 (c XOR bswap64 (le64_of b0 b1 b2 b3 b4 b5 b6 b7))) = b1 XOR crc64_ext 1 c"
  "ucast (drop_bit 40 (c XOR bswap64 (le64_of b0 b1 b2 b3 b4 b5 b6 b7))) = b2 XOR crc64_ext 2 c"
  "ucast (drop_bit 32 (c XOR bswap64 (le64_of b0 b1 b2 b3 b4 b5 b6 b7))) = b3 XOR crc64_ext 3 c"
  "ucast (drop_bit 24 (c XOR bswap64 (le64_of b0 b1 b2 b3 b4 b5 b6 b7))) = b4 XOR crc64_ext 4 c"
  "ucast (drop_bit 16 (c XOR bswap64 (le64_of b0 b1 b2 b3 b4 b5 b6 b7))) = b5 XOR crc64_ext 5 c"
  "ucast (drop_bit 8 (c XOR bswap64 (le64_of b0 b1 b2 b3 b4 b5 b6 b7))) = b6 XOR crc64_ext 6 c"
  "ucast (c XOR bswap64 (le64_of b0 b1 b2 b3 b4 b5 b6 b7)) = b7 XOR crc64_ext 7 c"
proof -
  have ucast_xor: "(ucast (x XOR y) :: byte) = ucast y XOR ucast x" for x y :: u64
    by (rule bit_word_eqI) (auto simp: bit_simps)
  show "ucast (drop_bit 56 (c XOR bswap64 (le64_of b0 b1 b2 b3 b4 b5 b6 b7))) = b0 XOR crc64_ext 0 c"
    by (simp add: le64_of_bytes64 bswap64_bytes64 drop_bit_xor ucast_xor bytes64_byte crc64_ext_def)
  show "ucast (drop_bit 48 (c XOR bswap64 (le64_of b0 b1 b2 b3 b4 b5 b6 b7))) = b1 XOR crc64_ext 1 c"
    by (simp add: le64_of_bytes64 bswap64_bytes64 drop_bit_xor ucast_xor bytes64_byte crc64_ext_def)
  show "ucast (drop_bit 40 (c XOR bswap64 (le64_of b0 b1 b2 b3 b4 b5 b6 b7))) = b2 XOR crc64_ext 2 c"
    by (simp add: le64_of_bytes64 bswap64_bytes64 drop_bit_xor ucast_xor bytes64_byte crc64_ext_def)
  show "ucast (drop_bit 32 (c XOR bswap64 (le64_of b0 b1 b2 b3 b4 b5 b6 b7))) = b3 XOR crc64_ext 3 c"
    by (simp add: le64_of_bytes64 bswap64_bytes64 drop_bit_xor ucast_xor bytes64_byte crc64_ext_def)
  show "ucast (drop_bit 24 (c XOR bswap64 (le64_of b0 b1 b2 b3 b4 b5 b6 b7))) = b4 XOR crc64_ext 4 c"
    by (simp add: le64_of_bytes64 bswap64_bytes64 drop_bit_xor ucast_xor bytes64_byte crc64_ext_def)
  show "ucast (drop_bit 16 (c XOR bswap64 (le64_of b0 b1 b2 b3 b4 b5 b6 b7))) = b5 XOR crc64_ext 5 c"
    by (simp add: le64_of_bytes64 bswap64_bytes64 drop_bit_xor ucast_xor bytes64_byte crc64_ext_def)
  show "ucast (drop_bit 8 (c XOR bswap64 (le64_of b0 b1 b2 b3 b4 b5 b6 b7))) = b6 XOR crc64_ext 6 c"
    by (simp add: le64_of_bytes64 bswap64_bytes64 drop_bit_xor ucast_xor bytes64_byte crc64_ext_def)
  show "ucast (c XOR bswap64 (le64_of b0 b1 b2 b3 b4 b5 b6 b7)) = b7 XOR crc64_ext 7 c"
    by (simp add: le64_of_bytes64 bswap64_bytes64 drop_bit_xor ucast_xor bytes64_byte crc64_ext_def)
qed

lemma crc64_loop_steps: "crc64_loop p c = foldl (\<lambda>c b. crc64_z (c XOR crc64_place 0 b)) c p"
proof (induction p c rule: crc64_loop.induct)
  case (1 p0 p1 p2 p3 p4 p5 p6 p7 p c)
  let ?s = "\<lambda>c b. crc64_z (c XOR crc64_place 0 b)"
  let ?bs = "[p0, p1, p2, p3, p4, p5, p6, p7]"
  let ?x = "[p0 XOR crc64_ext 0 c, p1 XOR crc64_ext 1 c, p2 XOR crc64_ext 2 c, p3 XOR crc64_ext 3 c,
      p4 XOR crc64_ext 4 c, p5 XOR crc64_ext 5 c, p6 XOR crc64_ext 6 c, p7 XOR crc64_ext 7 c]"
  have upt: "[0 ..< 8] = [0, 1, 2, 3, 4, 5, 6, 7]" by (simp add: upt_rec)
  have "foldl ?s c ?bs = crc64_reg.slices (map2 (XOR) ?bs
      (map (\<lambda>j. crc64_ext j c) [0 ..< 8] @ replicate (length ?bs - 8) 0))"
    by (rule crc64_reg.slicing) simp
  also have "\<dots> = crc64_reg.slices ?x"
    by (simp add: upt del: crc64_reg.slices.simps)
  finally have eq: "foldl ?s c ?bs = crc64_reg.slices ?x" .
  have "crc64_loop (?bs @ p) c = crc64_loop p (crc64_reg.slices ?x)"
    by (simp only: append.simps crc64_loop.simps(1) Let_def crc64_slices crc64_ext_le crc64_slices8)
  moreover have "crc64_loop p (crc64_reg.slices ?x) = foldl ?s (crc64_reg.slices ?x) p"
    using 1 [OF refl refl]
    by (simp only: crc64_slices crc64_ext_le crc64_slices8)
  ultimately have "crc64_loop (?bs @ p) c = foldl ?s c (?bs @ p)"
    by (simp only: eq foldl_append)
  then show ?case by (simp only: append.simps)
qed (simp_all add: crc64_byte_step [abs_def] del: crc64_slice.simps)

section \<open>The specification: polynomial division one bit at a time\<close>

text \<open>
  The textbook shift registers: a register and a message bit give the next register, with the
  polynomial added when the outgoing bit differs from the message bit. \<open>lfsr_right\<close> is the reflected
  form (least significant bit first), \<open>lfsr_left\<close> the direct one.
\<close>

definition lfsr_right :: "'a::len word \<Rightarrow> 'a word \<Rightarrow> bool \<Rightarrow> 'a word" where
  "lfsr_right p c d = drop_bit 1 c XOR (if bit c 0 \<noteq> d then p else 0)"

definition lfsr_left :: "'a::len word \<Rightarrow> 'a word \<Rightarrow> bool \<Rightarrow> 'a word" where
  "lfsr_left p c d = push_bit 1 c XOR (if bit c (LENGTH('a) - 1) \<noteq> d then p else 0)"

definition bits_lsb :: "byte list \<Rightarrow> bool list" where
  "bits_lsb bs = concat (map (\<lambda>b. map (bit b) [0, 1, 2, 3, 4, 5, 6, 7]) bs)"

definition bits_msb :: "byte list \<Rightarrow> bool list" where
  "bits_msb bs = concat (map (\<lambda>b. map (bit b) [7, 6, 5, 4, 3, 2, 1, 0]) bs)"

definition crc8_spec :: "byte list \<Rightarrow> u8 \<Rightarrow> u8" where
  "crc8_spec data init = foldl (lfsr_left 0x1D) init (bits_msb data) XOR 0xFF"

definition crc32_spec :: "byte list \<Rightarrow> u32 \<Rightarrow> u32" where
  "crc32_spec data init = foldl (lfsr_right 0xEDB88320) init (bits_lsb data) XOR 0xFFFFFFFF"

definition crc64_spec :: "byte list \<Rightarrow> u64 \<Rightarrow> u64" where
  "crc64_spec data init =
     foldl (lfsr_left 0x42F0E1EBA9EA3693) init (bits_msb data) XOR 0xFFFFFFFFFFFFFFFF"

lemma lfsr_right_steps:
  fixes c w p :: "'a::len word"
  shows "(\<forall>i. bit w i \<longrightarrow> i < n) \<Longrightarrow>
    foldl (lfsr_right p) c (map (bit w) [0 ..< n]) = ((\<lambda>x. lfsr_right p x False) ^^ n) (c XOR w)"
proof (induction n arbitrary: c w)
  case 0
  then have "w = 0" by (intro bit_word_eqI) simp
  then show ?case by simp
next
  case (Suc n)
  have step: "lfsr_right p c (bit w 0) XOR drop_bit 1 w = lfsr_right p (c XOR w) False"
    by (auto simp: lfsr_right_def drop_bit_xor bit_xor_iff xor.assoc xor.left_commute xor.commute)
  have "map (bit w) [0 ..< Suc n] = bit w 0 # map (bit (drop_bit 1 w)) [0 ..< n]"
    by (simp add: map_upt_Suc bit_drop_bit_eq del: upt_Suc)
  moreover have "\<forall>i. bit (drop_bit 1 w) i \<longrightarrow> i < n"
    using Suc.prems by (auto simp: bit_drop_bit_eq)
  ultimately show ?case
    using Suc.IH [of "drop_bit 1 w" "lfsr_right p c (bit w 0)"]
    by (simp only: foldl.simps step funpow_Suc_right o_apply)
qed

lemma lfsr_left_steps:
  fixes c w p :: "'a::len word"
  shows "n \<le> LENGTH('a) \<Longrightarrow> (\<forall>i. bit w i \<longrightarrow> LENGTH('a) \<le> i + n) \<Longrightarrow>
    foldl (lfsr_left p) c (map (\<lambda>i. bit w (LENGTH('a) - 1 - i)) [0 ..< n]) =
    ((\<lambda>x. lfsr_left p x False) ^^ n) (c XOR w)"
proof (induction n arbitrary: c w)
  case 0
  then have "w = 0" by (intro bit_word_eqI) auto
  then show ?case by simp
next
  case (Suc n)
  let ?top = "LENGTH('a) - 1"
  have step: "lfsr_left p c (bit w ?top) XOR push_bit 1 w = lfsr_left p (c XOR w) False"
    by (auto simp: lfsr_left_def push_bit_xor bit_xor_iff xor.assoc xor.left_commute xor.commute)
  define v where "v = push_bit 1 w"
  have v: "bit v i \<longleftrightarrow> 0 < i \<and> i < LENGTH('a) \<and> bit w (i - 1)" for i
    unfolding v_def bit_push_bit_iff by auto
  have "map (\<lambda>i. bit w (?top - i)) [0 ..< Suc n] = bit w ?top # map (\<lambda>i. bit v (?top - i)) [0 ..< n]"
    using Suc.prems(1) by (auto simp: map_upt_Suc v simp del: upt_Suc)
  moreover have "foldl (lfsr_left p) (lfsr_left p c (bit w ?top)) (map (\<lambda>i. bit v (?top - i)) [0 ..< n]) =
      ((\<lambda>x. lfsr_left p x False) ^^ n) (lfsr_left p c (bit w ?top) XOR v)"
    by (rule Suc.IH) (use Suc.prems in \<open>auto simp: v\<close>)
  ultimately show ?case
    by (simp only: v_def foldl.simps step funpow_Suc_right o_apply)
qed

lemma upt_8: "[0 ..< 8] = [0, 1, 2, 3, 4, 5, 6, 7]"
  by (simp add: upt_rec)

lemma crc_shift_lfsr:
  "crc8_shift = (\<lambda>x. lfsr_left 0x1D x False)"
  "crc32_shift = (\<lambda>x. lfsr_right 0xEDB88320 x False)"
  "crc64_shift = (\<lambda>x. lfsr_left 0x42F0E1EBA9EA3693 x False)"
  by (auto simp: crc8_shift_alt crc32_shift_alt crc64_shift_alt lfsr_left_def lfsr_right_def)

lemma crc8_byte_lfsr:
  "foldl (lfsr_left 0x1D) c (map (bit b) [7, 6, 5, 4, 3, 2, 1, 0]) = crc8_z (c XOR crc8_place 0 b)"
  using lfsr_left_steps [of 8 b "0x1D" c] bit_imp_le_length [of b]
  by (simp add: upt_8 crc8_z_def crc_shift_lfsr crc8_place_def)

lemma crc32_byte_lfsr:
  "foldl (lfsr_right 0xEDB88320) c (map (bit b) [0, 1, 2, 3, 4, 5, 6, 7]) =
   crc32_z (c XOR crc32_place 0 b)"
  using lfsr_right_steps [of "ucast b" 8 "0xEDB88320" c] bit_imp_le_length [of b]
  by (simp add: upt_8 crc32_z_def crc_shift_lfsr crc32_place_def bit_unsigned_iff)

lemma crc64_byte_lfsr:
  "foldl (lfsr_left 0x42F0E1EBA9EA3693) c (map (bit b) [7, 6, 5, 4, 3, 2, 1, 0]) =
   crc64_z (c XOR crc64_place 0 b)"
  using lfsr_left_steps [of 8 "push_bit 56 (ucast b)" "0x42F0E1EBA9EA3693" c]
  by (simp add: upt_8 crc64_z_def crc_shift_lfsr crc64_place_def bit_push_bit_iff bit_unsigned_iff)

lemma foldl_concat_map: "foldl f c (concat (map g xs)) = foldl (\<lambda>c x. foldl f c (g x)) c xs"
  by (induction xs arbitrary: c) simp_all

lemma crc8_spec_steps:
  "crc8_spec data init = foldl (\<lambda>c b. crc8_z (c XOR crc8_place 0 b)) init data XOR 0xFF"
  by (simp only: crc8_spec_def bits_msb_def foldl_concat_map crc8_byte_lfsr)

lemma crc32_spec_steps:
  "crc32_spec data init = foldl (\<lambda>c b. crc32_z (c XOR crc32_place 0 b)) init data XOR 0xFFFFFFFF"
  by (simp only: crc32_spec_def bits_lsb_def foldl_concat_map crc32_byte_lfsr)

lemma crc64_spec_steps:
  "crc64_spec data init =
   foldl (\<lambda>c b. crc64_z (c XOR crc64_place 0 b)) init data XOR 0xFFFFFFFFFFFFFFFF"
  by (simp only: crc64_spec_def bits_msb_def foldl_concat_map crc64_byte_lfsr)

lemma crc32_fast_steps:
  "crc32_fast data init = foldl (\<lambda>c b. crc32_z (c XOR crc32_place 0 b)) init data XOR 0xFFFFFFFF"
  by (simp add: crc32_fast_def crc32_loop_steps)

lemma crc64_fast_steps:
  "crc64_fast data init =
   foldl (\<lambda>c b. crc64_z (c XOR crc64_place 0 b)) init data XOR 0xFFFFFFFFFFFFFFFF"
  by (simp add: crc64_fast_def crc64_loop_steps)

lemma crc32_consteval_steps:
  "crc32_consteval data init =
   foldl (\<lambda>c b. crc32_z (c XOR crc32_place 0 b)) init data XOR 0xFFFFFFFF"
proof -
  have "crc32_table ! unat ((c XOR ucast b) AND 0xFF) XOR drop_bit 8 c = crc32_z (c XOR crc32_place 0 b)"
    for c b
    using crc32_byte_step [of c b] by (simp add: crc32_byte_def)
  then show ?thesis by (simp only: crc32_consteval_def)
qed

lemma crc64_consteval_steps:
  "crc64_consteval data init =
   foldl (\<lambda>c b. crc64_z (c XOR crc64_place 0 b)) init data XOR 0xFFFFFFFFFFFFFFFF"
proof -
  have "crc64_table ! unat (ucast (drop_bit 56 c XOR ucast b) :: u8) XOR push_bit 8 c =
      crc64_z (c XOR crc64_place 0 b)" for c b
    using crc64_byte_step [of c b] by (simp add: crc64_byte_def)
  then show ?thesis by (simp only: crc64_consteval_def)
qed

text \<open>C5. The CRC-32 the library computes at run time (slicing-by-8 with the byte-at-a-time
  remainder), the one it computes at compile time, and the bit-by-bit division by the reflected
  Ethernet polynomial are the same function of every message and every start value.\<close>

theorem crc32_implementations:
  "crc32_ethernet data init = crc32_spec data init \<and> crc32_consteval data init = crc32_spec data init"
  by (simp add: crc32_ethernet_def crc32_fast_steps crc32_consteval_steps crc32_spec_steps)

text \<open>C6. The same for CRC-64, whose fast path loads eight bytes little-endian and swaps them.\<close>

theorem crc64_implementations:
  "crc64 data init = crc64_spec data init \<and> crc64_consteval data init = crc64_spec data init"
  by (simp add: crc64_def crc64_fast_steps crc64_consteval_steps crc64_spec_steps)

text \<open>The table-driven CRC-8 is the bit-by-bit division by the SAE J1850 polynomial.\<close>

theorem crc8_implementation: "crc8_sae_j1850 data init = crc8_spec data init"
  by (simp add: crc8_steps crc8_spec_steps)

section \<open>Error detection\<close>

lemma xor_right_inject: "x XOR m = y XOR m \<longleftrightarrow> x = y" for x y m :: "'a::len word"
  by (metis xor.assoc xor_self_eq xor.right_neutral)

lemma crc8_burst:
  "length d = length e \<Longrightarrow> length d \<le> 1 \<Longrightarrow>
   crc8_sae_j1850 (xs @ d @ ys) i = crc8_sae_j1850 (xs @ e @ ys) i \<Longrightarrow> d = e"
  unfolding crc8_steps xor_right_inject by (rule crc8_reg.burst_detected)

lemma crc32_burst:
  "length d = length e \<Longrightarrow> length d \<le> 4 \<Longrightarrow>
   crc32_ethernet (xs @ d @ ys) i = crc32_ethernet (xs @ e @ ys) i \<Longrightarrow> d = e"
  unfolding crc32_ethernet_def crc32_fast_steps xor_right_inject by (rule crc32_reg.burst_detected)

lemma crc64_burst:
  "length d = length e \<Longrightarrow> length d \<le> 8 \<Longrightarrow>
   crc64 (xs @ d @ ys) i = crc64 (xs @ e @ ys) i \<Longrightarrow> d = e"
  unfolding crc64_def crc64_fast_steps xor_right_inject by (rule crc64_reg.burst_detected)

text \<open>Every corruption confined to at most one byte changes the CRC-8, to at most four
  consecutive bytes the CRC-32, to at most eight the CRC-64, whatever surrounds it.\<close>

theorem crc_detects_bursts:
  assumes "length d = length e" and "d \<noteq> e"
  shows "(length d \<le> 1 \<longrightarrow> crc8_sae_j1850 (xs @ d @ ys) u \<noteq> crc8_sae_j1850 (xs @ e @ ys) u) \<and>
    (length d \<le> 4 \<longrightarrow> crc32_ethernet (xs @ d @ ys) v \<noteq> crc32_ethernet (xs @ e @ ys) v) \<and>
    (length d \<le> 8 \<longrightarrow> crc64 (xs @ d @ ys) w \<noteq> crc64 (xs @ e @ ys) w)"
  using assms crc8_burst crc32_burst crc64_burst by metis

lemma crc_detects_bursts_witness:
  "crc8_sae_j1850 [1, 2, 3] 0xFF \<noteq> crc8_sae_j1850 [1, 5, 3] 0xFF"
  using crc_detects_bursts [of "[2]" "[5]" "[1]" "[3]" "0xFF"] by simp

text \<open>The published check values of the three CRCs, on the nine bytes of the ASCII string
  123456789 with all-ones start values.\<close>

theorem crc_check_values:
  "crc8_sae_j1850 [0x31, 0x32, 0x33, 0x34, 0x35, 0x36, 0x37, 0x38, 0x39] 0xFF = 0x4B \<and>
   crc32_ethernet [0x31, 0x32, 0x33, 0x34, 0x35, 0x36, 0x37, 0x38, 0x39] 0xFFFFFFFF = 0xCBF43926 \<and>
   crc64 [0x31, 0x32, 0x33, 0x34, 0x35, 0x36, 0x37, 0x38, 0x39] 0xFFFFFFFFFFFFFFFF = 0x62EC59E3F1A4F00A"
proof -
  have "crc8_spec [0x31, 0x32, 0x33, 0x34, 0x35, 0x36, 0x37, 0x38, 0x39] 0xFF = 0x4B" by code_simp
  moreover have "crc32_spec [0x31, 0x32, 0x33, 0x34, 0x35, 0x36, 0x37, 0x38, 0x39] 0xFFFFFFFF =
    0xCBF43926" by code_simp
  moreover have "crc64_spec [0x31, 0x32, 0x33, 0x34, 0x35, 0x36, 0x37, 0x38, 0x39]
    0xFFFFFFFFFFFFFFFF = 0x62EC59E3F1A4F00A" by code_simp
  ultimately show ?thesis
    by (simp add: crc8_steps crc32_ethernet_def crc64_def crc32_fast_steps crc64_fast_steps
        crc8_spec_steps crc32_spec_steps crc64_spec_steps del: foldl_Cons)
qed

end
