(* ===== verification/E2E_Profiles.thy ===== *)
theory E2E_Profiles
  imports Crc
begin

text \<open>
  \<open>e2e/profile.hpp\<close>: the AUTOSAR E2E profiles 01, 02, 04 and 07. Each has a configuration record,
  \<open>protect\<close> (write counter, identity and CRC into the payload) and \<open>check\<close> (a verdict and the
  new last counter, which C++ returns through a reference). Indexing a span is \<open>peek\<close>/\<open>poke\<close>.
\<close>

datatype e2e_result = E2e_ok | Wrong_crc | Wrong_sequence | Repeated | No_new_data | E2e_error

text \<open>The counter verdict every profile computes from the distance to the last counter.\<close>

definition delta_verdict :: "'a::len word \<Rightarrow> 'a word \<Rightarrow> e2e_result" where
  "delta_verdict delta max_delta =
     (if delta = 0 then Repeated
      else if delta \<le> max_delta then E2e_ok
      else Wrong_sequence)"

section \<open>Profile 01\<close>

record profile_01_config =
  p01_data_id :: u16
  p01_crc_offset :: u16
  p01_counter_offset :: u16
  p01_data_id_mode :: u16
  p01_max_delta :: u16

definition profile_01_default :: profile_01_config where
  "profile_01_default =
     \<lparr>p01_data_id = 0, p01_crc_offset = 0, p01_counter_offset = 1, p01_data_id_mode = 0,
      p01_max_delta = 1\<rparr>"

definition id_bytes :: "u16 \<Rightarrow> byte list" where
  "id_bytes data_id = [ucast (drop_bit 8 data_id), ucast (data_id AND 0xFF)]"

text \<open>The CRC over the data id and all payload bytes but the one at the CRC position: each byte
  un-finalises the CRC so far and feeds itself.\<close>

definition p01_crc :: "byte list \<Rightarrow> profile_01_config \<Rightarrow> u8" where
  "p01_crc payload cfg =
     foldl (\<lambda>crc i. if i = unat (p01_crc_offset cfg) then crc
                     else crc8_sae_j1850 [payload ! i] (crc XOR 0xFF))
       (crc8_sae_j1850 (id_bytes (p01_data_id cfg)) 0xFF) [0 ..< length payload]"

definition p01_protect :: "byte list \<Rightarrow> profile_01_config \<Rightarrow> u8 \<Rightarrow> byte list option" where
  "p01_protect payload cfg counter =
     (if length payload < 2 then Some payload
      else do {
        counter_byte \<leftarrow> peek payload (unat (p01_counter_offset cfg));
        payload \<leftarrow> poke payload (unat (p01_counter_offset cfg))
                    ((counter_byte AND 0xF0) OR (counter AND 0x0F));
        payload \<leftarrow> poke payload (unat (p01_crc_offset cfg)) 0;
        poke payload (unat (p01_crc_offset cfg)) (p01_crc payload cfg)
      })"

definition p01_check :: "byte list \<Rightarrow> profile_01_config \<Rightarrow> u8 \<Rightarrow> (e2e_result \<times> u8) option" where
  "p01_check payload cfg last_counter =
     (if length payload < 2 then Some (E2e_error, last_counter)
      else do {
        counter_byte \<leftarrow> peek payload (unat (p01_counter_offset cfg));
        let recv_counter = counter_byte AND 0x0F;
        let crc = p01_crc payload cfg;
        recv_crc \<leftarrow> peek payload (unat (p01_crc_offset cfg));
        if crc \<noteq> recv_crc then Some (Wrong_crc, last_counter)
        else do {
          let delta = (recv_counter - last_counter) AND 0x0F;
          Some (delta_verdict (ucast delta) (p01_max_delta cfg), recv_counter)
        }
      })"

section \<open>Profile 02\<close>

record profile_02_config =
  p02_data_id_list :: "u8 list"
  p02_max_delta :: u16

definition profile_02_default :: profile_02_config where
  "profile_02_default = \<lparr>p02_data_id_list = replicate 16 0, p02_max_delta = 1\<rparr>"

definition p02_crc :: "byte list \<Rightarrow> u8 \<Rightarrow> u8" where
  "p02_crc payload data_id =
     foldl (\<lambda>crc i. crc8_sae_j1850 [payload ! i] (crc XOR 0xFF))
       (crc8_sae_j1850 [data_id] 0xFF) [1 ..< length payload]"

definition p02_protect :: "byte list \<Rightarrow> profile_02_config \<Rightarrow> u8 \<Rightarrow> byte list option" where
  "p02_protect payload cfg counter =
     (if length payload < 2 then Some payload
      else do {
        b1 \<leftarrow> peek payload 1;
        payload \<leftarrow> poke payload 1 ((b1 AND 0xF0) OR (counter AND 0x0F));
        payload \<leftarrow> poke payload 0 0;
        data_id \<leftarrow> peek (p02_data_id_list cfg) (unat (counter AND 0x0F));
        poke payload 0 (p02_crc payload data_id)
      })"

definition p02_check :: "byte list \<Rightarrow> profile_02_config \<Rightarrow> u8 \<Rightarrow> (e2e_result \<times> u8) option" where
  "p02_check payload cfg last_counter =
     (if length payload < 2 then Some (E2e_error, last_counter)
      else do {
        b1 \<leftarrow> peek payload 1;
        let recv_counter = b1 AND 0x0F;
        data_id \<leftarrow> peek (p02_data_id_list cfg) (unat (recv_counter AND 0x0F));
        let crc = p02_crc payload data_id;
        recv_crc \<leftarrow> peek payload 0;
        if crc \<noteq> recv_crc then Some (Wrong_crc, last_counter)
        else do {
          let delta = (recv_counter - last_counter) AND 0x0F;
          Some (delta_verdict (ucast delta) (p02_max_delta cfg), recv_counter)
        }
      })"

section \<open>Profile 04\<close>

record profile_04_config =
  p04_data_id :: u32
  p04_min_data_length :: u16
  p04_max_data_length :: u16
  p04_max_delta :: u16

definition profile_04_default :: profile_04_config where
  "profile_04_default =
     \<lparr>p04_data_id = 0, p04_min_data_length = 12, p04_max_data_length = 4096, p04_max_delta = 1\<rparr>"

definition p04_header_size :: nat where "p04_header_size = 12"

text \<open>The profile has big-endian accessors of its own, which are those of \<open>wire/header.hpp\<close>.\<close>

definition p04_write_u16_be :: "byte list \<Rightarrow> nat \<Rightarrow> u16 \<Rightarrow> byte list option" where
  "p04_write_u16_be m p v = do {
     m \<leftarrow> poke m p (ucast (drop_bit 8 v));
     poke m (p + 1) (ucast v)
   }"

definition p04_write_u32_be :: "byte list \<Rightarrow> nat \<Rightarrow> u32 \<Rightarrow> byte list option" where
  "p04_write_u32_be m p v = do {
     m \<leftarrow> poke m p (ucast (drop_bit 24 v));
     m \<leftarrow> poke m (p + 1) (ucast (drop_bit 16 v));
     m \<leftarrow> poke m (p + 2) (ucast (drop_bit 8 v));
     poke m (p + 3) (ucast v)
   }"

definition p04_read_u16_be :: "byte list \<Rightarrow> nat \<Rightarrow> u16 option" where
  "p04_read_u16_be m p = do {
     b0 \<leftarrow> peek m p;
     b1 \<leftarrow> peek m (p + 1);
     Some (ucast (push_bit 8 (ucast b0 :: u32) OR (ucast b1 :: u32)))
   }"

definition p04_read_u32_be :: "byte list \<Rightarrow> nat \<Rightarrow> u32 option" where
  "p04_read_u32_be m p = do {
     b0 \<leftarrow> peek m p;
     b1 \<leftarrow> peek m (p + 1);
     b2 \<leftarrow> peek m (p + 2);
     b3 \<leftarrow> peek m (p + 3);
     Some (push_bit 24 (ucast b0) OR push_bit 16 (ucast b1) OR push_bit 8 (ucast b2) OR ucast b3)
   }"

lemma p04_accessors [simp]:
  "p04_write_u16_be = write_u16_be" "p04_write_u32_be = write_u32_be"
  "p04_read_u16_be = read_u16_be" "p04_read_u32_be = read_u32_be"
  by (intro ext; simp add: p04_write_u16_be_def write_u16_be_def p04_write_u32_be_def write_u32_be_def
      p04_read_u16_be_def read_u16_be_def p04_read_u32_be_def read_u32_be_def)+

definition p04_protect :: "byte list \<Rightarrow> profile_04_config \<Rightarrow> u16 \<Rightarrow> byte list option" where
  "p04_protect payload cfg counter =
     (if length payload < p04_header_size then Some payload
      else do {
        payload \<leftarrow> p04_write_u16_be payload 0 (of_nat (length payload));
        payload \<leftarrow> p04_write_u16_be payload 2 counter;
        payload \<leftarrow> p04_write_u32_be payload 4 (p04_data_id cfg);
        payload \<leftarrow> p04_write_u32_be payload 8 0;
        let crc = crc32_ethernet payload 0xFFFFFFFF;
        p04_write_u32_be payload 8 crc
      })"

definition p04_check :: "byte list \<Rightarrow> profile_04_config \<Rightarrow> u16 \<Rightarrow> (e2e_result \<times> u16) option" where
  "p04_check payload cfg last_counter =
     (if length payload < p04_header_size then Some (E2e_error, last_counter)
      else do {
        recv_len \<leftarrow> p04_read_u16_be payload 0;
        if unat recv_len \<noteq> length payload then Some (E2e_error, last_counter)
        else do {
          recv_counter \<leftarrow> p04_read_u16_be payload 2;
          recv_data_id \<leftarrow> p04_read_u32_be payload 4;
          if recv_data_id \<noteq> p04_data_id cfg then Some (Wrong_crc, last_counter)
          else do {
            recv_crc \<leftarrow> p04_read_u32_be payload 8;
            buf \<leftarrow> store payload 8 (replicate 4 0);
            let crc = crc32_ethernet buf 0xFFFFFFFF;
            if crc \<noteq> recv_crc then Some (Wrong_crc, last_counter)
            else Some (delta_verdict (recv_counter - last_counter) (p04_max_delta cfg), recv_counter)
          }
        }
      })"

section \<open>Profile 07\<close>

record profile_07_config =
  p07_data_id :: u32
  p07_min_data_length :: u32
  p07_max_data_length :: u32
  p07_max_delta :: u32

definition profile_07_default :: profile_07_config where
  "profile_07_default =
     \<lparr>p07_data_id = 0, p07_min_data_length = 20, p07_max_data_length = 65536, p07_max_delta = 1\<rparr>"

definition p07_header_size :: nat where "p07_header_size = 20"

definition p07_write_u32_be :: "byte list \<Rightarrow> nat \<Rightarrow> u32 \<Rightarrow> byte list option" where
  "p07_write_u32_be m p v = do {
     m \<leftarrow> poke m p (ucast (drop_bit 24 v));
     m \<leftarrow> poke m (p + 1) (ucast (drop_bit 16 v));
     m \<leftarrow> poke m (p + 2) (ucast (drop_bit 8 v));
     poke m (p + 3) (ucast v)
   }"

definition p07_read_u32_be :: "byte list \<Rightarrow> nat \<Rightarrow> u32 option" where
  "p07_read_u32_be m p = do {
     b0 \<leftarrow> peek m p;
     b1 \<leftarrow> peek m (p + 1);
     b2 \<leftarrow> peek m (p + 2);
     b3 \<leftarrow> peek m (p + 3);
     Some (push_bit 24 (ucast b0) OR push_bit 16 (ucast b1) OR push_bit 8 (ucast b2) OR ucast b3)
   }"

lemma p07_accessors [simp]:
  "p07_write_u32_be = write_u32_be" "p07_read_u32_be = read_u32_be"
  by (intro ext; simp add: p07_write_u32_be_def write_u32_be_def p07_read_u32_be_def read_u32_be_def)+

text \<open>The loops over the eight bytes of a \<open>std::uint64_t\<close>.\<close>

definition write_u64_be :: "byte list \<Rightarrow> nat \<Rightarrow> u64 \<Rightarrow> byte list option" where
  "write_u64_be m p v =
     foldl (\<lambda>acc i. do { m \<leftarrow> acc; poke m (p + (7 - i)) (ucast (drop_bit (i * 8) v)) })
       (Some m) [7, 6, 5, 4, 3, 2, 1, 0]"

definition read_u64_be :: "byte list \<Rightarrow> nat \<Rightarrow> u64 option" where
  "read_u64_be m p =
     foldl (\<lambda>acc i. do { v \<leftarrow> acc; b \<leftarrow> peek m (p + i); Some (push_bit 8 v OR ucast b) })
       (Some 0) [0, 1, 2, 3, 4, 5, 6, 7]"

definition p07_protect :: "byte list \<Rightarrow> profile_07_config \<Rightarrow> u32 \<Rightarrow> byte list option" where
  "p07_protect payload cfg counter =
     (if length payload < p07_header_size then Some payload
      else do {
        payload \<leftarrow> p07_write_u32_be payload 0 (of_nat (length payload));
        payload \<leftarrow> p07_write_u32_be payload 4 counter;
        payload \<leftarrow> p07_write_u32_be payload 8 (p07_data_id cfg);
        payload \<leftarrow> store payload 12 (replicate 8 0);
        let c = crc64 payload 0xFFFFFFFFFFFFFFFF;
        write_u64_be payload 12 c
      })"

definition p07_check :: "byte list \<Rightarrow> profile_07_config \<Rightarrow> u32 \<Rightarrow> (e2e_result \<times> u32) option" where
  "p07_check payload cfg last_counter =
     (if length payload < p07_header_size then Some (E2e_error, last_counter)
      else do {
        recv_len \<leftarrow> p07_read_u32_be payload 0;
        if unat recv_len \<noteq> length payload then Some (E2e_error, last_counter)
        else do {
          recv_counter \<leftarrow> p07_read_u32_be payload 4;
          recv_data_id \<leftarrow> p07_read_u32_be payload 8;
          if recv_data_id \<noteq> p07_data_id cfg then Some (Wrong_crc, last_counter)
          else do {
            recv_crc \<leftarrow> read_u64_be payload 12;
            buf \<leftarrow> store payload 12 (replicate 8 0);
            let c = crc64 buf 0xFFFFFFFFFFFFFFFF;
            if c \<noteq> recv_crc then Some (Wrong_crc, last_counter)
            else Some (delta_verdict (recv_counter - last_counter) (p07_max_delta cfg), recv_counter)
          }
        }
      })"

end
