(* ===== verification/E2E_Protector.thy ===== *)
theory E2E_Protector
  imports E2E_Profiles Wire_Header
begin

text \<open>
  \<open>e2e/protector.hpp\<close>: the \<open>protect\<close> and \<open>check\<close> sender adaptors. The template parameter
  \<open>Profile\<close> and its configuration are a \<open>e2e_config\<close>, the \<open>if constexpr\<close> chains a case distinction
  on it; \<open>e2e_state\<close> holds the counters. An inner receiver turns the signal it gets from
  upstream into the one it sends downstream: value, error or stopped. Errors other than
  \<open>e2e_error\<close> are upstream's exception, which the adaptor passes on.
\<close>

datatype e2e_config =
    P01 profile_01_config
  | P02 profile_02_config
  | P04 profile_04_config
  | P07 profile_07_config

record e2e_state =
  e2e_config :: e2e_config
  send_counter :: u32
  recv_counter :: u32

definition e2e_state_init :: "e2e_config \<Rightarrow> e2e_state" where
  "e2e_state_init cfg = \<lparr>e2e_config = cfg, send_counter = 1, recv_counter = 0\<rparr>"

text \<open>What an operation completes with; an error carries the exception.\<close>

datatype 'e exception = E2e_error_exception e2e_result | Upstream_exception 'e

datatype 'e signal = Set_value "byte list" | Set_error "'e exception" | Set_stopped

definition protect_payload :: "e2e_config \<Rightarrow> byte list \<Rightarrow> u32 \<Rightarrow> byte list option" where
  "protect_payload cfg payload counter =
     (case cfg of
        P01 c \<Rightarrow> p01_protect payload c (ucast (counter AND 0x0F))
      | P02 c \<Rightarrow> p02_protect payload c (ucast (counter AND 0x0F))
      | P04 c \<Rightarrow> p04_protect payload c (ucast counter)
      | P07 c \<Rightarrow> p07_protect payload c counter)"

definition protect_set_value ::
    "e2e_state \<Rightarrow> byte list \<Rightarrow> (e2e_state \<times> 'e signal) option" where
  "protect_set_value st msg =
     (if header_size < length msg
      then do {
        payload \<leftarrow> subspan_from msg header_size;
        payload \<leftarrow> protect_payload (e2e_config st) payload (send_counter st);
        msg \<leftarrow> store msg header_size payload;
        let st = st\<lparr>send_counter := send_counter st + 1\<rparr>;
        msg \<leftarrow> set_payload_length msg (of_nat (length payload));
        Some (st, Set_value msg)
      }
      else Some (st, Set_value msg))"

definition protect_receiver :: "e2e_state \<Rightarrow> 'e signal \<Rightarrow> (e2e_state \<times> 'e signal) option" where
  "protect_receiver st s =
     (case s of
        Set_value msg \<Rightarrow> protect_set_value st msg
      | Set_error e \<Rightarrow> Some (st, Set_error e)
      | Set_stopped \<Rightarrow> Some (st, Set_stopped))"

text \<open>\<open>Profile::check\<close> on the state's counter: the narrower profiles go through a local copy.\<close>

definition check_payload :: "e2e_config \<Rightarrow> byte list \<Rightarrow> u32 \<Rightarrow> (e2e_result \<times> u32) option" where
  "check_payload cfg payload counter =
     (case cfg of
        P01 c \<Rightarrow> do { (res, cnt) \<leftarrow> p01_check payload c (ucast counter); Some (res, ucast cnt) }
      | P02 c \<Rightarrow> do { (res, cnt) \<leftarrow> p02_check payload c (ucast counter); Some (res, ucast cnt) }
      | P04 c \<Rightarrow> do { (res, cnt) \<leftarrow> p04_check payload c (ucast counter); Some (res, ucast cnt) }
      | P07 c \<Rightarrow> p07_check payload c counter)"

definition check_set_value ::
    "e2e_state \<Rightarrow> byte list \<Rightarrow> (e2e_state \<times> 'e signal) option" where
  "check_set_value st msg =
     (if length msg \<le> header_size then Some (st, Set_error (E2e_error_exception E2e_error))
      else do {
        payload \<leftarrow> subspan_from msg header_size;
        (res, cnt) \<leftarrow> check_payload (e2e_config st) payload (recv_counter st);
        let st = st\<lparr>recv_counter := cnt\<rparr>;
        if res = E2e_ok \<or> res = No_new_data then Some (st, Set_value msg)
        else Some (st, Set_error (E2e_error_exception res))
      })"

definition check_receiver :: "e2e_state \<Rightarrow> 'e signal \<Rightarrow> (e2e_state \<times> 'e signal) option" where
  "check_receiver st s =
     (case s of
        Set_value msg \<Rightarrow> check_set_value st msg
      | Set_error e \<Rightarrow> Some (st, Set_error e)
      | Set_stopped \<Rightarrow> Some (st, Set_stopped))"

end
