(* ===== verification/E2E_Correct.thy ===== *)
theory E2E_Correct
  imports E2E_Protector Crc_Correct
begin

text \<open>
  The contract of an E2E profile and what the \<open>protect | check\<close> pipeline builds on it. The locale
  \<open>e2e_profile\<close> is the interface the pipeline uses: what a protected payload checks to, and that
  a corrupted one is rejected. It is interpreted once, on the profile dispatch of
  \<open>e2e/protector.hpp\<close>, from the closed forms of the four profiles proved here.
\<close>

section \<open>Counters\<close>

lemma and_mask_take_bit:
  "x AND 0x0F = take_bit 4 x" "y AND 0x0F = take_bit 4 y" for x :: u8 and y :: u32
  by (simp_all add: take_bit_eq_mask mask_eq_exp_minus_1)

lemma ucast_zero_iff: "LENGTH('a::len) \<le> LENGTH('b::len) \<Longrightarrow> (ucast (x :: 'a word) :: 'b word) = 0 \<longleftrightarrow> x = 0"
  by (metis unat_eq_zero unat_ucast_up)

lemma ucast_le_iff:
  "LENGTH('a::len) \<le> LENGTH('b::len) \<Longrightarrow> (ucast (x :: 'a word) :: 'b word) \<le> ucast y \<longleftrightarrow> x \<le> y"
  by (simp add: word_le_nat_alt unat_ucast_up)

lemma delta_verdict_ucast:
  "LENGTH('a::len) \<le> LENGTH('b::len) \<Longrightarrow>
   delta_verdict (ucast (d :: 'a word) :: 'b word) (ucast m) = delta_verdict d m"
  by (simp add: delta_verdict_def ucast_zero_iff ucast_le_iff)

section \<open>Profile 01 and 02: the CRC as one pass\<close>

lemma crc8_continue:
  "crc8_sae_j1850 [b] (crc8_sae_j1850 xs i XOR 0xFF) = crc8_sae_j1850 (xs @ [b]) i"
  by (simp add: crc8_steps xor.assoc)

lemma crc8_foldl:
  "foldl (\<lambda>crc i. if i = k then crc else crc8_sae_j1850 [xs ! i] (crc XOR 0xFF)) (crc8_sae_j1850 ys c) is =
   crc8_sae_j1850 (ys @ map ((!) xs) (filter (\<lambda>i. i \<noteq> k) is)) c"
proof (induction "is" arbitrary: ys)
  case (Cons i "is")
  show ?case using Cons [of ys] Cons [of "ys @ [xs ! i]"] by (simp add: crc8_continue)
qed simp

lemma map_nth_skip:
  assumes "k < length xs"
  shows "map ((!) xs) (filter (\<lambda>i. i \<noteq> k) [0 ..< length xs]) = take k xs @ drop (Suc k) xs"
proof -
  have "[0 ..< length xs] = [0 ..< k] @ [k ..< length xs]"
    using assms upt_add_eq_append [of 0 k "length xs - k"] by simp
  also have "[k ..< length xs] = k # [Suc k ..< length xs]"
    using assms by (rule upt_conv_Cons)
  finally have "filter (\<lambda>i. i \<noteq> k) [0 ..< length xs] = [0 ..< k] @ [Suc k ..< length xs]"
    by (simp add: filter_id_conv)
  then show ?thesis
    using assms by (auto simp: intro!: nth_equalityI simp: nth_append)
qed

lemma p01_crc_eq:
  assumes "unat (p01_crc_offset cfg) < length p"
  shows "p01_crc p cfg = crc8_sae_j1850 (id_bytes (p01_data_id cfg) @ take (unat (p01_crc_offset cfg)) p @
    drop (Suc (unat (p01_crc_offset cfg))) p) 0xFF"
  using assms by (simp add: p01_crc_def crc8_foldl map_nth_skip)

lemma p02_crc_eq: "p02_crc p d = crc8_sae_j1850 (d # drop 1 p) 0xFF"
proof -
  have idx: "map ((!) p) (filter (\<lambda>i. i \<noteq> 0) [1 ..< length p]) = drop 1 p"
    by (auto intro!: nth_equalityI simp: filter_id_conv)
  have "p02_crc p d = foldl (\<lambda>crc i. if i = 0 then crc else crc8_sae_j1850 [p ! i] (crc XOR 0xFF))
      (crc8_sae_j1850 [d] 0xFF) [1 ..< length p]"
    unfolding p02_crc_def by (rule foldl_cong) auto
  also have "\<dots> = crc8_sae_j1850 (d # drop 1 p) 0xFF"
    using crc8_foldl [of 0 p "[d]" "0xFF" "[1 ..< length p]"] idx by simp
  finally show ?thesis .
qed

section \<open>Closed forms of protect and check\<close>

definition p01_fits :: "profile_01_config \<Rightarrow> nat \<Rightarrow> bool" where
  "p01_fits cfg n \<longleftrightarrow> 2 \<le> n \<and> unat (p01_crc_offset cfg) < n \<and> unat (p01_counter_offset cfg) < n \<and>
     p01_crc_offset cfg \<noteq> p01_counter_offset cfg"

definition nibble :: "byte \<Rightarrow> u8 \<Rightarrow> byte" where
  "nibble b c = (b AND 0xF0) OR (c AND 0x0F)"

lemma nibble_and: "nibble b c AND 0x0F = c AND 0x0F" "take_bit 4 (nibble b c) = take_bit 4 c"
proof -
  have "(0xF0 :: u8) AND 0x0F = 0" "(0x0F :: u8) AND 0x0F = 0x0F" by simp_all
  then show "nibble b c AND 0x0F = c AND 0x0F"
    by (simp add: nibble_def and.assoc bit.conj_disj_distrib2)
  then show "take_bit 4 (nibble b c) = take_bit 4 c" by (simp add: and_mask_take_bit)
qed

lemma p01_protect_eq:
  assumes "p01_fits cfg (length p)"
  shows "p01_protect p cfg c = (let k = unat (p01_crc_offset cfg); m = unat (p01_counter_offset cfg);
      q = p[m := nibble (p ! m) c]
    in Some (q[k := crc8_sae_j1850 (id_bytes (p01_data_id cfg) @ take k q @ drop (Suc k) q) 0xFF]))"
  using assms
  by (simp add: p01_protect_def p01_fits_def mem_simps p01_crc_eq Let_def nibble_def not_less
      flip: not_le)

lemma p01_check_eq:
  assumes "p01_fits cfg (length p)"
  shows "p01_check p cfg l = (let k = unat (p01_crc_offset cfg); m = unat (p01_counter_offset cfg)
    in Some (if crc8_sae_j1850 (id_bytes (p01_data_id cfg) @ take k p @ drop (Suc k) p) 0xFF = p ! k
       then (delta_verdict (ucast (take_bit 4 (p ! m - l))) (p01_max_delta cfg), take_bit 4 (p ! m))
       else (Wrong_crc, l)))"
  using assms take_bit_diff_word [of 4 _ l]
  by (simp add: p01_check_def p01_fits_def mem_simps p01_crc_eq Let_def and_mask_take_bit not_less
      flip: not_le)

lemma two_bytes:
  assumes "2 \<le> length p"
  obtains a b r where "p = a # b # r"
  using assms that by (cases p; cases "tl p") auto

lemma unat_take_bit_4: "unat (take_bit 4 c) < 16" for c :: u8
  using take_bit_nat_less_exp [of 4 "unat c"] by (simp add: unsigned_take_bit_eq)

lemma p02_protect_eq:
  assumes "length (p02_data_id_list cfg) = 16"
  shows "p02_protect (a # b # r) cfg c = Some
    (crc8_sae_j1850 (p02_data_id_list cfg ! unat (take_bit 4 c) # nibble b c # r) 0xFF # nibble b c # r)"
  using assms unat_take_bit_4 [of c]
  by (simp add: p02_protect_def mem_simps p02_crc_eq Let_def and_mask_take_bit nibble_def)

lemma p02_check_eq:
  assumes "length (p02_data_id_list cfg) = 16"
  shows "p02_check (a # b # r) cfg l = Some
    (if crc8_sae_j1850 (p02_data_id_list cfg ! unat (take_bit 4 b) # b # r) 0xFF = a
     then (delta_verdict (ucast (take_bit 4 (b - l))) (p02_max_delta cfg), take_bit 4 b)
     else (Wrong_crc, l))"
  using assms take_bit_diff_word [of 4 b l] unat_take_bit_4 [of b]
  by (simp add: p02_check_def mem_simps p02_crc_eq Let_def and_mask_take_bit)

lemma be64_bytes:
  "be64 v = [ucast (drop_bit 56 v), ucast (drop_bit 48 v), ucast (drop_bit 40 v), ucast (drop_bit 32 v),
     ucast (drop_bit 24 v), ucast (drop_bit 16 v), ucast (drop_bit 8 v), ucast v]"
proof -
  have "(ucast (drop_bit j (ucast (drop_bit k v) :: u32)) :: byte) = ucast (drop_bit (j + k) v)"
    if "j \<le> 24" for j k
    using that by (intro bit_word_eqI) (auto simp: bit_simps add_ac)
  moreover have "(ucast (drop_bit j (ucast v :: u32)) :: byte) = ucast (drop_bit j v)"
    if "j \<le> 24" for j
    using that by (intro bit_word_eqI) (auto simp: bit_simps add_ac)
  moreover have "(ucast (ucast w :: u32) :: byte) = ucast w" for w :: u64
    by (rule bit_word_eqI) (auto simp: bit_simps)
  ultimately show ?thesis by (simp add: be64_def be32_def)
qed

lemma store_8:
  "store m p [a, b, c, d, e, f, g, h] = do {
     m \<leftarrow> poke m p a; m \<leftarrow> poke m (p + 1) b; m \<leftarrow> poke m (p + 2) c; m \<leftarrow> poke m (p + 3) d;
     m \<leftarrow> poke m (p + 4) e; m \<leftarrow> poke m (p + 5) f; m \<leftarrow> poke m (p + 6) g; poke m (p + 7) h }"
  by (simp add: numeral_eq_Suc)

lemma write_u64_be_store: "write_u64_be m p v = store m p (be64 v)"
  by (simp add: write_u64_be_def be64_bytes store_8 del: store.simps)

lemma read_u64_be_at:
  assumes "length xs = p"
  shows "read_u64_be (xs @ be64 v @ ys) p = Some v"
proof -
  have push: "push_bit 8 (drop_bit (k + 8) v) OR ucast (ucast (drop_bit k v) :: byte) = drop_bit k v" for k
    by (rule bit_word_eqI) (auto simp: bit_simps dest: bit_imp_le_length)
  have zero: "drop_bit (56 + 8) v = 0"
    by (rule bit_word_eqI) (auto simp: bit_simps dest: bit_imp_le_length)
  have byte: "peek (xs @ be64 v @ ys) (p + i) = Some (ucast (drop_bit (56 - 8 * i) v))" if "i < 8" for i
  proof -
    have "peek (xs @ be64 v @ ys) (p + i) = Some (be64 v ! i)"
      using assms that by (simp add: peek_append mem_simps nth_append peek_def)
    moreover have "i \<in> {0, 1, 2, 3, 4, 5, 6, 7}" using that by auto
    then have "be64 v ! i = ucast (drop_bit (56 - 8 * i) v)" by (auto simp: be64_bytes)
    ultimately show ?thesis by simp
  qed
  let ?f = "\<lambda>acc i. do { w \<leftarrow> acc; b \<leftarrow> peek (xs @ be64 v @ ys) (p + i); Some (push_bit 8 w OR ucast b) }"
  have "foldl ?f (Some (drop_bit (56 - 8 * i + 8) v)) [i ..< 8] = Some v" if "i \<le> 7" for i
    using that
  proof (induction rule: inc_induct)
    case base
    then show ?case using byte [of 7] push [of 0] by (simp add: upt_rec)
  next
    case (step i)
    have "foldl ?f (Some (drop_bit (56 - 8 * i + 8) v)) [i ..< 8] =
        foldl ?f (Some (drop_bit (56 - 8 * i) v)) [Suc i ..< 8]"
    proof -
      have "?f (Some (drop_bit (56 - 8 * i + 8) v)) i = Some (drop_bit (56 - 8 * i) v)"
        using step.hyps byte [of i] push [of "56 - 8 * i"] by (simp del: add_diff_assoc2)
      moreover have "[i ..< 8] = i # [Suc i ..< 8]"
        using step.hyps by (simp add: upt_conv_Cons)
      ultimately show ?thesis by (simp only: foldl_Cons)
    qed
    moreover have "56 - 8 * Suc i + 8 = 56 - 8 * i" using step.hyps by simp
    ultimately show ?case using step.IH by (simp only:)
  qed
  from this [of 0] show ?thesis
    using zero by (simp add: read_u64_be_def upt_8)
qed

definition p04_frame :: "u16 \<Rightarrow> u16 \<Rightarrow> u32 \<Rightarrow> byte list \<Rightarrow> byte list \<Rightarrow> byte list" where
  "p04_frame n c i x d = be16 n @ be16 c @ be32 i @ x @ d"

definition p07_frame :: "u32 \<Rightarrow> u32 \<Rightarrow> u32 \<Rightarrow> byte list \<Rightarrow> byte list \<Rightarrow> byte list" where
  "p07_frame n c i x d = be32 n @ be32 c @ be32 i @ x @ d"

definition p04_sum :: "u16 \<Rightarrow> u16 \<Rightarrow> u32 \<Rightarrow> byte list \<Rightarrow> u32" where
  "p04_sum n c i d = crc32_ethernet (p04_frame n c i (replicate 4 0) d) 0xFFFFFFFF"

definition p07_sum :: "u32 \<Rightarrow> u32 \<Rightarrow> u32 \<Rightarrow> byte list \<Rightarrow> u64" where
  "p07_sum n c i d = crc64 (p07_frame n c i (replicate 8 0) d) 0xFFFFFFFFFFFFFFFF"

lemma be32_0: "be32 0 = replicate 4 0"
  by (simp add: be32_def numeral_eq_Suc)

lemma p04_cases:
  assumes "12 \<le> length p"
  obtains n c i x d where "p = p04_frame n c i (be32 x) d"
proof -
  obtain n p1 where p: "p = be16 n @ p1" by (rule split_be16 [of p]) (use assms in auto)
  obtain c p2 where p1: "p1 = be16 c @ p2" by (rule split_be16 [of p1]) (use assms p in auto)
  obtain i p3 where p2: "p2 = be32 i @ p3" by (rule split_be32 [of p2]) (use assms p p1 in auto)
  obtain x d where p3: "p3 = be32 x @ d" by (rule split_be32 [of p3]) (use assms p p1 p2 in auto)
  show ?thesis by (rule that [of n c i x d]) (simp add: p04_frame_def p p1 p2 p3)
qed

lemma p07_cases:
  assumes "20 \<le> length p"
  obtains n c i x d where "p = p07_frame n c i (be64 x) d"
proof -
  obtain n p1 where p: "p = be32 n @ p1" by (rule split_be32 [of p]) (use assms in auto)
  obtain c p2 where p1: "p1 = be32 c @ p2" by (rule split_be32 [of p1]) (use assms p in auto)
  obtain i p3 where p2: "p2 = be32 i @ p3" by (rule split_be32 [of p2]) (use assms p p1 in auto)
  obtain x d where p3: "p3 = be64 x @ d" by (rule split_be64 [of p3]) (use assms p p1 p2 in auto)
  show ?thesis by (rule that [of n c i x d]) (simp add: p07_frame_def p p1 p2 p3)
qed

lemma p04_frame_length [simp]: "length (p04_frame n c i x d) = 8 + length x + length d"
  by (simp add: p04_frame_def)

lemma p07_frame_length [simp]: "length (p07_frame n c i x d) = 12 + length x + length d"
  by (simp add: p07_frame_def)

lemma p04_protect_eq:
  "p04_protect (p04_frame n0 c0 i0 (be32 x0) d) cfg c = (let n = of_nat (12 + length d); i = p04_data_id cfg
    in Some (p04_frame n c i (be32 (p04_sum n c i d)) d))"
  by (simp add: p04_protect_def p04_header_size_def p04_sum_def p04_frame_def write_u16_be_store
      write_u32_be_store store_overwrite overwrite_def Let_def flip: be32_0)

lemma p04_check_eq:
  "p04_check (p04_frame n c i (be32 x) d) cfg l = Some
    (if unat n \<noteq> 12 + length d then (E2e_error, l)
     else if i \<noteq> p04_data_id cfg \<or> p04_sum n c i d \<noteq> x then (Wrong_crc, l)
     else (delta_verdict (c - l) (p04_max_delta cfg), c))"
proof -
  let ?p = "p04_frame n c i (be32 x) d"
  have "read_u16_be ?p 0 = Some n" "read_u16_be ?p 2 = Some c"
    "read_u32_be ?p 4 = Some i" "read_u32_be ?p 8 = Some x"
    using read_u16_be_at [of "[]" 0 n] read_u16_be_at [of "be16 n" 2 c]
      read_u32_be_at [of "be16 n @ be16 c" 4 i] read_u32_be_at [of "be16 n @ be16 c @ be32 i" 8 x]
    by (simp_all add: p04_frame_def)
  moreover have "store ?p 8 (replicate 4 0) = Some (p04_frame n c i (replicate 4 0) d)"
    by (subst store_overwrite) (simp_all add: p04_frame_def overwrite_def)
  moreover have "length ?p = 12 + length d" by (simp add: p04_frame_def)
  ultimately show ?thesis
    by (cases "i = p04_data_id cfg") (simp_all add: p04_check_def p04_header_size_def p04_sum_def Let_def)
qed

lemma p07_protect_eq:
  "p07_protect (p07_frame n0 c0 i0 (be64 x0) d) cfg c = (let n = of_nat (20 + length d); i = p07_data_id cfg
    in Some (p07_frame n c i (be64 (p07_sum n c i d)) d))"
  by (simp add: p07_protect_def p07_header_size_def p07_sum_def p07_frame_def write_u64_be_store
      write_u32_be_store store_overwrite overwrite_def Let_def)

lemma p07_check_eq:
  "p07_check (p07_frame n c i (be64 x) d) cfg l = Some
    (if unat n \<noteq> 20 + length d then (E2e_error, l)
     else if i \<noteq> p07_data_id cfg \<or> p07_sum n c i d \<noteq> x then (Wrong_crc, l)
     else (delta_verdict (c - l) (p07_max_delta cfg), c))"
proof -
  let ?p = "p07_frame n c i (be64 x) d"
  have "read_u32_be ?p 0 = Some n" "read_u32_be ?p 4 = Some c"
    "read_u32_be ?p 8 = Some i" "read_u64_be ?p 12 = Some x"
    using read_u32_be_at [of "[]" 0 n] read_u32_be_at [of "be32 n" 4 c]
      read_u32_be_at [of "be32 n @ be32 c" 8 i] read_u64_be_at [of "be32 n @ be32 c @ be32 i" 12 x]
    by (simp_all add: p07_frame_def)
  moreover have "store ?p 12 (replicate 8 0) = Some (p07_frame n c i (replicate 8 0) d)"
    by (subst store_overwrite) (simp_all add: p07_frame_def overwrite_def)
  moreover have "length ?p = 20 + length d" by (simp add: p07_frame_def)
  ultimately show ?thesis
    by (cases "i = p07_data_id cfg") (simp_all add: p07_check_def p07_header_size_def p07_sum_def Let_def)
qed

section \<open>The contract of a profile\<close>

locale e2e_profile =
  fixes protect :: "byte list \<Rightarrow> u32 \<Rightarrow> byte list option"
    and check :: "byte list \<Rightarrow> u32 \<Rightarrow> (e2e_result \<times> u32) option"
    and fits :: "nat \<Rightarrow> bool"
    and bits :: nat
    and max_delta :: u32
    and guarded :: "nat \<Rightarrow> byte list \<Rightarrow> byte list \<Rightarrow> bool"
  assumes delivered: "fits (length p) \<Longrightarrow> \<exists>q. protect p c = Some q \<and> length q = length p \<and>
      (\<forall>l. check q l = Some (delta_verdict (take_bit bits (c - l)) max_delta, take_bit bits c))"
    and corrupted: "fits (length p) \<Longrightarrow> protect p c = Some (xs @ d @ ys) \<Longrightarrow> length e = length d \<Longrightarrow>
      d \<noteq> e \<Longrightarrow> guarded (length xs) d e \<Longrightarrow>
      \<exists>r l'. check (xs @ e @ ys) l = Some (r, l') \<and> r \<in> {Wrong_crc, E2e_error} \<and>
        take_bit bits l' = take_bit bits l"
    and bits_le: "bits \<le> 32"
begin

lemma protect_ok: "fits (length p) \<Longrightarrow> protect p c = Some q \<Longrightarrow> length q = length p"
  using delivered [of p c] by auto

lemma check_ok:
  "fits (length p) \<Longrightarrow> protect p c = Some q \<Longrightarrow>
   check q l = Some (delta_verdict (take_bit bits (c - l)) max_delta, take_bit bits c)"
  using delivered [of p c] by auto

text \<open>The verdicts in terms of the number of protected messages since the last one checked.\<close>

lemma verdict_after:
  assumes "fits (length p)" "protect p c = Some q"
    and "take_bit bits l = take_bit bits (c - of_nat n)" and "n < 2 ^ bits"
  shows "check q l = Some (if n = 0 then Repeated else if n \<le> unat max_delta then E2e_ok
    else Wrong_sequence, take_bit bits c)"
proof -
  have le: "bits \<le> LENGTH(32)" using bits_le by simp
  have "take_bit bits (c - l) = take_bit bits (c - take_bit bits (c - of_nat n))"
    using take_bit_diff_word2 [OF le, of c l] assms(3) by simp
  also have "\<dots> = take_bit bits (of_nat n)"
    using take_bit_diff_word2 [OF le, of c "c - of_nat n"] by simp
  finally have delta: "take_bit bits (c - l) = of_nat n"
    using assms(4) by (simp add: take_bit_of_nat_small)
  have "n < 2 ^ LENGTH(32)"
    using assms(4) by (rule order_less_le_trans) (rule power_increasing [OF le], simp)
  then have unat: "unat (of_nat n :: u32) = n" by (rule unat_of_nat_small)
  then have "(of_nat n :: u32) = 0 \<longleftrightarrow> n = 0" by (simp only: unat_eq_zero [symmetric])
  moreover have "(of_nat n :: u32) \<le> max_delta \<longleftrightarrow> n \<le> unat max_delta"
    by (simp only: word_le_nat_alt unat)
  ultimately have "delta_verdict (of_nat n) max_delta =
      (if n = 0 then Repeated else if n \<le> unat max_delta then E2e_ok else Wrong_sequence)"
    by (simp only: delta_verdict_def)
  then show ?thesis
    by (simp only: check_ok [OF assms(1, 2)] delta)
qed

end

section \<open>The four profiles meet the contract\<close>

fun e2e_fits :: "e2e_config \<Rightarrow> nat \<Rightarrow> bool" where
  "e2e_fits (P01 cfg) n \<longleftrightarrow> p01_fits cfg n"
| "e2e_fits (P02 cfg) n \<longleftrightarrow> 2 \<le> n \<and> length (p02_data_id_list cfg) = 16"
| "e2e_fits (P04 cfg) n \<longleftrightarrow> 12 \<le> n \<and> n < 2 ^ 16"
| "e2e_fits (P07 cfg) n \<longleftrightarrow> 20 \<le> n \<and> n < 2 ^ 32"

fun e2e_bits :: "e2e_config \<Rightarrow> nat" where
  "e2e_bits (P01 cfg) = 4"
| "e2e_bits (P02 cfg) = 4"
| "e2e_bits (P04 cfg) = 16"
| "e2e_bits (P07 cfg) = 32"

fun e2e_max_delta :: "e2e_config \<Rightarrow> u32" where
  "e2e_max_delta (P01 cfg) = ucast (p01_max_delta cfg)"
| "e2e_max_delta (P02 cfg) = ucast (p02_max_delta cfg)"
| "e2e_max_delta (P04 cfg) = ucast (p04_max_delta cfg)"
| "e2e_max_delta (P07 cfg) = p07_max_delta cfg"

text \<open>Profile 02 takes the data id its CRC covers from the list, by the low half of the counter byte. A
  change of that byte changes both, and the CRC cannot tell two such pairs with the same CRC.\<close>

definition p02_alias :: "profile_02_config \<Rightarrow> byte \<Rightarrow> byte \<Rightarrow> bool" where
  "p02_alias cfg b b' \<longleftrightarrow> crc8_sae_j1850 [p02_data_id_list cfg ! unat (b AND 0x0F), b] 0xFF =
     crc8_sae_j1850 [p02_data_id_list cfg ! unat (b' AND 0x0F), b'] 0xFF"

text \<open>The bytes \<open>d\<close> at offset \<open>i\<close> changed to \<open>e\<close>, in a way the CRC is sure to detect: short enough, and
  not partly inside and partly outside the stored CRC; the counter byte of profile 02 not to an alias.\<close>

fun e2e_guarded :: "e2e_config \<Rightarrow> nat \<Rightarrow> byte list \<Rightarrow> byte list \<Rightarrow> bool" where
  "e2e_guarded (P01 cfg) i d e \<longleftrightarrow> length d \<le> 1"
| "e2e_guarded (P02 cfg) i d e \<longleftrightarrow> length d \<le> 1 \<and> (i = 1 \<longrightarrow> \<not> p02_alias cfg (hd d) (hd e))"
| "e2e_guarded (P04 cfg) i d e \<longleftrightarrow> length d \<le> 4 \<and>
     (i + length d \<le> 8 \<or> 12 \<le> i \<or> 8 \<le> i \<and> i + length d \<le> 12)"
| "e2e_guarded (P07 cfg) i d e \<longleftrightarrow> length d \<le> 8 \<and>
     (i + length d \<le> 12 \<or> 20 \<le> i \<or> 12 \<le> i \<and> i + length d \<le> 20)"

lemma nibble_delta:
  "(ucast (take_bit 4 (nibble b (ucast (c AND 0x0F))) :: u8) :: u32) = take_bit 4 c"
  "(ucast (take_bit 4 (nibble b (ucast (c AND 0x0F)) - ucast l) :: u8) :: u32) = take_bit 4 (c - l)"
proof -
  have keep: "(ucast (take_bit 4 (ucast x :: u8)) :: u32) = take_bit 4 x" for x :: u32
    by (rule bit_word_eqI) (auto simp: bit_simps)
  have nib: "take_bit 4 (nibble b (ucast (c AND 0x0F))) = take_bit 4 (ucast c)"
    unfolding nibble_and and_mask_take_bit by (rule bit_word_eqI) (auto simp: bit_simps)
  show "(ucast (take_bit 4 (nibble b (ucast (c AND 0x0F))) :: u8) :: u32) = take_bit 4 c"
    by (simp only: nib keep)
  have "take_bit 4 (nibble b (ucast (c AND 0x0F)) - ucast l) = take_bit 4 (take_bit 4 (ucast c) - ucast l)"
    using take_bit_diff_word [of 4 "nibble b (ucast (c AND 0x0F))" "ucast l"] by (simp add: nib)
  also have "\<dots> = take_bit 4 (ucast (c - l))"
    using take_bit_diff_word [of 4 "ucast c :: u8" "ucast l"] by (simp add: ucast_diff)
  finally show "(ucast (take_bit 4 (nibble b (ucast (c AND 0x0F)) - ucast l) :: u8) :: u32) = take_bit 4 (c - l)"
    by (simp only: keep)
qed

lemma delta_verdict_widen:
  "delta_verdict (ucast (d :: u16) :: u32) (ucast m) = delta_verdict d m"
  by (rule delta_verdict_ucast) simp

lemma nibble_verdict:
  "delta_verdict (ucast (take_bit 4 (nibble b (ucast (c AND 0x0F)) - ucast l) :: u8) :: u16) m =
   delta_verdict (take_bit 4 (c - l)) (ucast m :: u32)"
proof -
  let ?d = "take_bit 4 (nibble b (ucast (c AND 0x0F)) - ucast l) :: u8"
  have "(ucast (ucast ?d :: u16) :: u32) = ucast ?d"
    by (rule bit_word_eqI) (auto simp: bit_simps)
  then show ?thesis
    by (metis delta_verdict_widen nibble_delta(2))
qed

lemma p01_delivered:
  assumes "p01_fits cfg (length p)"
  shows "\<exists>q. protect_payload (P01 cfg) p c = Some q \<and> length q = length p \<and>
    (\<forall>l. check_payload (P01 cfg) q l =
      Some (delta_verdict (take_bit 4 (c - l)) (ucast (p01_max_delta cfg)), take_bit 4 c))"
proof -
  let ?k = "unat (p01_crc_offset cfg)" and ?m = "unat (p01_counter_offset cfg)"
  let ?p = "p[?m := nibble (p ! ?m) (ucast (c AND 0x0F))]"
  let ?q = "?p[?k := crc8_sae_j1850 (id_bytes (p01_data_id cfg) @ take ?k ?p @ drop (Suc ?k) ?p) 0xFF]"
  have "?k \<noteq> ?m" using assms by (auto simp: p01_fits_def word_unat_eq_iff)
  moreover have "protect_payload (P01 cfg) p c = Some ?q"
    using assms by (simp add: protect_payload_def p01_protect_eq Let_def)
  moreover have "p01_fits cfg (length ?q)" using assms by simp
  ultimately show ?thesis
    using assms
    by (simp add: check_payload_def p01_check_eq Let_def nibble_verdict nibble_delta p01_fits_def)
qed

lemma p02_delivered:
  assumes "2 \<le> length p" "length (p02_data_id_list cfg) = 16"
  shows "\<exists>q. protect_payload (P02 cfg) p c = Some q \<and> length q = length p \<and>
    (\<forall>l. check_payload (P02 cfg) q l =
      Some (delta_verdict (take_bit 4 (c - l)) (ucast (p02_max_delta cfg)), take_bit 4 c))"
proof -
  have nibble_id: "take_bit 4 (nibble b (ucast (c AND 0x0F))) = take_bit 4 (ucast c)" for b
    unfolding nibble_and and_mask_take_bit by (rule bit_word_eqI) (auto simp: bit_simps)
  have c: "take_bit 4 (ucast (c AND 0x0F) :: u8) = take_bit 4 (ucast c)"
    "(ucast (take_bit 4 (ucast c :: u8)) :: u32) = take_bit 4 c"
    unfolding and_mask_take_bit by (rule bit_word_eqI; auto simp: bit_simps)+
  obtain a b r where "p = a # b # r" using assms(1) by (rule two_bytes)
  then show ?thesis
    using assms(2) by (simp add: protect_payload_def check_payload_def p02_protect_eq p02_check_eq
      nibble_verdict nibble_id c)
qed

lemma p04_delivered:
  assumes "12 \<le> length p" "length p < 2 ^ 16"
  shows "\<exists>q. protect_payload (P04 cfg) p c = Some q \<and> length q = length p \<and>
    (\<forall>l. check_payload (P04 cfg) q l =
      Some (delta_verdict (take_bit 16 (c - l)) (ucast (p04_max_delta cfg)), take_bit 16 c))"
proof -
  obtain n c0 i x d where p: "p = p04_frame n c0 i (be32 x) d" using assms(1) by (rule p04_cases)
  have c: "(ucast (ucast c :: u16) :: u32) = take_bit 16 c"
    by (rule bit_word_eqI) (auto simp: bit_simps)
  have len: "length p = 12 + length d" by (simp add: p)
  then have n: "unat (of_nat (12 + length d) :: u16) = 12 + length d"
    using assms(2) by (intro unat_of_nat_small) simp
  have "delta_verdict (ucast c - ucast l :: u16) m = delta_verdict (take_bit 16 (c - l)) (ucast m)" for l m
  proof -
    have "(ucast (ucast (c - l) :: u16) :: u32) = take_bit 16 (c - l)"
      by (rule bit_word_eqI) (auto simp: bit_simps)
    then have "delta_verdict (ucast (c - l) :: u16) m = delta_verdict (take_bit 16 (c - l)) (ucast m)"
      by (metis delta_verdict_widen)
    then show ?thesis by (simp add: ucast_diff)
  qed
  with n len show ?thesis
    by (simp add: p protect_payload_def check_payload_def p04_protect_eq p04_check_eq Let_def
        p04_frame_length c del: of_nat_add)
qed

lemma p07_delivered:
  assumes "20 \<le> length p" "length p < 2 ^ 32"
  shows "\<exists>q. protect_payload (P07 cfg) p c = Some q \<and> length q = length p \<and>
    (\<forall>l. check_payload (P07 cfg) q l =
      Some (delta_verdict (take_bit 32 (c - l)) (p07_max_delta cfg), take_bit 32 c))"
proof -
  obtain n c0 i x d where p: "p = p07_frame n c0 i (be64 x) d" using assms(1) by (rule p07_cases)
  then have len: "length p = 20 + length d" by simp
  then have n: "unat (of_nat (20 + length d) :: u32) = 20 + length d"
    using assms(2) by (intro unat_of_nat_small) simp
  have "take_bit 32 w = w" for w :: u32
    by (rule bit_word_eqI) (auto simp: bit_simps)
  with n len show ?thesis
    by (simp add: p protect_payload_def check_payload_def p07_protect_eq p07_check_eq Let_def
        del: of_nat_add)
qed

subsection \<open>Corruption\<close>

lemma delta_verdict_cases: "delta_verdict d m \<in> {E2e_ok, Repeated, Wrong_sequence}"
  by (simp add: delta_verdict_def)

lemma delta_verdict_not_failed [simp]:
  "delta_verdict d m \<noteq> Wrong_crc" "delta_verdict d m \<noteq> E2e_error"
  by (simp_all add: delta_verdict_def)

text \<open>The buffer a check runs its CRC over: the stored CRC zeroed. A burst beside it stays a burst,
  one inside it disappears and shows in the stored CRC.\<close>

definition zeroed :: "nat \<Rightarrow> nat \<Rightarrow> byte list \<Rightarrow> byte list" where
  "zeroed k n q = take k q @ replicate n 0 @ drop (k + n) q"

definition field_at :: "nat \<Rightarrow> nat \<Rightarrow> byte list \<Rightarrow> byte list" where
  "field_at k n q = take n (drop k q)"

lemma zeroed_burst_outside:
  assumes "length e = length d" and "length xs + length d \<le> k \<or> k + n \<le> length xs"
  shows "\<exists>xs' ys'. zeroed k n (xs @ d @ ys) = xs' @ d @ ys' \<and> zeroed k n (xs @ e @ ys) = xs' @ e @ ys'"
    and "field_at k n (xs @ d @ ys) = field_at k n (xs @ e @ ys)"
proof -
  from assms(2) show "\<exists>xs' ys'. zeroed k n (xs @ d @ ys) = xs' @ d @ ys' \<and>
      zeroed k n (xs @ e @ ys) = xs' @ e @ ys'"
  proof
    assume le: "length xs + length d \<le> k"
    let ?ys = "take (k - length xs - length d) ys @ replicate n 0 @ drop (k + n - length xs - length d) ys"
    have "zeroed k n (xs @ f @ ys) = xs @ f @ ?ys" if "length f = length d" for f
      using le that by (simp add: zeroed_def)
    with assms(1) show ?thesis by blast
  next
    assume le: "k + n \<le> length xs"
    have "zeroed k n (xs @ f @ ys) = (take k xs @ replicate n 0 @ drop (k + n) xs) @ f @ ys" for f
      using le by (simp add: zeroed_def)
    then show ?thesis by blast
  qed
  show "field_at k n (xs @ d @ ys) = field_at k n (xs @ e @ ys)"
    using assms by (auto simp: field_at_def)
qed

lemma zeroed_burst_inside:
  assumes "length e = length d" and "k \<le> length xs" and "length xs + length d \<le> k + n"
  shows "zeroed k n (xs @ d @ ys) = zeroed k n (xs @ e @ ys)"
    and "field_at k n (xs @ d @ ys) = field_at k n (xs @ e @ ys) \<longleftrightarrow> d = e"
  using assms by (auto simp: zeroed_def field_at_def)

lemma p04_check_cases:
  assumes "12 \<le> length q"
  shows "\<exists>r l'. p04_check q cfg l = Some (r, l') \<and> (r \<in> {Wrong_crc, E2e_error} \<and> l' = l \<or>
      r \<notin> {Wrong_crc, E2e_error} \<and> field_at 8 4 q = be32 (crc32_ethernet (zeroed 8 4 q) 0xFFFFFFFF))"
proof -
  obtain n c i x d where q: "q = p04_frame n c i (be32 x) d" using assms by (rule p04_cases)
  have "field_at 8 4 q = be32 x" "zeroed 8 4 q = p04_frame n c i (replicate 4 0) d"
    by (simp_all add: q field_at_def zeroed_def p04_frame_def)
  then show ?thesis
    by (auto simp: q p04_check_eq p04_sum_def split: if_splits)
qed

lemma p07_check_cases:
  assumes "20 \<le> length q"
  shows "\<exists>r l'. p07_check q cfg l = Some (r, l') \<and> (r \<in> {Wrong_crc, E2e_error} \<and> l' = l \<or>
      r \<notin> {Wrong_crc, E2e_error} \<and> field_at 12 8 q = be64 (crc64 (zeroed 12 8 q) 0xFFFFFFFFFFFFFFFF))"
proof -
  obtain n c i x d where q: "q = p07_frame n c i (be64 x) d" using assms by (rule p07_cases)
  have "field_at 12 8 q = be64 x" "zeroed 12 8 q = p07_frame n c i (replicate 8 0) d"
    by (simp_all add: q field_at_def zeroed_def p07_frame_def)
  then show ?thesis
    by (auto simp: q p07_check_eq p07_sum_def split: if_splits)
qed

text \<open>A stored checksum that detects bursts of the guarded kind.\<close>

lemma stored_crc_rejects:
  assumes burst: "\<And>xs ys d e. length d = length e \<Longrightarrow> length d \<le> w \<Longrightarrow>
      f (xs @ d @ ys) = f (xs @ e @ ys) \<Longrightarrow> d = e"
    and "length e = length d" "d \<noteq> e" "length d \<le> w"
    and guard: "length xs + length d \<le> k \<or> k + n \<le> length xs \<or> k \<le> length xs \<and> length xs + length d \<le> k + n"
    and inj: "\<And>u v. g u = g v \<Longrightarrow> u = v"
    and d: "field_at k n (xs @ d @ ys) = g (f (zeroed k n (xs @ d @ ys)))"
    and e: "field_at k n (xs @ e @ ys) = g (f (zeroed k n (xs @ e @ ys)))"
  shows False
proof (cases "k \<le> length xs \<and> length xs + length d \<le> k + n")
  case True
  then show ?thesis
    using zeroed_burst_inside [of e d k xs n ys] assms(2,3) d e by simp
next
  case False
  with guard have out: "length xs + length d \<le> k \<or> k + n \<le> length xs" by blast
  then obtain xs' ys' where z: "zeroed k n (xs @ d @ ys) = xs' @ d @ ys'" "zeroed k n (xs @ e @ ys) = xs' @ e @ ys'"
    using zeroed_burst_outside(1) [OF assms(2), of xs k n ys] by blast
  have "field_at k n (xs @ d @ ys) = field_at k n (xs @ e @ ys)"
    by (rule zeroed_burst_outside(2) [OF assms(2) out])
  then have "g (f (xs' @ d @ ys')) = g (f (xs' @ e @ ys'))" using d e z by simp
  then have "f (xs' @ d @ ys') = f (xs' @ e @ ys')" by (rule inj)
  then show ?thesis using burst [of d e xs' ys'] assms(2,3,4) by simp
qed

lemma p04_corrupted:
  assumes "12 \<le> length p" "length p < 2 ^ 16" "protect_payload (P04 cfg) p c = Some (xs @ d @ ys)"
    and "length e = length d" "d \<noteq> e" "e2e_guarded (P04 cfg) (length xs) d e"
  shows "\<exists>r l'. check_payload (P04 cfg) (xs @ e @ ys) l = Some (r, l') \<and>
    r \<in> {Wrong_crc, E2e_error} \<and> take_bit 16 l' = take_bit 16 l"
proof -
  have len: "12 \<le> length (xs @ d @ ys)" and ok: "check_payload (P04 cfg) (xs @ d @ ys) l =
      Some (delta_verdict (take_bit 16 (c - l)) (ucast (p04_max_delta cfg)), take_bit 16 c)"
    using p04_delivered [OF assms(1,2), of cfg c] assms(1,3) by auto
  obtain r k where d: "p04_check (xs @ d @ ys) cfg (ucast l) = Some (r, k)"
    "r \<in> {Wrong_crc, E2e_error} \<and> k = ucast l \<or> r \<notin> {Wrong_crc, E2e_error} \<and>
      field_at 8 4 (xs @ d @ ys) = be32 (crc32_ethernet (zeroed 8 4 (xs @ d @ ys)) 0xFFFFFFFF)"
    using p04_check_cases [OF len] by blast
  obtain r' k' where e: "p04_check (xs @ e @ ys) cfg (ucast l) = Some (r', k')"
    "r' \<in> {Wrong_crc, E2e_error} \<and> k' = ucast l \<or> r' \<notin> {Wrong_crc, E2e_error} \<and>
      field_at 8 4 (xs @ e @ ys) = be32 (crc32_ethernet (zeroed 8 4 (xs @ e @ ys)) 0xFFFFFFFF)"
    using p04_check_cases [of "xs @ e @ ys" cfg "ucast l"] len assms(4) by auto
  have fd: "field_at 8 4 (xs @ d @ ys) = be32 (crc32_ethernet (zeroed 8 4 (xs @ d @ ys)) 0xFFFFFFFF)"
    using d ok by (auto simp: check_payload_def)
  have "r' \<in> {Wrong_crc, E2e_error} \<and> k' = ucast l"
  proof (rule ccontr)
    assume "\<not> (r' \<in> {Wrong_crc, E2e_error} \<and> k' = ucast l)"
    then have fe: "field_at 8 4 (xs @ e @ ys) = be32 (crc32_ethernet (zeroed 8 4 (xs @ e @ ys)) 0xFFFFFFFF)"
      using e(2) by blast
    show False
      by (rule stored_crc_rejects [of 4 "\<lambda>m. crc32_ethernet m 0xFFFFFFFF", OF _ assms(4,5) _ _ _ fd fe])
        (use assms(6) crc32_burst in auto)
  qed
  moreover have "take_bit 16 (ucast (ucast l :: u16) :: u32) = take_bit 16 l"
    by (rule bit_word_eqI) (auto simp: bit_simps)
  ultimately show ?thesis using e(1) by (auto simp: check_payload_def)
qed

lemma p07_corrupted:
  assumes "20 \<le> length p" "length p < 2 ^ 32" "protect_payload (P07 cfg) p c = Some (xs @ d @ ys)"
    and "length e = length d" "d \<noteq> e" "e2e_guarded (P07 cfg) (length xs) d e"
  shows "\<exists>r l'. check_payload (P07 cfg) (xs @ e @ ys) l = Some (r, l') \<and>
    r \<in> {Wrong_crc, E2e_error} \<and> take_bit 32 l' = take_bit 32 l"
proof -
  have len: "20 \<le> length (xs @ d @ ys)" and ok: "check_payload (P07 cfg) (xs @ d @ ys) l =
      Some (delta_verdict (take_bit 32 (c - l)) (p07_max_delta cfg), take_bit 32 c)"
    using p07_delivered [OF assms(1,2), of cfg c] assms(1,3) by auto
  obtain r k where d: "p07_check (xs @ d @ ys) cfg (l) = Some (r, k)"
    "r \<in> {Wrong_crc, E2e_error} \<and> k = l \<or> r \<notin> {Wrong_crc, E2e_error} \<and>
      field_at 12 8 (xs @ d @ ys) = be64 (crc64 (zeroed 12 8 (xs @ d @ ys)) 0xFFFFFFFFFFFFFFFF)"
    using p07_check_cases [OF len] by blast
  obtain r' k' where e: "p07_check (xs @ e @ ys) cfg (l) = Some (r', k')"
    "r' \<in> {Wrong_crc, E2e_error} \<and> k' = l \<or> r' \<notin> {Wrong_crc, E2e_error} \<and>
      field_at 12 8 (xs @ e @ ys) = be64 (crc64 (zeroed 12 8 (xs @ e @ ys)) 0xFFFFFFFFFFFFFFFF)"
    using p07_check_cases [of "xs @ e @ ys" cfg l] len assms(4) by auto
  have fd: "field_at 12 8 (xs @ d @ ys) = be64 (crc64 (zeroed 12 8 (xs @ d @ ys)) 0xFFFFFFFFFFFFFFFF)"
    using d ok by (auto simp: check_payload_def)
  have "r' \<in> {Wrong_crc, E2e_error} \<and> k' = l"
  proof (rule ccontr)
    assume "\<not> (r' \<in> {Wrong_crc, E2e_error} \<and> k' = l)"
    then have fe: "field_at 12 8 (xs @ e @ ys) = be64 (crc64 (zeroed 12 8 (xs @ e @ ys)) 0xFFFFFFFFFFFFFFFF)"
      using e(2) by blast
    show False
      by (rule stored_crc_rejects [of 8 "\<lambda>m. crc64 m 0xFFFFFFFFFFFFFFFF", OF _ assms(4,5) _ _ _ fd fe])
        (use assms(6) crc64_burst in auto)
  qed
  then show ?thesis using e(1) by (auto simp: check_payload_def)
qed

lemma crc8_single_byte:
  "crc8_sae_j1850 (xs @ b # ys) i = crc8_sae_j1850 (xs @ b' # ys) i \<Longrightarrow> b = b'"
  using crc8_burst [of "[b]" "[b']" xs ys i] by simp

lemma single_byte:
  assumes "length e = length d" "d \<noteq> e" "length d \<le> 1"
  shows "\<exists>b b'. d = [b] \<and> e = [b'] \<and> b \<noteq> b'"
  using assms by (cases d; cases e) auto

text \<open>Dropping position \<open>k\<close> from a list with one changed element elsewhere leaves one change.\<close>

lemma skip_single:
  assumes "length xs \<noteq> k"
  shows "\<exists>us vs. \<forall>b. take k (xs @ b # ys) @ drop (Suc k) (xs @ b # ys) = us @ b # vs"
proof (cases "k < length xs")
  case True
  then have "\<forall>b. take k (xs @ b # ys) @ drop (Suc k) (xs @ b # ys) =
      (take k xs @ drop (Suc k) xs) @ b # ys" by simp
  then show ?thesis by blast
next
  case False
  then obtain j where "k = Suc (length xs + j)" using assms by (metis less_iff_Suc_add linorder_neqE_nat)
  then have "\<forall>b. take k (xs @ b # ys) @ drop (Suc k) (xs @ b # ys) = xs @ b # (take j ys @ drop (Suc j) ys)"
    by simp
  then show ?thesis by blast
qed

lemma p01_corrupted:
  assumes fits: "p01_fits cfg (length p)" and prot: "protect_payload (P01 cfg) p c = Some (xs @ d @ ys)"
    and "length e = length d" "d \<noteq> e" "e2e_guarded (P01 cfg) (length xs) d e"
  shows "\<exists>r l'. check_payload (P01 cfg) (xs @ e @ ys) l = Some (r, l') \<and>
    r \<in> {Wrong_crc, E2e_error} \<and> take_bit 4 l' = take_bit 4 l"
proof -
  obtain b b' where de: "d = [b]" "e = [b']" "b \<noteq> b'"
    using single_byte [OF assms(3,4)] assms(5) by auto
  let ?k = "unat (p01_crc_offset cfg)" and ?id = "id_bytes (p01_data_id cfg)"
  let ?q = "\<lambda>b. xs @ b # ys"
  let ?crc = "\<lambda>b. crc8_sae_j1850 (?id @ take ?k (?q b) @ drop (Suc ?k) (?q b)) 0xFF"
  have len: "p01_fits cfg (length (?q a))" for a
    using p01_delivered [OF fits, of c] prot fits by (auto simp: de)
  have "\<exists>r k. check_payload (P01 cfg) (?q b) l = Some (r, k) \<and> r \<noteq> Wrong_crc"
    using p01_delivered [OF fits, of c] prot by (auto simp: de)
  then have valid: "?crc b = ?q b ! ?k"
    using len [of b] by (auto simp: check_payload_def p01_check_eq Let_def split: if_splits)
  have "?crc b' \<noteq> ?q b' ! ?k"
  proof (cases "length xs = ?k")
    case True
    have "take ?k (?q a) @ drop (Suc ?k) (?q a) = xs @ ys" "?q a ! ?k = a" for a
      unfolding True [symmetric] by simp_all
    with valid de(3) show ?thesis by (simp only:) simp
  next
    case False
    then obtain us vs where "\<forall>b. take ?k (?q b) @ drop (Suc ?k) (?q b) = us @ b # vs"
      using skip_single by blast
    then have "?crc a = crc8_sae_j1850 ((?id @ us) @ a # vs) 0xFF" for a by simp
    then have "?crc b \<noteq> ?crc b'" using de(3) crc8_single_byte by metis
    moreover have "?q b ! ?k = ?q b' ! ?k" using False by (simp add: nth_append nth_Cons')
    ultimately show ?thesis using valid by simp
  qed
  then have "check_payload (P01 cfg) (?q b') l = Some (Wrong_crc, ucast (ucast l :: u8))"
    using len [of b'] by (simp add: check_payload_def p01_check_eq Let_def)
  moreover have "take_bit 4 (ucast (ucast l :: u8) :: u32) = take_bit 4 l"
    by (rule bit_word_eqI) (auto simp: bit_simps)
  ultimately show ?thesis by (simp add: de)
qed

lemma crc8_suffix:
  "length d = length e \<Longrightarrow> crc8_sae_j1850 (d @ ys) i = crc8_sae_j1850 (e @ ys) i \<longleftrightarrow> crc8_sae_j1850 d i = crc8_sae_j1850 e i"
  unfolding crc8_steps xor_right_inject foldl_append using crc8_reg.foldl_inj by metis

lemma counter_byte_verdict:
  "delta_verdict (ucast (take_bit 4 (b - ucast l) :: u8) :: u16) m = delta_verdict (take_bit 4 (ucast b - l)) (ucast m :: u32)"
proof -
  let ?d = "take_bit 4 (b - ucast l) :: u8"
  have "b = ucast (ucast b :: u32)" by (rule bit_word_eqI) (auto simp: bit_simps)
  then have "b - ucast l = ucast (ucast b - l :: u32)" by (simp add: ucast_diff)
  moreover have "(ucast (ucast (take_bit 4 (ucast x :: u8)) :: u16) :: u32) = take_bit 4 x" for x :: u32
    by (rule bit_word_eqI) (auto simp: bit_simps)
  ultimately have "(ucast (ucast ?d :: u16) :: u32) = take_bit 4 (ucast b - l)" by (simp only:)
  then show ?thesis by (simp only: delta_verdict_widen [of "ucast ?d" m, symmetric])
qed

text \<open>Aliases exist: with the ids 0x00 and 0x83 for the counters 0 and 1, the counter bytes 0 and 1 are
  aliases of each other, so the one bit that tells the two messages apart is not protected.\<close>

lemma p02_alias_example:
  "p02_alias (profile_02_default\<lparr>p02_data_id_list := [0x00, 0x83] @ replicate 14 0\<rparr>) 0 1"
proof -
  have shift8: "crc8_z x = crc8_shift (crc8_shift (crc8_shift (crc8_shift (crc8_shift (crc8_shift (crc8_shift (crc8_shift x)))))))" for x
    by (simp add: crc8_z_def numeral_eq_Suc)
  have "crc8_z 0xFF = 0xC4" "crc8_z 0x7C = 0xC5" by (simp_all add: shift8 crc8_shift_def)
  then show ?thesis by (simp add: p02_alias_def profile_02_default_def crc8_steps crc8_place_def)
qed

text \<open>A changed counter byte is taken for the counter of another message if it is an alias, and
  rejected if it is not.\<close>

lemma p02_counter_byte:
  assumes "2 \<le> length p" and ids: "length (p02_data_id_list cfg) = 16"
    and prot: "protect_payload (P02 cfg) p c = Some (x # b # ys)"
  shows "check_payload (P02 cfg) (x # b' # ys) l = Some (if p02_alias cfg b b'
    then (delta_verdict (take_bit 4 (ucast b' - l)) (ucast (p02_max_delta cfg)), take_bit 4 (ucast b'))
    else (Wrong_crc, ucast (ucast l :: u8)))"
proof -
  obtain a0 b0 r0 where p: "p = a0 # b0 # r0" using assms(1) by (rule two_bytes)
  let ?id = "\<lambda>b. p02_data_id_list cfg ! unat (take_bit 4 b)"
  let ?n = "nibble b0 (ucast (c AND 0x0F))"
  have q: "x = crc8_sae_j1850 (?id b # b # ys) 0xFF"
    using prot ids nibble_and(2) [of b0 "ucast (c AND 0x0F)"] by (auto simp: p protect_payload_def p02_protect_eq)
  have same: "crc8_sae_j1850 (?id b' # b' # ys) 0xFF = x \<longleftrightarrow> p02_alias cfg b b'"
    using crc8_suffix [of "[?id b', b']" "[?id b, b]" ys "0xFF"] by (auto simp: q p02_alias_def and_mask_take_bit)
  have "(ucast (take_bit 4 b') :: u32) = take_bit 4 (ucast b')" by (rule bit_word_eqI) (auto simp: bit_simps)
  then show ?thesis
    using ids by (simp add: check_payload_def p02_check_eq same counter_byte_verdict)
qed

lemma p02_corrupted:
  assumes "2 \<le> length p" and ids: "length (p02_data_id_list cfg) = 16"
    and prot: "protect_payload (P02 cfg) p c = Some (xs @ d @ ys)"
    and "length e = length d" "d \<noteq> e" "e2e_guarded (P02 cfg) (length xs) d e"
  shows "\<exists>r l'. check_payload (P02 cfg) (xs @ e @ ys) l = Some (r, l') \<and>
    r \<in> {Wrong_crc, E2e_error} \<and> take_bit 4 l' = take_bit 4 l"
proof -
  obtain b b' where de: "d = [b]" "e = [b']" "b \<noteq> b'"
    using single_byte [OF assms(4,5)] assms(6) by auto
  obtain a0 b0 r0 where p: "p = a0 # b0 # r0" using assms(1) by (rule two_bytes)
  let ?id = "p02_data_id_list cfg ! unat (take_bit 4 (ucast (c AND 0x0F) :: u8))"
  let ?n = "nibble b0 (ucast (c AND 0x0F))"
  have q: "xs @ b # ys = crc8_sae_j1850 (?id # ?n # r0) 0xFF # ?n # r0"
    using prot ids by (simp add: de p protect_payload_def p02_protect_eq)
  have nn: "take_bit 4 ?n = take_bit 4 (ucast (c AND 0x0F))" by (rule nibble_and)
  have "check_payload (P02 cfg) (xs @ b' # ys) l = Some (Wrong_crc, ucast (ucast l :: u8))"
  proof (cases "length xs = 1")
    case True
    then obtain x where xs: "xs = [x]" by (cases xs) auto
    then show ?thesis
      using p02_counter_byte [OF assms(1) ids, of c x b ys b' l] prot assms(6) by (simp add: de)
  next
    case False
    show ?thesis
    proof (cases xs)
      case Nil
      with q have "b = crc8_sae_j1850 (?id # ?n # r0) 0xFF" "ys = ?n # r0" by simp_all
      with Nil de(3) ids show ?thesis by (simp add: check_payload_def p02_check_eq nn)
    next
      case (Cons x xs')
      with False obtain y zs where xs: "xs = x # y # zs" by (cases xs') auto
      with q have "x = crc8_sae_j1850 (?id # ?n # zs @ b # ys) 0xFF" "y = ?n" by simp_all
      moreover have "crc8_sae_j1850 (?id # ?n # zs @ b # ys) 0xFF \<noteq> crc8_sae_j1850 (?id # ?n # zs @ b' # ys) 0xFF"
        using crc8_single_byte [of "?id # ?n # zs" b ys "0xFF" b'] de(3) by auto
      ultimately show ?thesis using ids by (simp add: xs check_payload_def p02_check_eq nn)
    qed
  qed
  moreover have "take_bit 4 (ucast (ucast l :: u8) :: u32) = take_bit 4 l"
    by (rule bit_word_eqI) (auto simp: bit_simps)
  ultimately show ?thesis by (simp add: de)
qed

interpretation prof: e2e_profile "protect_payload cfg" "check_payload cfg" "e2e_fits cfg" "e2e_bits cfg"
  "e2e_max_delta cfg" "e2e_guarded cfg" for cfg
proof unfold_locales
  show "\<exists>q. protect_payload cfg p c = Some q \<and> length q = length p \<and>
      (\<forall>l. check_payload cfg q l =
        Some (delta_verdict (take_bit (e2e_bits cfg) (c - l)) (e2e_max_delta cfg), take_bit (e2e_bits cfg) c))"
    if "e2e_fits cfg (length p)" for p c
    using that p01_delivered p02_delivered p04_delivered p07_delivered by (cases cfg) simp_all
  show "\<exists>r l'. check_payload cfg (xs @ e @ ys) l = Some (r, l') \<and> r \<in> {Wrong_crc, E2e_error} \<and>
      take_bit (e2e_bits cfg) l' = take_bit (e2e_bits cfg) l"
    if "e2e_fits cfg (length p)" "protect_payload cfg p c = Some (xs @ d @ ys)" "length e = length d"
      "d \<noteq> e" "e2e_guarded cfg (length xs) d e" for p c xs d ys e l
  proof (cases cfg)
    case (P01 c1)
    then show ?thesis using that p01_corrupted [of c1 p c xs d ys e l] by simp
  next
    case (P02 c2)
    then show ?thesis using that p02_corrupted [of p c2 c xs d ys e l] by simp
  next
    case (P04 c4)
    then show ?thesis using that p04_corrupted [of p c4 c xs d ys e l] by simp
  next
    case (P07 c7)
    then show ?thesis using that p07_corrupted [of p c7 c xs d ys e l] by simp
  qed
  show "e2e_bits cfg \<le> 32" by (cases cfg) simp_all
qed

end
