(* ===== verification/E2E_Pipeline.thy ===== *)
theory E2E_Pipeline
  imports E2E_Correct
begin

text \<open>
  The \<open>protect | transport | check\<close> pipeline: what a receiver sees of a stream of protected
  messages when some are lost, repeated or corrupted. Everything rests on the facts of the
  interpretation \<open>prof\<close> of the profile contract.
\<close>

section \<open>Running an adaptor over a stream of signals\<close>

fun run_signals :: "(e2e_state \<Rightarrow> 'e signal \<Rightarrow> (e2e_state \<times> 'e signal) option) \<Rightarrow> e2e_state \<Rightarrow>
    'e signal list \<Rightarrow> (e2e_state \<times> 'e signal list) option" where
  "run_signals step st [] = Some (st, [])"
| "run_signals step st (s # ss) = do {
     (st, t) \<leftarrow> step st s;
     (st, ts) \<leftarrow> run_signals step st ss;
     Some (st, t # ts)
   }"

text \<open>A message the pipeline protects: it has a payload, and the profile's header fits in it.\<close>

definition protectable :: "e2e_config \<Rightarrow> byte list \<Rightarrow> bool" where
  "protectable cfg m \<longleftrightarrow> 16 < length m \<and> e2e_fits cfg (length m - 16)"

text \<open>The wire image of message \<open>m\<close> protected under counter \<open>c\<close>.\<close>

definition protected_as :: "e2e_config \<Rightarrow> u32 \<Rightarrow> byte list \<Rightarrow> byte list \<Rightarrow> bool" where
  "protected_as cfg c m w \<longleftrightarrow> (\<exists>h p q. m = header_bytes h @ p \<and> protect_payload cfg p c = Some q \<and>
     e2e_fits cfg (length p) \<and> p \<noteq> [] \<and> length q = length p \<and>
     w = header_bytes (h\<lparr>f_length := of_nat (length p) + 8\<rparr>) @ q)"

lemma protect_receiver_value:
  assumes "protectable (e2e_config st) m"
  obtains w where "protect_receiver st (Set_value m) =
      Some (st\<lparr>send_counter := send_counter st + 1\<rparr>, Set_value w)"
    and "protected_as (e2e_config st) (send_counter st) m w"
proof -
  have "16 \<le> length m" using assms by (simp add: protectable_def)
  then obtain h p where m: "m = header_bytes h @ p" by (rule header_cases)
  have fits: "e2e_fits (e2e_config st) (length p)" "p \<noteq> []"
    using assms by (auto simp: protectable_def m)
  then obtain q where q: "protect_payload (e2e_config st) p (send_counter st) = Some q" "length q = length p"
    using prof.delivered by blast
  let ?w = "header_bytes (h\<lparr>f_length := of_nat (length p) + 8\<rparr>) @ q"
  have "store m 16 q = Some (header_bytes h @ q)"
    using q(2) by (subst store_overwrite) (simp_all add: m overwrite_def)
  then have "protect_receiver st (Set_value m) =
      Some (st\<lparr>send_counter := send_counter st + 1\<rparr>, Set_value ?w)"
    using fits(2) q by (simp add: protect_receiver_def protect_set_value_def header_size_def mem_simps Let_def m
        hdr_setters)
  moreover have "protected_as (e2e_config st) (send_counter st) m ?w"
    using fits q m by (auto simp: protected_as_def)
  ultimately show ?thesis by (rule that)
qed

lemma check_receiver_value:
  assumes "protected_as (e2e_config rt) c m w"
    and "take_bit (e2e_bits (e2e_config rt)) (recv_counter rt) =
      take_bit (e2e_bits (e2e_config rt)) (c - of_nat n)"
    and "n < 2 ^ e2e_bits (e2e_config rt)"
  shows "check_receiver rt (Set_value w) =
    Some (rt\<lparr>recv_counter := take_bit (e2e_bits (e2e_config rt)) c\<rparr>,
      if n = 0 then Set_error (E2e_error_exception Repeated)
      else if n \<le> unat (e2e_max_delta (e2e_config rt)) then Set_value w
      else Set_error (E2e_error_exception Wrong_sequence))"
proof -
  obtain h p q where w: "protect_payload (e2e_config rt) p c = Some q" "e2e_fits (e2e_config rt) (length p)"
    "p \<noteq> []" "length q = length p" "w = header_bytes (h\<lparr>f_length := of_nat (length p) + 8\<rparr>) @ q"
    using assms(1) by (auto simp: protected_as_def)
  have "check_payload (e2e_config rt) q (recv_counter rt) =
      Some (if n = 0 then Repeated else if n \<le> unat (e2e_max_delta (e2e_config rt)) then E2e_ok
        else Wrong_sequence, take_bit (e2e_bits (e2e_config rt)) c)"
    by (rule prof.verdict_after [OF w(2,1) assms(2,3)])
  moreover have "\<not> length w \<le> header_size" using w by (cases p) (auto simp: header_size_def)
  ultimately show ?thesis
    by (simp add: check_receiver_def check_set_value_def w(5) header_size_def mem_simps Let_def)
qed

lemma protect_stream:
  assumes "\<forall>m \<in> set ms. protectable (e2e_config st) m"
  shows "\<exists>ws. run_signals protect_receiver st (map Set_value ms) =
      Some (st\<lparr>send_counter := send_counter st + of_nat (length ms)\<rparr>, map Set_value ws :: 'e signal list) \<and>
    length ws = length ms \<and>
    (\<forall>i < length ms. protected_as (e2e_config st) (send_counter st + of_nat i) (ms ! i) (ws ! i))"
  using assms
proof (induction ms arbitrary: st)
  case (Cons m ms)
  obtain w where w: "protect_receiver st (Set_value m) =
      Some (st\<lparr>send_counter := send_counter st + 1\<rparr>, Set_value w :: 'e signal)"
    "protected_as (e2e_config st) (send_counter st) m w"
    by (rule protect_receiver_value [of st m]) (use Cons.prems in auto)
  let ?st = "st\<lparr>send_counter := send_counter st + 1\<rparr>"
  have "\<forall>m \<in> set ms. protectable (e2e_config ?st) m" using Cons.prems by simp
  from Cons.IH [OF this] obtain ws where ws: "run_signals protect_receiver ?st (map Set_value ms) =
      Some (?st\<lparr>send_counter := send_counter ?st + of_nat (length ms)\<rparr>, map Set_value ws :: 'e signal list)"
    "length ws = length ms"
    "\<forall>i < length ms. protected_as (e2e_config ?st) (send_counter ?st + of_nat i) (ms ! i) (ws ! i)"
    by blast
  have "protected_as (e2e_config st) (send_counter st + of_nat i) ((m # ms) ! i) ((w # ws) ! i)"
    if "i < Suc (length ms)" for i
    using that w(2) ws(3) by (cases i) (auto simp: add_ac)
  with w(1) ws(1,2) show ?case
    by (intro exI [of _ "w # ws"]) (auto simp: add_ac)
qed simp

text \<open>Which messages of a stream arrive: in order, with runs of fewer than \<open>max_delta\<close> losses; \<open>k\<close> is
  the index the receiver expects next.\<close>

fun arrivals :: "nat \<Rightarrow> nat \<Rightarrow> nat list \<Rightarrow> bool" where
  "arrivals d k [] = True"
| "arrivals d k (j # js) = (k \<le> j \<and> j < k + d \<and> arrivals d (Suc j) js)"

lemma check_stream:
  assumes "\<forall>i < length ws. protected_as (e2e_config rt) (c + of_nat i) (ms ! i) (ws ! i)"
    and "arrivals (unat (e2e_max_delta (e2e_config rt))) k js" and "\<forall>j \<in> set js. j < length ws"
    and "unat (e2e_max_delta (e2e_config rt)) < 2 ^ e2e_bits (e2e_config rt)"
    and "take_bit (e2e_bits (e2e_config rt)) (recv_counter rt) =
      take_bit (e2e_bits (e2e_config rt)) (c + of_nat k - 1)"
  shows "\<exists>rt'. run_signals check_receiver rt (map (\<lambda>j. Set_value (ws ! j)) js) =
    Some (rt', map (\<lambda>j. Set_value (ws ! j)) js :: 'e signal list)"
  using assms
proof (induction js arbitrary: k rt)
  case (Cons j js)
  let ?b = "e2e_bits (e2e_config rt)" and ?rt = "rt\<lparr>recv_counter := take_bit (e2e_bits (e2e_config rt)) (c + of_nat j)\<rparr>"
  have le: "?b \<le> 32" by (rule prof.bits_le)
  have j: "k \<le> j" "j < k + unat (e2e_max_delta (e2e_config rt))" "j < length ws"
    using Cons.prems(2,3) by auto
  have "c + of_nat j - of_nat (Suc (j - k)) = c + of_nat k - 1"
    using j(1) by (simp add: of_nat_diff)
  then have behind: "take_bit ?b (recv_counter rt) = take_bit ?b (c + of_nat j - of_nat (Suc (j - k)))"
    using Cons.prems(5) by (simp only:)
  have "check_receiver rt (Set_value (ws ! j)) =
      Some (?rt, (if Suc (j - k) = 0 then Set_error (E2e_error_exception Repeated)
        else if Suc (j - k) \<le> unat (e2e_max_delta (e2e_config rt)) then Set_value (ws ! j)
        else Set_error (E2e_error_exception Wrong_sequence)) :: 'e signal)"
    by (rule check_receiver_value [OF _ behind, of "ms ! j"]) (use Cons.prems(1,4) j in auto)
  moreover have "\<exists>rt'. run_signals check_receiver ?rt (map (\<lambda>j. Set_value (ws ! j)) js) =
      Some (rt', map (\<lambda>j. Set_value (ws ! j)) js :: 'e signal list)"
    using Cons.prems le by (intro Cons.IH [where k = "Suc j"]) (auto simp: take_bit_take_bit)
  ultimately show ?case using j by auto
qed simp

section \<open>Properties\<close>

text \<open>C2. A stream of messages protected by one endpoint is accepted in full by the other: for every
  profile and configuration, if each message has room for the profile's header and the receiver has
  seen all messages before the stream, then every message that arrives is passed on unchanged, as
  long as fewer than \<open>max_delta_counter\<close> messages in a row are lost - across counter wrap-around.\<close>

theorem e2e_stream:
  assumes "\<forall>m \<in> set ms. protectable (e2e_config st) m"
    and "e2e_config rt = e2e_config st"
    and "take_bit (e2e_bits (e2e_config st)) (recv_counter rt) =
      take_bit (e2e_bits (e2e_config st)) (send_counter st - 1)"
    and "arrivals (unat (e2e_max_delta (e2e_config st))) 0 js" and "\<forall>j \<in> set js. j < length ms"
    and "unat (e2e_max_delta (e2e_config st)) < 2 ^ e2e_bits (e2e_config st)"
  shows "\<exists>st' ws rt'. run_signals protect_receiver st (map Set_value ms) = Some (st', map Set_value ws :: 'e signal list) \<and>
    length ws = length ms \<and>
    run_signals check_receiver rt (map (\<lambda>j. Set_value (ws ! j)) js) =
      Some (rt', map (\<lambda>j. Set_value (ws ! j)) js :: 'e signal list)"
proof -
  obtain ws where ws: "run_signals protect_receiver st (map Set_value ms) =
      Some (st\<lparr>send_counter := send_counter st + of_nat (length ms)\<rparr>, map Set_value ws :: 'e signal list)"
    "length ws = length ms"
    "\<forall>i < length ms. protected_as (e2e_config st) (send_counter st + of_nat i) (ms ! i) (ws ! i)"
    using protect_stream [OF assms(1)] by blast
  have "\<exists>rt'. run_signals check_receiver rt (map (\<lambda>j. Set_value (ws ! j)) js) =
      Some (rt', map (\<lambda>j. Set_value (ws ! j)) js :: 'e signal list)"
    by (rule check_stream [of ws rt "send_counter st" ms 0]) (use assms ws in auto)
  with ws show ?thesis by blast
qed

definition example_sender :: e2e_state where
  "example_sender = \<lparr>e2e_config = P04 (profile_04_default\<lparr>p04_max_delta := 2\<rparr>), send_counter = 0xFFFF,
     recv_counter = 0\<rparr>"

lemma e2e_stream_witness:
  "\<exists>st' ws rt'. run_signals protect_receiver example_sender (map Set_value (replicate 4 (replicate 30 7))) =
      Some (st', map Set_value ws :: unit signal list) \<and> length ws = 4 \<and>
    run_signals check_receiver (example_sender\<lparr>recv_counter := 0xFFFE\<rparr>)
        (map (\<lambda>j. Set_value (ws ! j)) [1, 2, 3]) =
      Some (rt', map (\<lambda>j. Set_value (ws ! j)) [1, 2, 3] :: unit signal list)"
proof -
  have "unat (e2e_max_delta (e2e_config example_sender)) = 2"
    by (simp add: example_sender_def profile_04_default_def)
  then show ?thesis
    using e2e_stream [of "replicate 4 (replicate 30 7)" example_sender
        "example_sender\<lparr>recv_counter := 0xFFFE\<rparr>" "[1, 2, 3]"]
    by (simp add: protectable_def) (simp add: example_sender_def)
qed

text \<open>C8. The verdict on one protected message that arrives intact, when the last message the receiver
  accounted for is \<open>n\<close> messages back: the same message again is an error \<open>Repeated\<close>, up to
  \<open>max_delta_counter\<close> messages on it is passed through, further on it is \<open>Wrong_sequence\<close>; in every
  case the receiver resynchronises to its counter.\<close>

theorem e2e_verdicts:
  assumes "protectable (e2e_config st) m" and "e2e_config rt = e2e_config st"
    and "take_bit (e2e_bits (e2e_config st)) (recv_counter rt) =
      take_bit (e2e_bits (e2e_config st)) (send_counter st - of_nat n)"
    and "n < 2 ^ e2e_bits (e2e_config st)"
  shows "\<exists>w. protect_receiver st (Set_value m) =
      Some (st\<lparr>send_counter := send_counter st + 1\<rparr>, Set_value w :: 'e signal) \<and>
    length w = length m \<and>
    (length m < 2 ^ 32 \<longrightarrow> hdr_payload_length w = Some (of_nat (length m - 16))) \<and>
    check_receiver rt (Set_value w) =
      Some (rt\<lparr>recv_counter := take_bit (e2e_bits (e2e_config st)) (send_counter st)\<rparr>,
        (if n = 0 then Set_error (E2e_error_exception Repeated)
         else if n \<le> unat (e2e_max_delta (e2e_config st)) then Set_value w
         else Set_error (E2e_error_exception Wrong_sequence)) :: 'e signal)"
proof -
  obtain w where w: "protect_receiver st (Set_value m) =
      Some (st\<lparr>send_counter := send_counter st + 1\<rparr>, Set_value w :: 'e signal)"
    "protected_as (e2e_config st) (send_counter st) m w"
    by (rule protect_receiver_value [OF assms(1)])
  moreover have "length w = length m"
    using w(2) by (auto simp: protected_as_def)
  moreover have "hdr_payload_length w = Some (of_nat (length m - 16))" if "length m < 2 ^ 32"
  proof -
    have "8 \<le> (of_nat n + 8 :: u32)" if "n + 16 < 2 ^ 32" for n
      using that unat_of_nat_small [of "n + 8", where 'a = 32] by (simp add: word_le_nat_alt)
    from this [of "length m - 16"] that show ?thesis
      using w(2) by (auto simp: protected_as_def hdr_getters)
  qed
  moreover have "check_receiver rt (Set_value w) =
      Some (rt\<lparr>recv_counter := take_bit (e2e_bits (e2e_config st)) (send_counter st)\<rparr>,
        (if n = 0 then Set_error (E2e_error_exception Repeated)
         else if n \<le> unat (e2e_max_delta (e2e_config st)) then Set_value w
         else Set_error (E2e_error_exception Wrong_sequence)) :: 'e signal)"
    unfolding assms(2) [symmetric]
    by (rule check_receiver_value [OF w(2) [folded assms(2)]]) (use assms(2-4) in simp_all)
  ultimately show ?thesis using w(1) by blast
qed

lemma e2e_verdicts_witness:
  "\<exists>w. check_receiver (example_sender\<lparr>recv_counter := 0xFFFC\<rparr>) (Set_value w) =
    Some (example_sender\<lparr>recv_counter := 0xFFFF\<rparr>, Set_error (E2e_error_exception Wrong_sequence) :: unit signal)"
  using e2e_verdicts [where 'e = unit, of example_sender "replicate 30 7" "example_sender\<lparr>recv_counter := 0xFFFC\<rparr>" 3]
  by (auto simp: protectable_def example_sender_def profile_04_default_def)

lemma check_payload_signal:
  assumes "length pre = 16" "q \<noteq> []" "check_payload (e2e_config rt) q (recv_counter rt) = Some (r, l')"
  shows "check_receiver rt (Set_value (pre @ q)) = Some (rt\<lparr>recv_counter := l'\<rparr>,
    if r = E2e_ok \<or> r = No_new_data then Set_value (pre @ q) else Set_error (E2e_error_exception r))"
  using assms by (simp add: check_receiver_def check_set_value_def header_size_def mem_simps Let_def)

lemma protected_wire_payload:
  assumes "protectable (e2e_config st) m" "protect_receiver st (Set_value m) = Some (st', Set_value (pre @ q) :: 'e signal)"
    and "length pre = 16"
  obtains p where "protect_payload (e2e_config st) p (send_counter st) = Some q"
    "e2e_fits (e2e_config st) (length p)" "q \<noteq> []"
proof -
  obtain w' where "protect_receiver st (Set_value m) =
      Some (st\<lparr>send_counter := send_counter st + 1\<rparr>, Set_value w' :: 'e signal)"
    and "protected_as (e2e_config st) (send_counter st) m w'"
    by (rule protect_receiver_value [OF assms(1)])
  with assms(2) have "protected_as (e2e_config st) (send_counter st) m (pre @ q)" by simp
  then obtain h p q' where w: "protect_payload (e2e_config st) p (send_counter st) = Some q'"
    "e2e_fits (e2e_config st) (length p)" "p \<noteq> []" "length q' = length p"
    "pre @ q = header_bytes (h\<lparr>f_length := of_nat (length p) + 8\<rparr>) @ q'"
    by (auto simp: protected_as_def)
  then have "q' = q" using assms(3) by (metis append_eq_append_conv length_header_bytes)
  with w(1-4) show ?thesis by (intro that [of p]) auto
qed

text \<open>C7. Corruption in transit. A burst in the payload of a protected message that the profile's CRC is
  sure to detect is never delivered: the receiver reports \<open>Wrong_crc\<close> or \<open>E2e_error\<close> and its counter
  stays where it was, so the next intact message is judged as if the corrupted one had been lost. These
  bursts are: any one byte under profile 01; one byte under profile 02, the counter byte only if the new
  value and the data id it selects do not have the CRC of the old ones; up to four (profile 04) or eight
  (profile 07) consecutive bytes that lie wholly outside or wholly inside the stored CRC. Longer bursts
  and those across an edge of the stored CRC are not claimed. The exception of profile 02 is real: a
  counter byte changed to such an alias is accepted as the message of the changed counter.\<close>

theorem e2e_corruption:
  assumes "protectable (e2e_config st) m" and "e2e_config rt = e2e_config st"
    and "protect_receiver st (Set_value m) = Some (st', Set_value w :: 'e signal)"
    and "w = pre @ xs @ d @ ys" and "length pre = 16" and "length e = length d" and "d \<noteq> e"
  shows "(e2e_guarded (e2e_config st) (length xs) d e \<longrightarrow>
      (\<exists>rt' r. check_receiver rt (Set_value (pre @ xs @ e @ ys)) =
        Some (rt', Set_error (E2e_error_exception r) :: 'e signal) \<and>
      r \<in> {Wrong_crc, E2e_error} \<and> e2e_config rt' = e2e_config rt \<and>
      take_bit (e2e_bits (e2e_config st)) (recv_counter rt') =
        take_bit (e2e_bits (e2e_config st)) (recv_counter rt))) \<and>
    (\<forall>cfg b b'. e2e_config st = P02 cfg \<and> length xs = 1 \<and> d = [b] \<and> e = [b'] \<and> p02_alias cfg b b' \<longrightarrow>
      (let r = delta_verdict (take_bit 4 (ucast b' - recv_counter rt)) (ucast (p02_max_delta cfg))
       in check_receiver rt (Set_value (pre @ xs @ e @ ys)) =
         Some (rt\<lparr>recv_counter := take_bit 4 (ucast b')\<rparr>, (if r = E2e_ok then Set_value (pre @ xs @ e @ ys)
           else Set_error (E2e_error_exception r)) :: 'e signal)))"
proof (intro conjI allI impI)
  obtain p where p: "protect_payload (e2e_config st) p (send_counter st) = Some (xs @ d @ ys)"
      "e2e_fits (e2e_config st) (length p)" "xs @ d @ ys \<noteq> []"
    by (rule protected_wire_payload [OF assms(1) assms(3) [unfolded assms(4)] assms(5)])
  have ne: "xs @ e @ ys \<noteq> []" using p(3) assms(6) by auto
  note signal = check_payload_signal [OF assms(5) ne, of rt, unfolded assms(2), where 'a = 'e]
  {
    assume "e2e_guarded (e2e_config st) (length xs) d e"
    then obtain r l' where "check_payload (e2e_config st) (xs @ e @ ys) (recv_counter rt) = Some (r, l')"
      "r \<in> {Wrong_crc, E2e_error}"
      "take_bit (e2e_bits (e2e_config st)) l' = take_bit (e2e_bits (e2e_config st)) (recv_counter rt)"
      using prof.corrupted [OF p(2,1) assms(6,7)] by blast
    with signal show "\<exists>rt' r. check_receiver rt (Set_value (pre @ xs @ e @ ys)) =
        Some (rt', Set_error (E2e_error_exception r) :: 'e signal) \<and>
      r \<in> {Wrong_crc, E2e_error} \<and> e2e_config rt' = e2e_config rt \<and>
      take_bit (e2e_bits (e2e_config st)) (recv_counter rt') =
        take_bit (e2e_bits (e2e_config st)) (recv_counter rt)"
      by auto
  next
    fix cfg b b'
    assume p02: "e2e_config st = P02 cfg \<and> length xs = 1 \<and> d = [b] \<and> e = [b'] \<and> p02_alias cfg b b'"
    then obtain x where "xs = [x]" by (cases xs) auto
    with p02 p have "check_payload (P02 cfg) (xs @ e @ ys) (recv_counter rt) =
        Some (delta_verdict (take_bit 4 (ucast b' - recv_counter rt)) (ucast (p02_max_delta cfg)), take_bit 4 (ucast b'))"
      using p02_counter_byte [of p cfg "send_counter st" x b ys b' "recv_counter rt"] by simp
    with signal p02 show "let r = delta_verdict (take_bit 4 (ucast b' - recv_counter rt)) (ucast (p02_max_delta cfg))
       in check_receiver rt (Set_value (pre @ xs @ e @ ys)) =
         Some (rt\<lparr>recv_counter := take_bit 4 (ucast b')\<rparr>, (if r = E2e_ok then Set_value (pre @ xs @ e @ ys)
           else Set_error (E2e_error_exception r)) :: 'e signal)"
      by (auto simp: Let_def delta_verdict_def)
  }
qed

lemma e2e_corruption_witness:
  "\<exists>w rt' r. check_receiver example_sender (Set_value (take 16 w @ drop 16 w)) =
     Some (rt', Set_error (E2e_error_exception r) :: unit signal) \<and> r \<in> {Wrong_crc, E2e_error}"
proof -
  obtain w where w: "protect_receiver example_sender (Set_value (replicate 30 7)) =
      Some (example_sender\<lparr>send_counter := send_counter example_sender + 1\<rparr>, Set_value w :: unit signal)"
    "protected_as (e2e_config example_sender) (send_counter example_sender) (replicate 30 7) w"
    by (rule protect_receiver_value [of example_sender "replicate 30 7"])
      (auto simp: protectable_def example_sender_def profile_04_default_def)
  have len: "length w = 30" using w(2) by (auto simp: protected_as_def dest: arg_cong [where f = length])
  let ?ys = "drop 17 w"
  have "w = take 16 w @ [] @ [w ! 16] @ ?ys"
    using len id_take_nth_drop [of 16 w] by simp
  from e2e_corruption [OF _ refl w(1) this, of "[w ! 16 + 1]"] len
  have "\<exists>rt' r. check_receiver example_sender (Set_value (take 16 w @ [w ! 16 + 1] @ ?ys)) =
      Some (rt', Set_error (E2e_error_exception r) :: unit signal) \<and> r \<in> {Wrong_crc, E2e_error}"
    by (auto simp: protectable_def example_sender_def profile_04_default_def)
  then show ?thesis
    using len by (intro exI [of _ "take 16 w @ [w ! 16 + 1] @ ?ys"]) simp
qed

text \<open>The configuration's own arrays: the C++ type fixes the length of the profile 02 id list.\<close>

definition ids_full :: "e2e_config \<Rightarrow> bool" where
  "ids_full cfg = (case cfg of P02 c \<Rightarrow> length (p02_data_id_list c) = 16 | _ \<Rightarrow> True)"

definition offsets_inside :: "e2e_config \<Rightarrow> nat \<Rightarrow> bool" where
  "offsets_inside cfg n = (case cfg of
     P01 c \<Rightarrow> n < 2 \<or> unat (p01_crc_offset c) < n \<and> unat (p01_counter_offset c) < n
   | _ \<Rightarrow> True)"

lemma p01_defined:
  "p01_protect p cfg c \<noteq> None \<longleftrightarrow> offsets_inside (P01 cfg) (length p)"
  "p01_check p cfg l \<noteq> None \<longleftrightarrow> offsets_inside (P01 cfg) (length p)"
  by (auto simp: p01_protect_def p01_check_def peek_def poke_def offsets_inside_def Let_def)

lemma p02_defined:
  assumes "length (p02_data_id_list cfg) = 16"
  shows "p02_protect p cfg c \<noteq> None" "p02_check p cfg l \<noteq> None"
proof -
  consider "length p < 2" | a b r where "p = a # b # r" by (cases p; cases "tl p") auto
  then show "p02_protect p cfg c \<noteq> None" "p02_check p cfg l \<noteq> None"
    using assms by (cases; simp add: p02_protect_eq p02_check_eq; simp add: p02_protect_def p02_check_def)+
qed

lemma p04_defined: "p04_protect p cfg c \<noteq> None" "p04_check p cfg l \<noteq> None"
proof -
  consider "length p < 12" | n c i x d where "p = p04_frame n c i (be32 x) d"
    using p04_cases [of p] by (metis not_le)
  then show "p04_protect p cfg c \<noteq> None" "p04_check p cfg l \<noteq> None"
    by (cases; simp add: p04_protect_eq p04_check_eq Let_def;
        simp add: p04_protect_def p04_check_def p04_header_size_def)+
qed

lemma p07_defined: "p07_protect p cfg c \<noteq> None" "p07_check p cfg l \<noteq> None"
proof -
  consider "length p < 20" | n c i x d where "p = p07_frame n c i (be64 x) d"
    using p07_cases [of p] by (metis not_le)
  then show "p07_protect p cfg c \<noteq> None" "p07_check p cfg l \<noteq> None"
    by (cases; simp add: p07_protect_eq p07_check_eq Let_def;
        simp add: p07_protect_def p07_check_def p07_header_size_def)+
qed

lemma payload_defined:
  assumes "ids_full cfg"
  shows "protect_payload cfg p c \<noteq> None \<longleftrightarrow> offsets_inside cfg (length p)"
    and "check_payload cfg p c \<noteq> None \<longleftrightarrow> offsets_inside cfg (length p)"
proof -
  show "protect_payload cfg p c \<noteq> None \<longleftrightarrow> offsets_inside cfg (length p)"
    using assms p01_defined(1) p02_defined(1) p04_defined(1) p07_defined(1)
    by (cases cfg) (simp_all add: protect_payload_def ids_full_def offsets_inside_def)
  show "check_payload cfg p c \<noteq> None \<longleftrightarrow> offsets_inside cfg (length p)"
  proof (cases cfg)
    case (P01 c1)
    then show ?thesis using p01_defined(2) [of p c1 "ucast c"]
      by (cases "p01_check p c1 (ucast c)") (auto simp: check_payload_def)
  next
    case (P02 c2)
    then show ?thesis using p02_defined(2) [of c2 p "ucast c"] assms
      by (auto simp: check_payload_def offsets_inside_def ids_full_def split: prod.splits)
  next
    case (P04 c4)
    then show ?thesis using p04_defined(2) [of p c4 "ucast c"]
      by (auto simp: check_payload_def offsets_inside_def split: prod.splits)
  next
    case (P07 c7)
    then show ?thesis using p07_defined(2) [of p c7 c]
      by (auto simp: check_payload_def offsets_inside_def)
  qed
qed

lemma protect_length:
  assumes "protect_payload cfg p c = Some q"
  shows "length q = length p"
proof -
  have st: "store m k xs = Some m' \<Longrightarrow> length m' = length m" for m k xs and m' :: "byte list"
    by (auto simp: store_eq_Some_iff)
  note lens = st poke_length
  show ?thesis
    using assms
    by (cases cfg) (auto simp: protect_payload_def p01_protect_def p02_protect_def p04_protect_def
        p07_protect_def write_u16_be_store write_u32_be_store write_u64_be_store bind_eq_Some_conv Let_def
        split: if_splits dest!: lens)
qed

text \<open>C11. What the adaptors touch: neither ever accesses memory outside the message, whatever arrives,
  except that the code does not check the offsets configured for profile 01 - a payload of two bytes
  or more that does not contain them is undefined behaviour on both sides.\<close>

theorem e2e_memory:
  assumes "ids_full (e2e_config st)"
  shows "(check_receiver st s \<noteq> None \<longleftrightarrow>
      (\<forall>m. s = Set_value m \<longrightarrow> length m \<le> 16 \<or> offsets_inside (e2e_config st) (length m - 16))) \<and>
    (protect_receiver st s \<noteq> None \<longleftrightarrow>
      (\<forall>m. s = Set_value m \<longrightarrow> length m \<le> 16 \<or> offsets_inside (e2e_config st) (length m - 16)))"
proof (cases s)
  case (Set_value m)
  show ?thesis
  proof (cases "length m \<le> 16")
    case True
    then show ?thesis
      by (simp add: Set_value check_receiver_def protect_receiver_def check_set_value_def
          protect_set_value_def header_size_def)
  next
    case False
    then obtain h p where m: "m = header_bytes h @ p" "p \<noteq> []"
      using header_cases [of m] by (metis append_Nil2 length_header_bytes nle_le)
    have "check_receiver st s \<noteq> None \<longleftrightarrow> check_payload (e2e_config st) p (recv_counter st) \<noteq> None"
      by (cases "check_payload (e2e_config st) p (recv_counter st)")
        (auto simp: Set_value m check_receiver_def check_set_value_def header_size_def mem_simps Let_def)
    moreover have "protect_receiver st s \<noteq> None \<longleftrightarrow> protect_payload (e2e_config st) p (send_counter st) \<noteq> None"
    proof (cases "protect_payload (e2e_config st) p (send_counter st)")
      case (Some q)
      have "store m 16 q = Some (header_bytes h @ q)"
        using protect_length [OF Some] by (subst store_overwrite) (simp_all add: m overwrite_def)
      with Some m show ?thesis
        by (simp add: Set_value protect_receiver_def protect_set_value_def header_size_def mem_simps
            Let_def hdr_setters)
    qed (simp add: Set_value m protect_receiver_def protect_set_value_def header_size_def mem_simps)
    ultimately show ?thesis
      using payload_defined [OF assms, of p] False by (simp add: Set_value m)
  qed
qed (simp_all add: check_receiver_def protect_receiver_def)

lemma e2e_memory_witness:
  "protect_receiver (e2e_state_init (P01 (profile_01_default\<lparr>p01_crc_offset := 9\<rparr>)))
     (Set_value (replicate 20 0)) = (None :: (e2e_state \<times> unit signal) option)"
  using e2e_memory [where 'a = unit, of "e2e_state_init (P01 (profile_01_default\<lparr>p01_crc_offset := 9\<rparr>))" "Set_value (replicate 20 0)"]
  by (simp add: ids_full_def e2e_state_init_def offsets_inside_def profile_01_default_def del: not_None_eq)

end
