(* ===== verification/Sd_Entry.thy ===== *)
theory Sd_Entry
  imports Wire_Types Byte_Order
begin

text \<open>
  \<open>sd/entry.hpp\<close>: the 16-byte service-discovery entry, its reader, its writer and the convenience
  constructors. \<open>entry_type\<close> is a C++ enum with a fixed underlying type, so any byte is a value.
\<close>

datatype entry_type = Entry_type (et_code: u8)

definition find_service :: entry_type where "find_service = Entry_type 0x00"
definition offer_service :: entry_type where "offer_service = Entry_type 0x01"
definition subscribe_eventgroup :: entry_type where "subscribe_eventgroup = Entry_type 0x06"
definition subscribe_eventgroup_ack :: entry_type where "subscribe_eventgroup_ack = Entry_type 0x07"

definition entry_size :: nat where "entry_size = 16"

definition is_service_entry :: "entry_type \<Rightarrow> bool" where
  "is_service_entry t \<longleftrightarrow> et_code t \<le> 0x02"

definition is_eventgroup_entry :: "entry_type \<Rightarrow> bool" where
  "is_eventgroup_entry t \<longleftrightarrow> 0x04 \<le> et_code t"

record sd_entry =
  ent_type :: entry_type
  ent_index_1st :: u8
  ent_index_2nd :: u8
  ent_num_options_1st :: u8
  ent_num_options_2nd :: u8
  ent_service :: service_id
  ent_instance :: instance_id
  ent_major :: u8
  ent_ttl :: u32
  ent_minor :: u32
  ent_eventgroup :: eventgroup_id

text \<open>\<open>sd_entry{}\<close>: every member value-initialised.\<close>

definition sd_entry_default :: sd_entry where
  "sd_entry_default =
     \<lparr>ent_type = Entry_type 0, ent_index_1st = 0, ent_index_2nd = 0, ent_num_options_1st = 0,
      ent_num_options_2nd = 0, ent_service = Strong_id 0, ent_instance = Strong_id 0, ent_major = 0,
      ent_ttl = 0, ent_minor = 0, ent_eventgroup = Strong_id 0\<rparr>"

definition read_entry :: "byte list \<Rightarrow> sd_entry option" where
  "read_entry buf = do {
     b0 \<leftarrow> peek buf 0;
     b1 \<leftarrow> peek buf 1;
     b2 \<leftarrow> peek buf 2;
     opts_byte \<leftarrow> peek buf 3;
     service \<leftarrow> read_u16_be buf 4;
     inst \<leftarrow> read_u16_be buf 6;
     major \<leftarrow> peek buf 8;
     b9 \<leftarrow> peek buf 9;
     b10 \<leftarrow> peek buf 10;
     b11 \<leftarrow> peek buf 11;
     let e = sd_entry_default
       \<lparr>ent_type := Entry_type b0, ent_index_1st := b1, ent_index_2nd := b2,
        ent_num_options_1st := drop_bit 4 opts_byte AND 0x0F,
        ent_num_options_2nd := opts_byte AND 0x0F,
        ent_service := Strong_id service, ent_instance := Strong_id inst, ent_major := major,
        ent_ttl := push_bit 16 (ucast b9) OR push_bit 8 (ucast b10) OR ucast b11\<rparr>;
     if is_service_entry (ent_type e)
     then do {
       minor \<leftarrow> read_u32_be buf 12;
       Some (e\<lparr>ent_minor := minor\<rparr>)
     }
     else do {
       eg \<leftarrow> read_u16_be buf 14;
       Some (e\<lparr>ent_eventgroup := Strong_id eg\<rparr>)
     }
   }"

definition write_entry :: "byte list \<Rightarrow> sd_entry \<Rightarrow> byte list option" where
  "write_entry buf e = do {
     p \<leftarrow> poke buf 0 (et_code (ent_type e));
     p \<leftarrow> poke p 1 (ent_index_1st e);
     p \<leftarrow> poke p 2 (ent_index_2nd e);
     p \<leftarrow> poke p 3 (push_bit 4 (ent_num_options_1st e) OR (ent_num_options_2nd e AND 0x0F));
     p \<leftarrow> write_u16_be p 4 (id_value (ent_service e));
     p \<leftarrow> write_u16_be p 6 (id_value (ent_instance e));
     p \<leftarrow> poke p 8 (ent_major e);
     p \<leftarrow> poke p 9 (ucast (drop_bit 16 (ent_ttl e) AND 0xFF));
     p \<leftarrow> poke p 10 (ucast (drop_bit 8 (ent_ttl e) AND 0xFF));
     p \<leftarrow> poke p 11 (ucast (ent_ttl e AND 0xFF));
     if is_service_entry (ent_type e)
     then write_u32_be p 12 (ent_minor e)
     else do {
       p \<leftarrow> poke p 12 0;
       p \<leftarrow> poke p 13 0;
       write_u16_be p 14 (id_value (ent_eventgroup e))
     }
   }"

section \<open>Convenience constructors\<close>

definition make_find_service :: "service_id \<Rightarrow> instance_id \<Rightarrow> u8 \<Rightarrow> u32 \<Rightarrow> u32 \<Rightarrow> sd_entry" where
  "make_find_service service inst major minor ttl =
     sd_entry_default\<lparr>ent_type := find_service, ent_service := service, ent_instance := inst,
       ent_major := major, ent_ttl := ttl, ent_minor := minor\<rparr>"

definition make_offer_service :: "service_id \<Rightarrow> instance_id \<Rightarrow> u8 \<Rightarrow> u32 \<Rightarrow> u32 \<Rightarrow> sd_entry" where
  "make_offer_service service inst major minor ttl =
     sd_entry_default\<lparr>ent_type := offer_service, ent_service := service, ent_instance := inst,
       ent_major := major, ent_ttl := ttl, ent_minor := minor\<rparr>"

definition make_stop_offer :: "service_id \<Rightarrow> instance_id \<Rightarrow> u8 \<Rightarrow> u32 \<Rightarrow> sd_entry" where
  "make_stop_offer service inst major minor = make_offer_service service inst major minor 0"

definition make_subscribe ::
    "service_id \<Rightarrow> instance_id \<Rightarrow> u8 \<Rightarrow> eventgroup_id \<Rightarrow> u32 \<Rightarrow> sd_entry" where
  "make_subscribe service inst major eg ttl =
     sd_entry_default\<lparr>ent_type := subscribe_eventgroup, ent_service := service, ent_instance := inst,
       ent_major := major, ent_ttl := ttl, ent_eventgroup := eg\<rparr>"

definition make_subscribe_ack ::
    "service_id \<Rightarrow> instance_id \<Rightarrow> u8 \<Rightarrow> eventgroup_id \<Rightarrow> u32 \<Rightarrow> sd_entry" where
  "make_subscribe_ack service inst major eg ttl =
     sd_entry_default\<lparr>ent_type := subscribe_eventgroup_ack, ent_service := service,
       ent_instance := inst, ent_major := major, ent_ttl := ttl, ent_eventgroup := eg\<rparr>"

definition make_subscribe_nack ::
    "service_id \<Rightarrow> instance_id \<Rightarrow> u8 \<Rightarrow> eventgroup_id \<Rightarrow> sd_entry" where
  "make_subscribe_nack service inst major eg = make_subscribe_ack service inst major eg 0"

end
