(* ===== verification/Sd_Option.thy ===== *)
theory Sd_Option
  imports Byte_Order
begin

text \<open>
  \<open>sd/option.hpp\<close>: IPv4 and IPv6 endpoint and multicast options. The address arrays are byte lists of
  the length the C++ array types fix (4 and 16); \<open>option_type\<close> and \<open>l4_protocol\<close> are enums with a
  fixed underlying type.
\<close>

datatype option_type = Option_type (ot_code: u8)

definition configuration_option :: option_type where "configuration_option = Option_type 0x01"
definition load_balancing_option :: option_type where "load_balancing_option = Option_type 0x02"
definition protection_option :: option_type where "protection_option = Option_type 0x03"
definition ipv4_endpoint :: option_type where "ipv4_endpoint = Option_type 0x04"
definition ipv6_endpoint :: option_type where "ipv6_endpoint = Option_type 0x06"
definition ipv4_multicast :: option_type where "ipv4_multicast = Option_type 0x14"
definition ipv6_multicast :: option_type where "ipv6_multicast = Option_type 0x16"
definition selective_option :: option_type where "selective_option = Option_type 0x20"

datatype l4_protocol = L4_protocol (l4_code: u8)

definition l4_tcp :: l4_protocol where "l4_tcp = L4_protocol 0x06"
definition l4_udp :: l4_protocol where "l4_udp = L4_protocol 0x11"

definition option_header_size :: nat where "option_header_size = 4"
definition ipv4_option_size :: nat where "ipv4_option_size = 12"
definition ipv6_option_size :: nat where "ipv6_option_size = 24"

record ip_option =
  opt_type :: option_type
  opt_address :: "byte list"
  opt_protocol :: l4_protocol
  opt_port :: u16

text \<open>\<open>ipv4_option\<close> and \<open>ipv6_option\<close> differ in the length of the address array.\<close>

datatype sd_option = Ipv4_option ip_option | Ipv6_option ip_option

definition peek_option_type :: "byte list \<Rightarrow> option_type option" where
  "peek_option_type buf = map_option Option_type (peek buf 2)"

definition read_option_size :: "byte list \<Rightarrow> nat option" where
  "read_option_size buf = do { len \<leftarrow> read_u16_be buf 0; Some (unat len + 3) }"

definition read_ipv4_option :: "byte list \<Rightarrow> ip_option option" where
  "read_ipv4_option buf = do {
     t \<leftarrow> peek buf 2;
     a0 \<leftarrow> peek buf 4;
     a1 \<leftarrow> peek buf 5;
     a2 \<leftarrow> peek buf 6;
     a3 \<leftarrow> peek buf 7;
     proto \<leftarrow> peek buf 9;
     port \<leftarrow> read_u16_be buf 10;
     Some \<lparr>opt_type = Option_type t, opt_address = [a0, a1, a2, a3],
           opt_protocol = L4_protocol proto, opt_port = port\<rparr>
   }"

text \<open>\<open>for (i = 0; i < n; ++i) dst[i] = p[off + i]\<close>\<close>

fun peek_bytes :: "byte list \<Rightarrow> nat \<Rightarrow> nat \<Rightarrow> byte list option" where
  "peek_bytes m off 0 = Some []"
| "peek_bytes m off (Suc n) = do { b \<leftarrow> peek m off; bs \<leftarrow> peek_bytes m (Suc off) n; Some (b # bs) }"

definition read_ipv6_option :: "byte list \<Rightarrow> ip_option option" where
  "read_ipv6_option buf = do {
     t \<leftarrow> peek buf 2;
     address \<leftarrow> peek_bytes buf 4 16;
     proto \<leftarrow> peek buf 21;
     port \<leftarrow> read_u16_be buf 22;
     Some \<lparr>opt_type = Option_type t, opt_address = address,
           opt_protocol = L4_protocol proto, opt_port = port\<rparr>
   }"

definition write_ipv4_option :: "byte list \<Rightarrow> ip_option \<Rightarrow> byte list option" where
  "write_ipv4_option buf opt = do {
     p \<leftarrow> write_u16_be buf 0 0x0009;
     p \<leftarrow> poke p 2 (ot_code (opt_type opt));
     p \<leftarrow> poke p 3 0;
     a0 \<leftarrow> peek (opt_address opt) 0;
     p \<leftarrow> poke p 4 a0;
     a1 \<leftarrow> peek (opt_address opt) 1;
     p \<leftarrow> poke p 5 a1;
     a2 \<leftarrow> peek (opt_address opt) 2;
     p \<leftarrow> poke p 6 a2;
     a3 \<leftarrow> peek (opt_address opt) 3;
     p \<leftarrow> poke p 7 a3;
     p \<leftarrow> poke p 8 0;
     p \<leftarrow> poke p 9 (l4_code (opt_protocol opt));
     write_u16_be p 10 (opt_port opt)
   }"

definition write_ipv6_option :: "byte list \<Rightarrow> ip_option \<Rightarrow> byte list option" where
  "write_ipv6_option buf opt = do {
     p \<leftarrow> write_u16_be buf 0 0x0015;
     p \<leftarrow> poke p 2 (ot_code (opt_type opt));
     p \<leftarrow> poke p 3 0;
     address \<leftarrow> peek_bytes (opt_address opt) 0 16;
     p \<leftarrow> store p 4 address;
     p \<leftarrow> poke p 20 0;
     p \<leftarrow> poke p 21 (l4_code (opt_protocol opt));
     write_u16_be p 22 (opt_port opt)
   }"

text \<open>\<open>write_option\<close> returns the number of bytes written beside the updated buffer.\<close>

definition write_option :: "byte list \<Rightarrow> sd_option \<Rightarrow> (byte list \<times> nat) option" where
  "write_option buf opt = (case opt of
     Ipv4_option o4 \<Rightarrow> do { buf \<leftarrow> write_ipv4_option buf o4; Some (buf, ipv4_option_size) }
   | Ipv6_option o6 \<Rightarrow> do { buf \<leftarrow> write_ipv6_option buf o6; Some (buf, ipv6_option_size) })"

definition make_ipv4_endpoint :: "u8 \<Rightarrow> u8 \<Rightarrow> u8 \<Rightarrow> u8 \<Rightarrow> l4_protocol \<Rightarrow> u16 \<Rightarrow> ip_option" where
  "make_ipv4_endpoint a b c d proto port =
     \<lparr>opt_type = ipv4_endpoint, opt_address = [a, b, c, d], opt_protocol = proto, opt_port = port\<rparr>"

definition make_ipv4_multicast :: "u8 \<Rightarrow> u8 \<Rightarrow> u8 \<Rightarrow> u8 \<Rightarrow> l4_protocol \<Rightarrow> u16 \<Rightarrow> ip_option" where
  "make_ipv4_multicast a b c d proto port =
     \<lparr>opt_type = ipv4_multicast, opt_address = [a, b, c, d], opt_protocol = proto, opt_port = port\<rparr>"

end
