(* ===== verification/Sd_Message.thy ===== *)
theory Sd_Message
  imports Sd_Entry Sd_Option Wire_Header
begin

text \<open>
  \<open>sd/message.hpp\<close>: the service-discovery payload - flags, entries array, options array - and the
  complete SD message. \<open>deserialize_sd\<close> returns \<open>std::expected\<close>, here a sum inside the option that
  stands for memory safety. The sum of the entries length check is computed in 32 bits, as in C++.
\<close>

record sd_flags =
  flag_reboot :: bool
  flag_unicast :: bool

definition sd_flags_default :: sd_flags where
  "sd_flags_default = \<lparr>flag_reboot = False, flag_unicast = True\<rparr>"

definition flags_to_byte :: "sd_flags \<Rightarrow> u8" where
  "flags_to_byte f = (if flag_reboot f then 0x80 else 0) OR (if flag_unicast f then 0x40 else 0)"

definition flags_from_byte :: "u8 \<Rightarrow> sd_flags" where
  "flags_from_byte b = \<lparr>flag_reboot = (b AND 0x80 \<noteq> 0), flag_unicast = (b AND 0x40 \<noteq> 0)\<rparr>"

definition sd_min_payload_size :: nat where "sd_min_payload_size = 12"

record sd_message =
  sd_flags :: sd_flags
  sd_entries :: "sd_entry list"
  sd_options :: "sd_option list"

datatype sd_error =
    Sd_ok
  | Sd_buffer_too_small
  | Invalid_entries_length
  | Invalid_options_length
  | Truncated_entry
  | Truncated_option
  | Unknown_option_type

section \<open>Deserialisation\<close>

text \<open>The entries loop: \<open>n\<close> entries left, the next one at \<open>off\<close>.\<close>

fun read_entries :: "byte list \<Rightarrow> nat \<Rightarrow> nat \<Rightarrow> (sd_error + sd_entry list \<times> nat) option" where
  "read_entries payload off 0 = Some (Inr ([], off))"
| "read_entries payload off (Suc n) =
     (if length payload < off + entry_size then Some (Inl Truncated_entry)
      else do {
        s \<leftarrow> subspan payload off entry_size;
        e \<leftarrow> read_entry s;
        rest \<leftarrow> read_entries payload (off + entry_size) n;
        Some (case rest of Inl err \<Rightarrow> Inl err | Inr (es, off) \<Rightarrow> Inr (e # es, off))
      })"

text \<open>What the \<open>switch\<close> on the option type does with one option of the given size.\<close>

definition read_one_option :: "byte list \<Rightarrow> nat \<Rightarrow> nat \<Rightarrow> option_type \<Rightarrow> (sd_error + sd_option list) option" where
  "read_one_option payload off opt_size otype =
     (if otype = ipv4_endpoint \<or> otype = ipv4_multicast
      then if opt_size < ipv4_option_size then Some (Inl Truncated_option)
           else do {
             s \<leftarrow> subspan payload off ipv4_option_size;
             o4 \<leftarrow> read_ipv4_option s;
             Some (Inr [Ipv4_option o4])
           }
      else if otype = ipv6_endpoint \<or> otype = ipv6_multicast
      then if opt_size < ipv6_option_size then Some (Inl Truncated_option)
           else do {
             s \<leftarrow> subspan payload off ipv6_option_size;
             o6 \<leftarrow> read_ipv6_option s;
             Some (Inr [Ipv6_option o6])
           }
      else Some (Inr []))"

lemma read_option_size_pos: "read_option_size buf = Some n \<Longrightarrow> 3 \<le> n"
  by (auto simp: read_option_size_def bind_eq_Some_conv)

function read_options :: "byte list \<Rightarrow> nat \<Rightarrow> nat \<Rightarrow> (sd_error + sd_option list) option" where
  "read_options payload off options_end =
     (if off < options_end
      then if options_end < off + option_header_size then Some (Inl Truncated_option)
      else do {
        s \<leftarrow> subspan_from payload off;
        opt_size \<leftarrow> read_option_size s;
        if options_end < off + opt_size then Some (Inl Truncated_option)
        else do {
          otype \<leftarrow> peek_option_type s;
          r \<leftarrow> read_one_option payload off opt_size otype;
          case r of
            Inl err \<Rightarrow> Some (Inl err)
          | Inr os \<Rightarrow> do {
              rest \<leftarrow> read_options payload (off + opt_size) options_end;
              Some (case rest of Inl err \<Rightarrow> Inl err | Inr os' \<Rightarrow> Inr (os @ os'))
            }
        }
      }
      else Some (Inr []))"
  by pat_completeness auto
termination
  by (relation "measure (\<lambda>(_, off, options_end). options_end - off)")
    (auto dest!: read_option_size_pos)

declare read_options.simps [simp del]

definition deserialize_sd :: "byte list \<Rightarrow> (sd_error + sd_message) option" where
  "deserialize_sd payload =
     (if length payload < sd_min_payload_size then Some (Inl Sd_buffer_too_small)
      else do {
        b0 \<leftarrow> peek payload 0;
        let flags = flags_from_byte b0;
        entries_len \<leftarrow> read_u32_be payload 4;
        if length payload < unat (8 + entries_len + 4) then Some (Inl Invalid_entries_length)
        else if entries_len mod of_nat entry_size \<noteq> 0 then Some (Inl Invalid_entries_length)
        else do {
          let num_entries = unat (entries_len div of_nat entry_size);
          r \<leftarrow> read_entries payload 8 num_entries;
          case r of
            Inl err \<Rightarrow> Some (Inl err)
          | Inr (entries, off) \<Rightarrow>
              if length payload < off + 4 then Some (Inl Invalid_options_length)
              else do {
                options_len \<leftarrow> read_u32_be payload off;
                let off = off + 4;
                if length payload < off + unat options_len then Some (Inl Invalid_options_length)
                else do {
                  q \<leftarrow> read_options payload off (off + unat options_len);
                  case q of
                    Inl err \<Rightarrow> Some (Inl err)
                  | Inr options \<Rightarrow>
                      Some (Inr \<lparr>sd_flags = flags, sd_entries = entries, sd_options = options\<rparr>)
                }
              }
        }
      })"

section \<open>Serialisation\<close>

definition option_wire_size :: "sd_option \<Rightarrow> nat" where
  "option_wire_size opt = (case opt of Ipv4_option _ \<Rightarrow> ipv4_option_size | Ipv6_option _ \<Rightarrow> ipv6_option_size)"

fun write_entries :: "byte list \<Rightarrow> nat \<Rightarrow> sd_entry list \<Rightarrow> (byte list \<times> nat) option" where
  "write_entries buf off [] = Some (buf, off)"
| "write_entries buf off (e # es) = do {
     buf \<leftarrow> in_subspan buf off entry_size (\<lambda>s. write_entry s e);
     write_entries buf (off + entry_size) es
   }"

fun write_options :: "byte list \<Rightarrow> nat \<Rightarrow> sd_option list \<Rightarrow> byte list option" where
  "write_options buf off [] = Some buf"
| "write_options buf off (opt # opts) = do {
     s \<leftarrow> subspan_from buf off;
     (s, n) \<leftarrow> write_option s opt;
     buf \<leftarrow> store buf off s;
     write_options buf (off + n) opts
   }"

definition serialize_sd :: "byte list \<Rightarrow> sd_message \<Rightarrow> (byte list \<times> nat) option" where
  "serialize_sd buf msg =
     (let entries_len = length (sd_entries msg) * entry_size;
          options_len = (\<Sum>opt \<leftarrow> sd_options msg. option_wire_size opt);
          total = sd_min_payload_size + entries_len + options_len
      in if length buf < total then Some (buf, 0)
         else do {
           buf \<leftarrow> poke buf 0 (flags_to_byte (sd_flags msg));
           buf \<leftarrow> poke buf 1 0;
           buf \<leftarrow> poke buf 2 0;
           buf \<leftarrow> poke buf 3 0;
           buf \<leftarrow> write_u32_be buf 4 (of_nat entries_len);
           (buf, off) \<leftarrow> write_entries buf 8 (sd_entries msg);
           buf \<leftarrow> write_u32_be buf off (of_nat options_len);
           buf \<leftarrow> write_options buf (off + 4) (sd_options msg);
           Some (buf, total)
         })"

definition build_sd_message :: "byte list \<Rightarrow> sd_message \<Rightarrow> session_id \<Rightarrow> (byte list \<times> nat) option" where
  "build_sd_message buf msg session =
     (if length buf < header_size then Some (buf, 0)
      else do {
        payload_buf \<leftarrow> subspan_from buf header_size;
        (payload_buf, payload_len) \<leftarrow> serialize_sd payload_buf msg;
        buf \<leftarrow> store buf header_size payload_buf;
        if payload_len = 0 \<and> sd_entries msg \<noteq> [] then Some (buf, 0)
        else do {
          (payload_buf, payload_len) \<leftarrow>
            (if payload_len = 0 then serialize_sd payload_buf msg else Some (payload_buf, payload_len));
          buf \<leftarrow> store buf header_size payload_buf;
          buf \<leftarrow> set_service buf sd_service;
          buf \<leftarrow> set_method buf sd_method;
          buf \<leftarrow> set_payload_length buf (of_nat payload_len);
          buf \<leftarrow> set_client buf sd_client;
          buf \<leftarrow> set_session buf session;
          buf \<leftarrow> set_protocol_ver buf protocol_version;
          buf \<leftarrow> set_interface_ver buf 0x01;
          buf \<leftarrow> set_msg_type buf mt_notification;
          buf \<leftarrow> set_ret_code buf e_ok;
          Some (buf, header_size + payload_len)
        }
      })"

end
