(* ===== verification/Sd_Discovery.thy ===== *)
theory Sd_Discovery
  imports Sd_Message
begin

text \<open>
  \<open>sd/discovery.hpp\<close>: the service-discovery state machine. Times and durations are integers
  (nanosecond counts of \<open>steady_clock\<close>); the current time is the argument of each operation.
  \<open>1u << n\<close> is undefined for \<open>n\<close> of 32 or more, so the operations that back off have an option
  result. A \<open>discovery\<close> object is the record of its data members.
\<close>

datatype sd_phase = Down | Initial_wait | Repetition | Main

record sd_config =
  initial_delay_min :: int
  initial_delay_max :: int
  repetition_base_delay :: int
  repetition_max :: u32
  cyclic_offer_delay :: int
  offer_ttl :: u32
  find_ttl :: u32

definition ms :: "int \<Rightarrow> int" where "ms n = n * 1000000"

definition sd_config_default :: sd_config where
  "sd_config_default =
     \<lparr>initial_delay_min = ms 0, initial_delay_max = ms 3000, repetition_base_delay = ms 10,
      repetition_max = 3, cyclic_offer_delay = ms 1000, offer_ttl = 3, find_ttl = 3\<rparr>"

record offer_state =
  off_service :: service_id
  off_instance :: instance_id
  off_major :: u8
  off_minor :: u32
  off_options :: "sd_option list"
  off_phase :: sd_phase
  off_next_send :: int
  off_count :: u32

record find_state =
  find_service_id :: service_id
  find_instance :: instance_id
  find_major :: u8
  find_minor :: u32
  find_phase :: sd_phase
  find_next_send :: int
  find_count :: u32

record discovery =
  disc_config :: sd_config
  reboot_flag :: bool
  disc_offers :: "offer_state list"
  pending_stop_offers :: "offer_state list"
  disc_finds :: "find_state list"

definition discovery_init :: "sd_config \<Rightarrow> discovery" where
  "discovery_init cfg =
     \<lparr>disc_config = cfg, reboot_flag = True, disc_offers = [], pending_stop_offers = [], disc_finds = []\<rparr>"

section \<open>Starting and stopping\<close>

definition start_offer ::
    "discovery \<Rightarrow> service_id \<Rightarrow> instance_id \<Rightarrow> u8 \<Rightarrow> u32 \<Rightarrow> sd_option list \<Rightarrow> int \<Rightarrow> discovery" where
  "start_offer d service inst major minor options now =
     d\<lparr>disc_offers := disc_offers d @
        [\<lparr>off_service = service, off_instance = inst, off_major = major, off_minor = minor,
          off_options = options, off_phase = Initial_wait,
          off_next_send = now + initial_delay_min (disc_config d), off_count = 0\<rparr>]\<rparr>"

text \<open>The loop of \<open>stop_offer\<close>: the first matching offer is taken out of the list.\<close>

fun take_offer ::
    "service_id \<Rightarrow> instance_id \<Rightarrow> offer_state list \<Rightarrow> (offer_state \<times> offer_state list) option" where
  "take_offer service inst [] = None"
| "take_offer service inst (s # ss) =
     (if off_service s = service \<and> off_instance s = inst then Some (s, ss)
      else map_option (\<lambda>(s', ss'). (s', s # ss')) (take_offer service inst ss))"

definition stop_offer :: "discovery \<Rightarrow> service_id \<Rightarrow> instance_id \<Rightarrow> discovery" where
  "stop_offer d service inst =
     (case take_offer service inst (disc_offers d) of
        None \<Rightarrow> d
      | Some (s, rest) \<Rightarrow>
          d\<lparr>pending_stop_offers := pending_stop_offers d @ [s], disc_offers := rest\<rparr>)"

definition start_find ::
    "discovery \<Rightarrow> service_id \<Rightarrow> instance_id \<Rightarrow> u8 \<Rightarrow> u32 \<Rightarrow> int \<Rightarrow> discovery" where
  "start_find d service inst major minor now =
     d\<lparr>disc_finds := disc_finds d @
        [\<lparr>find_service_id = service, find_instance = inst, find_major = major, find_minor = minor,
          find_phase = Initial_wait, find_next_send = now + initial_delay_min (disc_config d),
          find_count = 0\<rparr>]\<rparr>"

definition stop_find :: "discovery \<Rightarrow> service_id \<Rightarrow> instance_id \<Rightarrow> discovery" where
  "stop_find d service inst =
     d\<lparr>disc_finds := filter (\<lambda>f. \<not> (find_service_id f = service \<and> find_instance f = inst)) (disc_finds d)\<rparr>"

definition set_reboot_flag :: "discovery \<Rightarrow> bool \<Rightarrow> discovery" where
  "set_reboot_flag d v = d\<lparr>reboot_flag := v\<rparr>"

section \<open>Phases\<close>

text \<open>\<open>repetition_base_delay * (1u << (count - 1))\<close>\<close>

definition backoff :: "sd_config \<Rightarrow> u32 \<Rightarrow> int option" where
  "backoff cfg count =
     (if unat (count - 1) < 32 then Some (repetition_base_delay cfg * uint (push_bit (unat (count - 1)) 1 :: u32))
      else None)"

definition advance_phase :: "sd_config \<Rightarrow> offer_state \<Rightarrow> int \<Rightarrow> offer_state option" where
  "advance_phase cfg s now =
     (case off_phase s of
        Initial_wait \<Rightarrow> Some (s\<lparr>off_phase := Repetition, off_count := 1,
                               off_next_send := now + repetition_base_delay cfg\<rparr>)
      | Repetition \<Rightarrow>
          (let s = s\<lparr>off_count := off_count s + 1\<rparr>
           in if repetition_max cfg \<le> off_count s
              then Some (s\<lparr>off_phase := Main, off_next_send := now + cyclic_offer_delay cfg\<rparr>)
              else do { delay \<leftarrow> backoff cfg (off_count s); Some (s\<lparr>off_next_send := now + delay\<rparr>) })
      | Main \<Rightarrow> Some (s\<lparr>off_next_send := now + cyclic_offer_delay cfg\<rparr>)
      | Down \<Rightarrow> Some s)"

definition advance_find_phase :: "sd_config \<Rightarrow> find_state \<Rightarrow> int \<Rightarrow> find_state option" where
  "advance_find_phase cfg s now =
     (case find_phase s of
        Initial_wait \<Rightarrow> Some (s\<lparr>find_phase := Repetition, find_count := 1,
                               find_next_send := now + repetition_base_delay cfg\<rparr>)
      | Repetition \<Rightarrow>
          (let s = s\<lparr>find_count := find_count s + 1\<rparr>
           in if repetition_max cfg \<le> find_count s then Some (s\<lparr>find_phase := Down\<rparr>)
              else do { delay \<leftarrow> backoff cfg (find_count s); Some (s\<lparr>find_next_send := now + delay\<rparr>) })
      | _ \<Rightarrow> Some s)"

section \<open>tick\<close>

definition offer_due :: "int \<Rightarrow> offer_state \<Rightarrow> bool" where
  "offer_due now s \<longleftrightarrow> off_phase s \<noteq> Down \<and> \<not> now < off_next_send s"

definition find_due :: "int \<Rightarrow> find_state \<Rightarrow> bool" where
  "find_due now s \<longleftrightarrow> find_phase s \<noteq> Down \<and> \<not> now < find_next_send s"

definition stop_entry :: "offer_state \<Rightarrow> sd_entry" where
  "stop_entry s = make_stop_offer (off_service s) (off_instance s) (off_major s) (off_minor s)"

text \<open>The entry of one due offer; \<open>options\<close> are those collected before it.\<close>

definition offer_entry :: "sd_config \<Rightarrow> offer_state \<Rightarrow> sd_option list \<Rightarrow> sd_entry" where
  "offer_entry cfg s options =
     (let entry = make_offer_service (off_service s) (off_instance s) (off_major s) (off_minor s) (offer_ttl cfg)
      in if off_options s \<noteq> []
         then entry\<lparr>ent_index_1st := of_nat (length options),
                    ent_num_options_1st := of_nat (length (off_options s))\<rparr>
         else entry)"

text \<open>The loop over the offers: updated states, entries and options, the last two appended to.\<close>

fun tick_offers :: "sd_config \<Rightarrow> int \<Rightarrow> offer_state list \<Rightarrow> sd_entry list \<Rightarrow> sd_option list \<Rightarrow>
    (offer_state list \<times> sd_entry list \<times> sd_option list) option" where
  "tick_offers cfg now [] entries options = Some ([], entries, options)"
| "tick_offers cfg now (s # ss) entries options =
     (if \<not> offer_due now s
      then do { (ss, entries, options) \<leftarrow> tick_offers cfg now ss entries options; Some (s # ss, entries, options) }
      else do {
        let entry = offer_entry cfg s options;
        let options = options @ off_options s;
        let entries = entries @ [entry];
        s \<leftarrow> advance_phase cfg s now;
        (ss, entries, options) \<leftarrow> tick_offers cfg now ss entries options;
        Some (s # ss, entries, options)
      })"

fun tick_finds :: "sd_config \<Rightarrow> int \<Rightarrow> find_state list \<Rightarrow> sd_entry list \<Rightarrow> (find_state list \<times> sd_entry list) option" where
  "tick_finds cfg now [] entries = Some ([], entries)"
| "tick_finds cfg now (s # ss) entries =
     (if \<not> find_due now s
      then do { (ss, entries) \<leftarrow> tick_finds cfg now ss entries; Some (s # ss, entries) }
      else do {
        let entries = entries @
          [make_find_service (find_service_id s) (find_instance s) (find_major s) (find_minor s) (find_ttl cfg)];
        s \<leftarrow> advance_find_phase cfg s now;
        (ss, entries) \<leftarrow> tick_finds cfg now ss entries;
        Some (s # ss, entries)
      })"

definition tick_message :: "discovery \<Rightarrow> sd_entry list \<Rightarrow> sd_option list \<Rightarrow> sd_message list" where
  "tick_message d entries options =
     (if entries \<noteq> []
      then [\<lparr>sd_flags = \<lparr>flag_reboot = reboot_flag d, flag_unicast = True\<rparr>, sd_entries = entries,
             sd_options = options\<rparr>]
      else [])"

definition tick :: "discovery \<Rightarrow> int \<Rightarrow> (discovery \<times> sd_message list) option" where
  "tick d now = do {
     let stops = map stop_entry (pending_stop_offers d);
     let d = d\<lparr>pending_stop_offers := []\<rparr>;
     (offers, entries, options) \<leftarrow> tick_offers (disc_config d) now (disc_offers d) stops [];
     let d = d\<lparr>disc_offers := offers\<rparr>;
     (finds, find_entries) \<leftarrow> tick_finds (disc_config d) now (disc_finds d) [];
     let d = d\<lparr>disc_finds := finds\<rparr>;
     Some (d, tick_message d entries options @ tick_message d find_entries [])
   }"

end
