(* ===== verification/Sd_Message_Correct.thy ===== *)
theory Sd_Message_Correct
  imports Sd_Message
begin

text \<open>
  Correctness of the service-discovery codec. The locale \<open>wire_item\<close> is the contract of an item that
  is written into a span and read back; entries and both option kinds are interpreted in it, and
  the array loops of \<open>serialize_sd\<close> and \<open>deserialize_sd\<close> rest on it.
\<close>

section \<open>Items\<close>

locale wire_item =
  fixes put :: "byte list \<Rightarrow> 'a \<Rightarrow> byte list option"
    and get :: "byte list \<Rightarrow> 'b option"
    and enc :: "'a \<Rightarrow> byte list"
    and dec :: "'a \<Rightarrow> 'b"
    and width :: nat
    and ok :: "'a \<Rightarrow> bool"
  assumes length_enc: "ok x \<Longrightarrow> length (enc x) = width"
    and write_enc: "ok x \<Longrightarrow> width \<le> length m \<Longrightarrow> put m x = Some (enc x @ drop width m)"
    and read_enc: "ok x \<Longrightarrow> get (enc x @ r) = Some (dec x)"
    and read_total: "width \<le> length m \<Longrightarrow> \<exists>y. get m = Some y"
begin

lemma write_at:
  assumes "ok x" "off + n \<le> length m" "width \<le> n"
  shows "in_subspan m off n (\<lambda>s. put s x) = Some (overwrite m off (enc x))"
proof -
  have "put (take n (drop off m)) x = Some (enc x @ drop width (take n (drop off m)))"
    using assms by (intro write_enc) auto
  moreover have "take (n - width) (drop (off + width) m) @ drop (off + n) m = drop (off + width) m"
    using append_take_drop_id [of "n - width" "drop (off + width) m"] assms(3)
    by (simp add: add_ac)
  then have "store m off (enc x @ drop width (take n (drop off m))) = Some (overwrite m off (enc x))"
    using assms length_enc [of x]
    by (subst store_overwrite) (auto simp: overwrite_def drop_take add.commute)
  ultimately show ?thesis
    using assms by (simp add: in_subspan_def mem_simps)
qed

lemma read_at:
  assumes "ok x" "off = length xs"
  shows "do { s \<leftarrow> subspan (xs @ enc x @ ys) off width; get s } = Some (dec x)"
  using assms length_enc [of x] read_enc [of x "[]"] by (simp add: mem_simps)

lemma read_at_total:
  assumes "off + width \<le> length m"
  shows "\<exists>y. do { s \<leftarrow> subspan m off width; get s } = Some y"
  using assms read_total [of "take width (drop off m)"] by (simp add: mem_simps)

end

section \<open>Entries\<close>

definition nibbles :: "u8 \<Rightarrow> u8 \<Rightarrow> byte" where
  "nibbles a b = push_bit 4 a OR (b AND 0x0F)"

definition ttl_bytes :: "u32 \<Rightarrow> byte list" where
  "ttl_bytes t = [ucast (drop_bit 16 t), ucast (drop_bit 8 t), ucast t]"

definition entry_bytes :: "sd_entry \<Rightarrow> byte list" where
  "entry_bytes e =
     [et_code (ent_type e), ent_index_1st e, ent_index_2nd e,
      nibbles (ent_num_options_1st e) (ent_num_options_2nd e)] @
     be16 (id_value (ent_service e)) @ be16 (id_value (ent_instance e)) @
     ent_major e # ttl_bytes (ent_ttl e) @
     (if is_service_entry (ent_type e) then be32 (ent_minor e)
      else [0, 0] @ be16 (id_value (ent_eventgroup e)))"

text \<open>What survives the wire: four-bit option counts, a 24-bit TTL, and only the field of the entry's
  variant.\<close>

definition entry_norm :: "sd_entry \<Rightarrow> sd_entry" where
  "entry_norm e =
     e\<lparr>ent_num_options_1st := ent_num_options_1st e AND 0x0F,
       ent_num_options_2nd := ent_num_options_2nd e AND 0x0F,
       ent_ttl := take_bit 24 (ent_ttl e),
       ent_minor := (if is_service_entry (ent_type e) then ent_minor e else 0),
       ent_eventgroup := (if is_service_entry (ent_type e) then Strong_id 0 else ent_eventgroup e)\<rparr>"

lemma nibbles_read:
  "drop_bit 4 (nibbles a b) AND 0x0F = a AND 0x0F" "nibbles a b AND 0x0F = b AND 0x0F"
proof -
  have mask: "x AND 0x0F = take_bit 4 x" for x :: u8
    by (simp add: take_bit_eq_mask mask_eq_exp_minus_1)
  show "drop_bit 4 (nibbles a b) AND 0x0F = a AND 0x0F" "nibbles a b AND 0x0F = b AND 0x0F"
    unfolding nibbles_def mask by (rule bit_word_eqI; auto simp: bit_simps)+
qed

lemma ttl_read:
  "push_bit 16 (ucast (ucast (drop_bit 16 t) :: byte)) OR push_bit 8 (ucast (ucast (drop_bit 8 t) :: byte)) OR
   ucast (ucast t :: byte) = take_bit 24 (t :: u32)" (is "?w = _")
proof (rule bit_word_eqI)
  fix n :: nat
  consider "n < 8" | "8 \<le> n" "n < 16" | "16 \<le> n" "n < 24" | "24 \<le> n" by force
  then show "bit ?w n = bit (take_bit 24 t) n" by cases (auto simp: bit_simps)
qed

lemma ucast_and_ff: "(ucast (x AND 0xFF) :: byte) = ucast x" for x :: u32
proof -
  have mask: "x AND 0xFF = take_bit 8 x"
    by (simp add: take_bit_eq_mask mask_eq_exp_minus_1)
  show ?thesis unfolding mask by (rule bit_word_eqI) (auto simp: bit_simps)
qed

lemma length_entry_bytes [simp]: "length (entry_bytes e) = 16"
  by (simp add: entry_bytes_def ttl_bytes_def)

text \<open>A chain of single-byte writes at consecutive offsets is one store.\<close>

lemma poke_store: "poke m p b = store m p [b]"
  by simp

lemma write_entry_bytes:
  assumes "16 \<le> length m"
  shows "write_entry m e = Some (entry_bytes e @ drop 16 m)"
proof -
  note stores = write_u16_be_store write_u32_be_store poke_store store_overwrite overwrite_def
  show ?thesis
    using assms
    by (simp add: write_entry_def entry_bytes_def ttl_bytes_def nibbles_def stores ucast_and_ff del: store.simps)
qed

lemma ucast_ff: "(x :: u8) AND 0x0F AND 0x0F = x AND 0x0F"
  by (simp add: and.assoc)

lemma read_entry_bytes: "read_entry (entry_bytes e @ r) = Some (entry_norm e)"
proof -
  let ?h = "[et_code (ent_type e), ent_index_1st e, ent_index_2nd e,
      nibbles (ent_num_options_1st e) (ent_num_options_2nd e)]"
  let ?s = "be16 (id_value (ent_service e))" and ?i = "be16 (id_value (ent_instance e))"
  let ?v = "if is_service_entry (ent_type e) then be32 (ent_minor e) else [0, 0] @ be16 (id_value (ent_eventgroup e))"
  let ?m = "?h @ ?s @ ?i @ [ent_major e] @ ttl_bytes (ent_ttl e) @ ?v @ r"
  have m: "entry_bytes e @ r = ?m" by (simp add: entry_bytes_def)
  have reads: "read_u16_be ?m 4 = Some (id_value (ent_service e))"
    "read_u16_be ?m 6 = Some (id_value (ent_instance e))"
    using read_u16_be_at [of ?h 4 _ "?i @ [ent_major e] @ ttl_bytes (ent_ttl e) @ ?v @ r"]
      read_u16_be_at [of "?h @ ?s" 6 _ "[ent_major e] @ ttl_bytes (ent_ttl e) @ ?v @ r"]
    by simp_all
  have variant: "is_service_entry (ent_type e) \<Longrightarrow> read_u32_be ?m 12 = Some (ent_minor e)"
    "\<not> is_service_entry (ent_type e) \<Longrightarrow> read_u16_be ?m 14 = Some (id_value (ent_eventgroup e))"
    using read_u32_be_at [of "?h @ ?s @ ?i @ [ent_major e] @ ttl_bytes (ent_ttl e)" 12 "ent_minor e" r]
      read_u16_be_at [of "?h @ ?s @ ?i @ [ent_major e] @ ttl_bytes (ent_ttl e) @ [0, 0]" 14 _ r]
    by (simp_all add: ttl_bytes_def)
  have bytes: "peek ?m 0 = Some (et_code (ent_type e))" "peek ?m 1 = Some (ent_index_1st e)"
    "peek ?m 2 = Some (ent_index_2nd e)"
    "peek ?m 3 = Some (nibbles (ent_num_options_1st e) (ent_num_options_2nd e))"
    "peek ?m 8 = Some (ent_major e)" "peek ?m 9 = Some (ucast (drop_bit 16 (ent_ttl e)))"
    "peek ?m 10 = Some (ucast (drop_bit 8 (ent_ttl e)))" "peek ?m 11 = Some (ucast (ent_ttl e))"
    by (simp_all add: peek_append peek_def nth_append nth_Cons' ttl_bytes_def)
  define w where "w = ?m"
  note facts = reads variant bytes
  have "read_entry w = Some (entry_norm e)"
    using facts [folded w_def]
    by (cases "is_service_entry (ent_type e)"; cases e)
      (simp_all add: read_entry_def nibbles_read ttl_read entry_norm_def sd_entry_default_def Let_def)
  then show ?thesis by (simp only: m w_def)
qed

lemma read_entry_total:
  assumes "16 \<le> length m"
  shows "\<exists>e. read_entry m = Some e"
proof -
  have "peek m 0 = Some (m ! 0)" by (rule peek_Some) (use assms in linarith)
  then show ?thesis
    using assms by (simp add: read_entry_def mem_simps read_u16_be_nth read_u32_be_nth Let_def)
qed

interpretation entry: wire_item write_entry read_entry entry_bytes entry_norm 16 "\<lambda>_. True"
  by unfold_locales (simp_all add: write_entry_bytes read_entry_bytes read_entry_total)

section \<open>Options\<close>

definition ipv4_bytes :: "ip_option \<Rightarrow> byte list" where
  "ipv4_bytes opt = be16 9 @ [ot_code (opt_type opt), 0] @ opt_address opt @
     [0, l4_code (opt_protocol opt)] @ be16 (opt_port opt)"

definition ipv6_bytes :: "ip_option \<Rightarrow> byte list" where
  "ipv6_bytes opt = be16 21 @ [ot_code (opt_type opt), 0] @ opt_address opt @
     [0, l4_code (opt_protocol opt)] @ be16 (opt_port opt)"

definition ipv4_ok :: "ip_option \<Rightarrow> bool" where
  "ipv4_ok opt \<longleftrightarrow> length (opt_address opt) = 4"

definition ipv6_ok :: "ip_option \<Rightarrow> bool" where
  "ipv6_ok opt \<longleftrightarrow> length (opt_address opt) = 16"

lemma peek_bytes_eq: "off + n \<le> length m \<Longrightarrow> peek_bytes m off n = Some (take n (drop off m))"
  by (induction n arbitrary: off) (simp_all add: mem_simps take_Suc_conv_app_nth Cons_nth_drop_Suc [symmetric])

lemma write_ipv4_bytes:
  assumes "ipv4_ok opt" "12 \<le> length m"
  shows "write_ipv4_option m opt = Some (ipv4_bytes opt @ drop 12 m)"
proof -
  obtain a b c d where "opt_address opt = [a, b, c, d]"
    using assms(1) by (auto simp: ipv4_ok_def length_Suc_conv eval_nat_numeral)
  then show ?thesis
    using assms(2)
    by (simp add: write_ipv4_option_def ipv4_bytes_def write_u16_be_store poke_store store_overwrite
        overwrite_def mem_simps del: store.simps)
qed

lemma write_ipv6_bytes:
  assumes "ipv6_ok opt" "24 \<le> length m"
  shows "write_ipv6_option m opt = Some (ipv6_bytes opt @ drop 24 m)"
  using assms
  by (simp add: write_ipv6_option_def ipv6_bytes_def ipv6_ok_def write_u16_be_store poke_store store_overwrite
        overwrite_def peek_bytes_eq del: store.simps)

lemma read_ipv4_bytes:
  assumes "ipv4_ok opt"
  shows "read_ipv4_option (ipv4_bytes opt @ r) = Some opt"
proof -
  obtain a b c d where a: "opt_address opt = [a, b, c, d]"
    using assms(1) by (auto simp: ipv4_ok_def length_Suc_conv eval_nat_numeral)
  have "read_u16_be (ipv4_bytes opt @ r) 10 = Some (opt_port opt)"
    using read_u16_be_at [of "be16 9 @ [ot_code (opt_type opt), 0] @ opt_address opt @ [0, l4_code (opt_protocol opt)]"
      10 "opt_port opt" r] by (simp add: ipv4_bytes_def a)
  then show ?thesis
    using a by (cases opt) (simp add: read_ipv4_option_def ipv4_bytes_def a peek_append peek_def nth_append nth_Cons')
qed

lemma read_ipv6_bytes:
  assumes "ipv6_ok opt"
  shows "read_ipv6_option (ipv6_bytes opt @ r) = Some opt"
proof -
  have len: "length (opt_address opt) = 16" using assms by (simp add: ipv6_ok_def)
  have "read_u16_be (ipv6_bytes opt @ r) 22 = Some (opt_port opt)"
    using read_u16_be_at [of "be16 21 @ [ot_code (opt_type opt), 0] @ opt_address opt @ [0, l4_code (opt_protocol opt)]"
      22 "opt_port opt" r] by (simp add: ipv6_bytes_def len)
  moreover have "peek_bytes (ipv6_bytes opt @ r) 4 16 = Some (opt_address opt)"
    by (subst peek_bytes_eq) (simp_all add: ipv6_bytes_def len)
  ultimately show ?thesis
    using len by (cases opt) (simp add: read_ipv6_option_def ipv6_bytes_def len peek_append peek_def nth_append nth_Cons')
qed

lemma read_ipv4_total: "12 \<le> length m \<Longrightarrow> \<exists>opt. read_ipv4_option m = Some opt"
  by (simp add: read_ipv4_option_def mem_simps read_u16_be_nth)

lemma read_ipv6_total: "24 \<le> length m \<Longrightarrow> \<exists>opt. read_ipv6_option m = Some opt"
  by (simp add: read_ipv6_option_def mem_simps read_u16_be_nth peek_bytes_eq)

interpretation ipv4: wire_item write_ipv4_option read_ipv4_option ipv4_bytes "\<lambda>opt. opt" 12 ipv4_ok
  by unfold_locales (simp_all add: write_ipv4_bytes read_ipv4_bytes read_ipv4_total, simp add: ipv4_bytes_def ipv4_ok_def)

interpretation ipv6: wire_item write_ipv6_option read_ipv6_option ipv6_bytes "\<lambda>opt. opt" 24 ipv6_ok
  by unfold_locales (simp_all add: write_ipv6_bytes read_ipv6_bytes read_ipv6_total, simp add: ipv6_bytes_def ipv6_ok_def)

section \<open>Arrays\<close>

definition entries_bytes :: "sd_entry list \<Rightarrow> byte list" where
  "entries_bytes es = concat (map entry_bytes es)"

definition option_bytes :: "sd_option \<Rightarrow> byte list" where
  "option_bytes opt = (case opt of Ipv4_option a \<Rightarrow> ipv4_bytes a | Ipv6_option a \<Rightarrow> ipv6_bytes a)"

definition options_bytes :: "sd_option list \<Rightarrow> byte list" where
  "options_bytes os = concat (map option_bytes os)"

text \<open>What the C++ types guarantee (the address length), and the types the reader accepts for it.\<close>

definition option_typed :: "sd_option \<Rightarrow> bool" where
  "option_typed opt = (case opt of Ipv4_option a \<Rightarrow> ipv4_ok a | Ipv6_option a \<Rightarrow> ipv6_ok a)"

definition option_ok :: "sd_option \<Rightarrow> bool" where
  "option_ok opt \<longleftrightarrow> option_typed opt \<and> (case opt of
     Ipv4_option a \<Rightarrow> opt_type a = ipv4_endpoint \<or> opt_type a = ipv4_multicast
   | Ipv6_option a \<Rightarrow> opt_type a = ipv6_endpoint \<or> opt_type a = ipv6_multicast)"

lemma length_entries_bytes [simp]: "length (entries_bytes es) = 16 * length es"
  by (induction es) (simp_all add: entries_bytes_def)

lemma length_option_bytes: "option_typed opt \<Longrightarrow> length (option_bytes opt) = option_wire_size opt"
  by (cases opt) (simp_all add: option_typed_def option_bytes_def option_wire_size_def ipv4_option_size_def
      ipv6_option_size_def ipv4.length_enc ipv6.length_enc)

lemma length_options_bytes:
  "\<forall>opt \<in> set os. option_typed opt \<Longrightarrow> length (options_bytes os) = (\<Sum>opt \<leftarrow> os. option_wire_size opt)"
  by (induction os) (simp_all add: options_bytes_def length_option_bytes)

lemma write_entries_bytes:
  "off + 16 * length es \<le> length m \<Longrightarrow>
   write_entries m off es = Some (overwrite m off (entries_bytes es), off + 16 * length es)"
proof (induction es arbitrary: m off)
  case Nil
  then show ?case by (simp add: entries_bytes_def overwrite_def)
next
  case (Cons e es)
  let ?m = "overwrite m off (entry_bytes e)"
  have "in_subspan m off 16 (\<lambda>s. write_entry s e) = Some ?m"
    using Cons.prems by (intro entry.write_at) auto
  moreover have "write_entries ?m (off + 16) es =
      Some (overwrite ?m (off + 16) (entries_bytes es), off + 16 + 16 * length es)"
    using Cons.prems by (intro Cons.IH) simp
  moreover have "overwrite ?m (off + 16) (entries_bytes es) = overwrite m off (entries_bytes (e # es))"
  proof -
    have "entries_bytes (e # es) = entry_bytes e @ entries_bytes es" by (simp add: entries_bytes_def)
    then show ?thesis
      using overwrite_overwrite_adjacent [of off "entry_bytes e" "entries_bytes es" m] Cons.prems by simp
  qed
  ultimately show ?case by (simp add: entry_size_def)
qed

lemma read_entries_bytes:
  "length xs = off \<Longrightarrow> read_entries (xs @ entries_bytes es @ ys) off (length es) =
   Some (Inr (map entry_norm es, off + 16 * length es))"
proof (induction es arbitrary: xs off)
  case Nil
  then show ?case by (simp add: entries_bytes_def)
next
  case (Cons e es)
  let ?m = "xs @ entries_bytes (e # es) @ ys"
  have m: "?m = xs @ entry_bytes e @ entries_bytes es @ ys" by (simp add: entries_bytes_def)
  have "do { s \<leftarrow> subspan ?m off 16; read_entry s } = Some (entry_norm e)"
    unfolding m by (rule entry.read_at) (simp_all add: Cons.prems)
  then obtain s where s: "subspan ?m off 16 = Some s" "read_entry s = Some (entry_norm e)"
    by (auto simp: bind_eq_Some_conv)
  have "read_entries ?m (off + 16) (length es) = Some (Inr (map entry_norm es, off + 16 + 16 * length es))"
    using Cons.IH [of "xs @ entry_bytes e" "off + 16"] Cons.prems by (simp add: m)
  with s Cons.prems show ?case by (simp add: entry_size_def m)
qed

text \<open>On any buffer the entries loop stays inside it.\<close>

lemma read_entries_total:
  "read_entries m off n = Some (Inl Truncated_entry) \<or>
   (\<exists>es. read_entries m off n = Some (Inr (es, off + 16 * n)) \<and> length es = n \<and>
      (n = 0 \<or> off + 16 * n \<le> length m))"
proof (induction n arbitrary: off)
  case (Suc n)
  show ?case
  proof (cases "length m < off + 16")
    case False
    then obtain s e where "subspan m off 16 = Some s" "read_entry s = Some e"
      using entry.read_at_total [of off m] by (auto simp: bind_eq_Some_conv)
    with False Suc.IH [of "off + 16"] show ?thesis by (auto simp: entry_size_def)
  qed (simp add: entry_size_def)
qed simp

lemma write_option_bytes:
  assumes "option_typed opt" "option_wire_size opt \<le> length m"
  shows "write_option m opt = Some (option_bytes opt @ drop (option_wire_size opt) m, option_wire_size opt)"
  using assms by (cases opt) (simp_all add: write_option_def option_typed_def option_bytes_def option_wire_size_def
      ipv4_option_size_def ipv6_option_size_def ipv4.write_enc ipv6.write_enc)

lemma write_options_bytes:
  "\<forall>opt \<in> set os. option_typed opt \<Longrightarrow> off + length (options_bytes os) \<le> length m \<Longrightarrow>
   write_options m off os = Some (overwrite m off (options_bytes os))"
proof (induction os arbitrary: m off)
  case Nil
  then show ?case by (simp add: options_bytes_def overwrite_def)
next
  case (Cons opt os)
  let ?n = "option_wire_size opt" and ?b = "option_bytes opt"
  have len: "length ?b = ?n" using Cons.prems(1) by (simp add: length_option_bytes)
  have fits: "off + ?n + length (options_bytes os) \<le> length m"
    using Cons.prems(2) len by (simp add: options_bytes_def)
  have "write_option (drop off m) opt = Some (?b @ drop ?n (drop off m), ?n)"
    using Cons.prems(1) fits by (intro write_option_bytes) auto
  moreover have "store m off (?b @ drop ?n (drop off m)) = Some (overwrite m off ?b)"
    using fits len by (subst store_overwrite) (simp_all add: overwrite_def add.commute)
  moreover have "write_options (overwrite m off ?b) (off + ?n) os =
      Some (overwrite (overwrite m off ?b) (off + ?n) (options_bytes os))"
    using Cons.prems(1) fits len by (intro Cons.IH) auto
  moreover have "overwrite (overwrite m off ?b) (off + ?n) (options_bytes os) =
      overwrite m off (options_bytes (opt # os))"
    using overwrite_overwrite_adjacent [of off ?b "options_bytes os" m] fits len
    by (simp add: options_bytes_def)
  ultimately show ?case using fits by (simp add: mem_simps)
qed

lemma option_types_distinct:
  "ipv6_endpoint \<noteq> ipv4_endpoint" "ipv6_endpoint \<noteq> ipv4_multicast"
  "ipv6_multicast \<noteq> ipv4_endpoint" "ipv6_multicast \<noteq> ipv4_multicast"
  by (simp_all add: ipv6_endpoint_def ipv4_endpoint_def ipv6_multicast_def ipv4_multicast_def)

lemma option_header_read:
  assumes "option_ok opt"
  shows "read_option_size (option_bytes opt @ r) = Some (option_wire_size opt)"
    and "peek_option_type (option_bytes opt @ r) =
      Some (case opt of Ipv4_option a \<Rightarrow> opt_type a | Ipv6_option a \<Rightarrow> opt_type a)"
proof -
  show "read_option_size (option_bytes opt @ r) = Some (option_wire_size opt)"
    by (cases opt) (simp_all add: read_option_size_def option_bytes_def ipv4_bytes_def ipv6_bytes_def
        option_wire_size_def ipv4_option_size_def ipv6_option_size_def read_u16_be_at [of "[]", simplified])
  show "peek_option_type (option_bytes opt @ r) =
      Some (case opt of Ipv4_option a \<Rightarrow> opt_type a | Ipv6_option a \<Rightarrow> opt_type a)"
    by (cases opt) (simp_all add: peek_option_type_def option_bytes_def ipv4_bytes_def ipv6_bytes_def
        peek_append peek_def nth_append)
qed

lemma read_one_option_bytes:
  assumes "option_ok opt" "length xs = off"
  shows "read_one_option (xs @ option_bytes opt @ ys) off (option_wire_size opt)
      (case opt of Ipv4_option a \<Rightarrow> opt_type a | Ipv6_option a \<Rightarrow> opt_type a) = Some (Inr [opt])"
proof (cases opt)
  case (Ipv4_option a)
  have "do { s \<leftarrow> subspan (xs @ ipv4_bytes a @ ys) off 12; read_ipv4_option s } = Some a"
    using assms by (intro ipv4.read_at) (simp_all add: Ipv4_option option_ok_def option_typed_def)
  then show ?thesis
    using assms(1)
    by (auto simp: Ipv4_option read_one_option_def option_bytes_def option_wire_size_def ipv4_option_size_def
        option_ok_def bind_eq_Some_conv)
next
  case (Ipv6_option a)
  have "do { s \<leftarrow> subspan (xs @ ipv6_bytes a @ ys) off 24; read_ipv6_option s } = Some a"
    using assms by (intro ipv6.read_at) (simp_all add: Ipv6_option option_ok_def option_typed_def)
  then show ?thesis
    using assms(1) option_types_distinct
    by (auto simp: Ipv6_option read_one_option_def option_bytes_def option_wire_size_def ipv6_option_size_def
        option_ok_def bind_eq_Some_conv)
qed

lemma option_wire_size_ge: "4 \<le> option_wire_size opt"
  by (cases opt) (simp_all add: option_wire_size_def ipv4_option_size_def ipv6_option_size_def)

lemma read_options_bytes:
  "\<forall>opt \<in> set os. option_ok opt \<Longrightarrow> length xs = off \<Longrightarrow> fin = off + length (options_bytes os) \<Longrightarrow>
   read_options (xs @ options_bytes os @ ys) off fin = Some (Inr os)"
proof (induction os arbitrary: xs off)
  case Nil
  then show ?case by (simp add: options_bytes_def read_options.simps)
next
  case (Cons opt os)
  let ?m = "xs @ options_bytes (opt # os) @ ys" and ?n = "option_wire_size opt"
  have ok: "option_ok opt" using Cons.prems(1) by simp
  have len: "length (option_bytes opt) = ?n" using ok by (simp add: length_option_bytes option_ok_def)
  have m: "?m = xs @ option_bytes opt @ options_bytes os @ ys" by (simp add: options_bytes_def)
  have fin: "fin = off + ?n + length (options_bytes os)"
    using Cons.prems(3) len by (simp add: options_bytes_def)
  have s: "subspan_from ?m off = Some (option_bytes opt @ options_bytes os @ ys)"
    using Cons.prems(2) by (simp add: m mem_simps)
  have rest: "read_options ?m (off + ?n) fin = Some (Inr os)"
    unfolding m using Cons.IH [of "xs @ option_bytes opt" "off + ?n"] Cons.prems(1,2) fin len by simp
  show ?case
    unfolding m using s rest fin option_wire_size_ge [of opt] option_header_read [OF ok] read_one_option_bytes [OF ok Cons.prems(2)]
    by (subst read_options.simps) (simp add: m option_header_size_def)
qed

lemma read_one_option_total:
  assumes "off + opt_size \<le> length m"
  shows "\<exists>r. read_one_option m off opt_size t = Some r"
proof -
  have "\<exists>y. do { s \<leftarrow> subspan m off 12; read_ipv4_option s } = Some y" if "12 \<le> opt_size"
    using assms that by (intro ipv4.read_at_total) simp
  moreover have "\<exists>y. do { s \<leftarrow> subspan m off 24; read_ipv6_option s } = Some y" if "24 \<le> opt_size"
    using assms that by (intro ipv6.read_at_total) simp
  ultimately show ?thesis
    by (auto simp: read_one_option_def ipv4_option_size_def ipv6_option_size_def bind_eq_Some_conv not_less)
qed

lemma read_options_total:
  "options_end \<le> length m \<Longrightarrow> \<exists>r. read_options m off options_end = Some r"
proof (induction m off options_end rule: read_options.induct)
  case (1 m off fin)
  show ?case
  proof (cases "off < fin \<and> off + 4 \<le> fin")
    case True
    let ?s = "drop off m"
    have s: "subspan_from m off = Some ?s" using True 1(2) by (simp add: mem_simps)
    have "4 \<le> length ?s" using True 1(2) by (simp; linarith)
    then obtain n where n: "read_option_size ?s = Some n"
      by (simp add: read_option_size_def read_u16_be_nth)
    obtain t where t: "peek_option_type ?s = Some t"
      using \<open>4 \<le> length ?s\<close> by (simp add: peek_option_type_def peek_def)
    show ?thesis
    proof (cases "fin < off + n")
      case False
      then obtain r where r: "read_one_option m off n t = Some r"
        using read_one_option_total [of off n m t] 1(2) by auto
      show ?thesis
      proof (cases r)
        case (Inl err)
        with True s n t r False show ?thesis
          by (subst read_options.simps) (simp add: option_header_size_def)
      next
        case (Inr os)
        have "\<exists>q. read_options m (off + n) fin = Some q"
          by (rule 1(1) [OF _ _ s n _ t r Inr]) (use True False 1(2) in \<open>auto simp: option_header_size_def\<close>)
        with True s n t r False Inr show ?thesis
          by (subst read_options.simps) (auto simp: option_header_size_def)
      qed
    qed (use True s n in \<open>subst read_options.simps, simp add: option_header_size_def\<close>)
  qed (subst read_options.simps, auto simp: option_header_size_def)
qed

section \<open>Messages\<close>

lemma flags_roundtrip: "flags_from_byte (flags_to_byte f) = f"
  by (cases f; cases "flag_reboot f"; cases "flag_unicast f")
    (simp_all add: flags_from_byte_def flags_to_byte_def)

definition options_len :: "sd_message \<Rightarrow> nat" where
  "options_len msg = (\<Sum>opt \<leftarrow> sd_options msg. option_wire_size opt)"

definition sd_size :: "sd_message \<Rightarrow> nat" where
  "sd_size msg = 12 + 16 * length (sd_entries msg) + options_len msg"

definition sd_payload :: "sd_message \<Rightarrow> byte list" where
  "sd_payload msg = [flags_to_byte (sd_flags msg), 0, 0, 0] @ be32 (of_nat (16 * length (sd_entries msg))) @
     entries_bytes (sd_entries msg) @ be32 (of_nat (options_len msg)) @ options_bytes (sd_options msg)"

definition sd_typed :: "sd_message \<Rightarrow> bool" where
  "sd_typed msg \<longleftrightarrow> (\<forall>opt \<in> set (sd_options msg). option_typed opt)"

definition sd_ok :: "sd_message \<Rightarrow> bool" where
  "sd_ok msg \<longleftrightarrow> (\<forall>opt \<in> set (sd_options msg). option_ok opt)"

definition sd_norm :: "sd_message \<Rightarrow> sd_message" where
  "sd_norm msg = msg\<lparr>sd_entries := map entry_norm (sd_entries msg)\<rparr>"

lemma sd_ok_typed: "sd_ok msg \<Longrightarrow> sd_typed msg"
  by (simp add: sd_ok_def sd_typed_def option_ok_def)

lemma length_sd_payload: "sd_typed msg \<Longrightarrow> length (sd_payload msg) = sd_size msg"
  by (simp add: sd_payload_def sd_size_def sd_typed_def options_len_def length_options_bytes)

lemma serialize_sd_eq:
  assumes "sd_typed msg"
  shows "serialize_sd buf msg = Some (if length buf < sd_size msg then (buf, 0)
    else (sd_payload msg @ drop (sd_size msg) buf, sd_size msg))"
proof (cases "length buf < sd_size msg")
  case True
  then show ?thesis
    by (simp add: serialize_sd_def sd_size_def options_len_def sd_min_payload_size_def entry_size_def Let_def mult.commute)
next
  case False
  let ?n = "length (sd_entries msg)" and ?o = "options_len msg"
  let ?h = "[flags_to_byte (sd_flags msg), 0, 0, 0] @ be32 (of_nat (16 * ?n))"
  have olen: "length (options_bytes (sd_options msg)) = ?o"
    using assms by (simp add: sd_typed_def options_len_def length_options_bytes)
  have fits: "12 + 16 * ?n + ?o \<le> length buf" using False by (simp add: sd_size_def)
  let ?b1 = "overwrite buf 0 ?h"
  have "do { buf \<leftarrow> poke buf 0 (flags_to_byte (sd_flags msg)); buf \<leftarrow> poke buf 1 0; buf \<leftarrow> poke buf 2 0;
      buf \<leftarrow> poke buf 3 0; write_u32_be buf 4 (of_nat (?n * 16)) } = Some ?b1"
    using fits by (simp add: write_u32_be_store poke_store store_overwrite overwrite_def mult.commute del: store.simps)
  then obtain a1 a2 a3 a4 where head: "poke buf 0 (flags_to_byte (sd_flags msg)) = Some a1" "poke a1 1 0 = Some a2"
    "poke a2 2 0 = Some a3" "poke a3 3 0 = Some a4" "write_u32_be a4 4 (of_nat (?n * 16)) = Some ?b1"
    by (auto simp: bind_eq_Some_conv)
  let ?b2 = "overwrite ?b1 8 (entries_bytes (sd_entries msg))"
  have entries: "write_entries ?b1 8 (sd_entries msg) = Some (?b2, 8 + 16 * ?n)"
    using fits by (intro write_entries_bytes) simp
  let ?b3 = "overwrite ?b2 (8 + 16 * ?n) (be32 (of_nat ?o))"
  have len: "write_u32_be ?b2 (8 + 16 * ?n) (of_nat ?o) = Some ?b3"
    using fits by (simp add: write_u32_be_store store_overwrite)
  have options: "write_options ?b3 (8 + 16 * ?n + 4) (sd_options msg) =
      Some (overwrite ?b3 (8 + 16 * ?n + 4) (options_bytes (sd_options msg)))"
    using fits olen assms by (intro write_options_bytes) (simp_all add: sd_typed_def)
  have "overwrite ?b3 (8 + 16 * ?n + 4) (options_bytes (sd_options msg)) =
      overwrite buf 0 (((?h @ entries_bytes (sd_entries msg)) @ be32 (of_nat ?o)) @ options_bytes (sd_options msg))"
    using overwrite_overwrite_adjacent [of 0 ?h "entries_bytes (sd_entries msg)" buf]
      overwrite_overwrite_adjacent [of 0 "?h @ entries_bytes (sd_entries msg)" "be32 (of_nat ?o)" buf]
      overwrite_overwrite_adjacent [of 0 "(?h @ entries_bytes (sd_entries msg)) @ be32 (of_nat ?o)"
        "options_bytes (sd_options msg)" buf] fits olen
    by (simp add: add_ac)
  also have "\<dots> = sd_payload msg @ drop (sd_size msg) buf"
    using olen by (simp add: overwrite_def sd_payload_def sd_size_def add.assoc)
  finally have "write_options ?b3 (8 + 16 * ?n + 4) (sd_options msg) =
      Some (sd_payload msg @ drop (sd_size msg) buf)"
    using options by simp
  moreover have "(\<Sum>opt \<leftarrow> sd_options msg. option_wire_size opt) = ?o" by (simp add: options_len_def)
  moreover have "sd_min_payload_size + ?n * entry_size + ?o = sd_size msg"
    by (simp add: sd_min_payload_size_def entry_size_def sd_size_def)
  ultimately show ?thesis
    using False head entries len
    by (simp only: serialize_sd_def Let_def Option.bind.bind_lunit entry_size_def if_False prod.case)
qed

text \<open>The 32-bit sum of the entries check wraps only for lengths that are no multiple of 16.\<close>

lemma entries_check_exact:
  fixes n :: u32
  assumes "n mod 16 = 0"
  shows "unat (8 + n + 4) = 12 + unat n"
proof -
  have "unat n mod 16 = 0" using assms unat_mod_distrib [of n 16] by simp
  then obtain k where k: "unat n = 16 * k" by (metis mod_0_imp_dvd dvdE)
  have "unat n < 2 ^ 32" using unsigned_less [of n, where 'a = nat] by simp
  then have "k < 268435456" using k by simp
  then have "12 + unat n < 4294967296" using k by linarith
  then show ?thesis
    by (simp add: unat_word_ariths)
qed

lemma deserialize_sd_payload:
  assumes "sd_ok msg" "sd_size msg < 2 ^ 32"
  shows "deserialize_sd (sd_payload msg @ r) = Some (Inr (sd_norm msg))"
proof -
  let ?n = "length (sd_entries msg)" and ?o = "options_len msg"
  let ?h = "[flags_to_byte (sd_flags msg), 0, 0, 0]" and ?E = "entries_bytes (sd_entries msg)"
    and ?O = "options_bytes (sd_options msg)"
  let ?p = "?h @ be32 (of_nat (16 * ?n)) @ ?E @ be32 (of_nat ?o) @ ?O @ r"
  define p where "p = ?p"
  have olen: "length ?O = ?o"
    using sd_ok_typed [OF assms(1)] by (simp add: sd_typed_def options_len_def length_options_bytes)
  have n: "unat (of_nat (16 * ?n) :: u32) = 16 * ?n" and o: "unat (of_nat ?o :: u32) = ?o"
    using assms(2) by (intro unat_of_nat_small; simp add: sd_size_def)+
  have b0: "peek p 0 = Some (flags_to_byte (sd_flags msg))" by (simp add: p_def peek_def)
  have e: "read_u32_be p 4 = Some (of_nat (16 * ?n))"
    using read_u32_be_at [of ?h 4] by (simp add: p_def)
  have es: "read_entries p 8 ?n = Some (Inr (map entry_norm (sd_entries msg), 8 + 16 * ?n))"
    using read_entries_bytes [of "?h @ be32 (of_nat (16 * ?n))" 8 "sd_entries msg" "be32 (of_nat ?o) @ ?O @ r"]
    by (simp add: p_def)
  have l: "read_u32_be p (8 + 16 * ?n) = Some (of_nat ?o)"
    using read_u32_be_at [of "?h @ be32 (of_nat (16 * ?n)) @ ?E" "8 + 16 * ?n" "of_nat ?o" "?O @ r"]
    by (simp add: p_def)
  have os: "read_options p (8 + 16 * ?n + 4) (8 + 16 * ?n + 4 + ?o) = Some (Inr (sd_options msg))"
    using read_options_bytes [of "sd_options msg" "?h @ be32 (of_nat (16 * ?n)) @ ?E @ be32 (of_nat ?o)"
        "8 + 16 * ?n + 4" "8 + 16 * ?n + 4 + ?o" r] assms(1) olen
    by (simp add: p_def sd_ok_def)
  have plen: "length p = 12 + 16 * ?n + ?o + length r" by (simp add: p_def olen)
  have mod: "of_nat (16 * ?n) mod (16 :: u32) = 0"
    using n by (simp add: unat_eq_zero [symmetric] unat_mod_distrib del: of_nat_mult unat_eq_zero)
  have divn: "unat (of_nat (16 * ?n) div (16 :: u32)) = ?n"
    using n by (simp add: unat_div_distrib del: of_nat_mult)
  have "deserialize_sd p = Some (Inr (sd_norm msg))"
    using b0 e es l os plen mod entries_check_exact [OF mod] n o divn
    by (simp add: deserialize_sd_def sd_min_payload_size_def entry_size_def flags_roundtrip sd_norm_def Let_def
        del: of_nat_mult)
  then show ?thesis by (simp add: p_def sd_payload_def)
qed

section \<open>What deserialisation accepts\<close>

lemma read_entry_norm: "read_entry m = Some e \<Longrightarrow> entry_norm e = e"
proof -
  assume "read_entry m = Some e"
  moreover have mask: "(x :: u8) AND 0x0F AND 0x0F = x AND 0x0F" for x by (simp add: and.assoc)
  moreover have "take_bit 24 (push_bit 16 (ucast a) OR push_bit 8 (ucast b) OR ucast c :: u32) =
      push_bit 16 (ucast a) OR push_bit 8 (ucast b) OR ucast c" for a b c :: byte
    by (rule bit_word_eqI) (auto simp: bit_simps dest: bit_imp_le_length)
  ultimately show "entry_norm e = e"
    by (auto simp: read_entry_def entry_norm_def sd_entry_default_def bind_eq_Some_conv Let_def split: if_splits)
qed

lemma read_entries_norm:
  "read_entries m off n = Some (Inr (es, off')) \<Longrightarrow> \<forall>e \<in> set es. entry_norm e = e"
proof (induction n arbitrary: off es)
  case (Suc n)
  then obtain s e r where "read_entry s = Some e" "read_entries m (off + entry_size) n = Some r"
    "(case r of Inl err \<Rightarrow> Inl err | Inr (es, off) \<Rightarrow> Inr (e # es, off)) = Inr (es, off')"
    by (auto simp: bind_eq_Some_conv split: if_splits)
  with Suc.IH show ?case by (cases r) (auto dest: read_entry_norm)
qed simp

lemma read_ipv4_ok: "read_ipv4_option m = Some opt \<Longrightarrow> ipv4_ok opt \<and> peek m 2 = Some (ot_code (opt_type opt))"
  by (auto simp: read_ipv4_option_def ipv4_ok_def bind_eq_Some_conv)

lemma peek_bytes_length: "peek_bytes m off n = Some bs \<Longrightarrow> length bs = n"
  by (induction n arbitrary: off bs) (auto simp: bind_eq_Some_conv)

lemma read_ipv6_ok: "read_ipv6_option m = Some opt \<Longrightarrow> ipv6_ok opt \<and> peek m 2 = Some (ot_code (opt_type opt))"
  by (auto simp: read_ipv6_option_def ipv6_ok_def bind_eq_Some_conv dest: peek_bytes_length)

lemma read_one_option_ok:
  assumes "read_one_option m off n t = Some (Inr os)" and "peek (drop off m) 2 = Some (ot_code t)"
  shows "(\<forall>opt \<in> set os. option_ok opt) \<and> (\<Sum>opt \<leftarrow> os. option_wire_size opt) \<le> n"
proof -
  have code: "peek (take k (drop off m)) 2 = Some (ot_code t') \<Longrightarrow> t' = t" for k t'
    using assms(2) by (cases t; cases t') (auto simp: peek_take split: if_splits)
  have v4: "read_ipv4_option (take k (drop off m)) = Some opt \<Longrightarrow> ipv4_ok opt \<and> opt_type opt = t" for k opt
    using read_ipv4_ok code by blast
  have v6: "read_ipv6_option (take k (drop off m)) = Some opt \<Longrightarrow> ipv6_ok opt \<and> opt_type opt = t" for k opt
    using read_ipv6_ok code by blast
  show ?thesis
    using assms(1)
    by (auto simp: read_one_option_def bind_eq_Some_conv subspan_eq_Some_iff option_ok_def option_typed_def
        option_wire_size_def ipv4_option_size_def ipv6_option_size_def split: if_splits
        dest: v4 v6)
qed

lemma read_options_ok:
  "read_options m off fin = Some (Inr os) \<Longrightarrow>
   (\<forall>opt \<in> set os. option_ok opt) \<and> off + (\<Sum>opt \<leftarrow> os. option_wire_size opt) \<le> max off fin"
proof (induction m off fin arbitrary: os rule: read_options.induct)
  case (1 m off fin)
  show ?case
  proof (cases "off < fin")
    case True
    with 1(2) [unfolded read_options.simps [of m off fin]] obtain s n t r os1 os2 where *: "subspan_from m off = Some s" "read_option_size s = Some n"
      "\<not> fin < off + n" "\<not> fin < off + option_header_size" "peek_option_type s = Some t"
      "read_one_option m off n t = Some (Inr os1)" "read_options m (off + n) fin = Some (Inr os2)" "os = os1 @ os2"
      by (auto simp: bind_eq_Some_conv case_sum_Inr_iff split: if_splits)
    have "peek (drop off m) 2 = Some (ot_code t)"
      using *(1,5) by (auto simp: peek_option_type_def subspan_from_eq_Some_iff)
    with read_one_option_ok [OF *(6)] 1(1) [OF True _ *(1-3) *(5,6) refl *(7)] * True show ?thesis
      by auto
  qed (use 1(2) in \<open>simp add: read_options.simps\<close>)
qed

lemma deserialize_sd_cases:
  "(\<exists>err. deserialize_sd p = Some (Inl err)) \<or>
   (\<exists>msg n off m. deserialize_sd p = Some (Inr msg) \<and>
      read_entries p 8 n = Some (Inr (sd_entries msg, off)) \<and> off + 4 + unat (m :: u32) \<le> length p \<and>
      read_options p (off + 4) (off + 4 + unat m) = Some (Inr (sd_options msg)))"
proof (cases "length p < 12")
  case False
  then have b: "peek p 0 = Some (p ! 0)" by (intro peek_Some) linarith
  obtain l where l: "read_u32_be p 4 = Some l" using False read_u32_be_Some_iff [of p 4] by auto
  show ?thesis
  proof (cases "length p < unat (8 + l + 4) \<or> l mod 16 \<noteq> 0")
    case True
    then show ?thesis
      using False b l
      by (cases "length p < unat (8 + l + 4)") (simp_all add: deserialize_sd_def sd_min_payload_size_def entry_size_def Let_def)
  next
    case ok: False
    consider "read_entries p 8 (unat (l div 16)) = Some (Inl Truncated_entry)"
      | es off where "read_entries p 8 (unat (l div 16)) = Some (Inr (es, off))"
      using read_entries_total [of p 8] by blast
    then show ?thesis
    proof cases
      case 1
      then show ?thesis using ok b l by (simp add: deserialize_sd_def entry_size_def Let_def)
    next
      case 2
      show ?thesis
      proof (cases "length p < off + 4")
        case False
        then obtain m where m: "read_u32_be p off = Some m" using read_u32_be_Some_iff [of p off] by auto
        show ?thesis
        proof (cases "length p < off + 4 + unat m")
          case False
          then have le: "off + 4 + unat m \<le> length p" by simp
          then obtain q where q: "read_options p (off + 4) (off + 4 + unat m) = Some q"
            using read_options_total [of "off + 4 + unat m" p "off + 4"] by auto
          show ?thesis
          proof (cases q)
            case (Inr os)
            let ?msg = "\<lparr>sd_flags = flags_from_byte (p ! 0), sd_entries = es, sd_options = os\<rparr>"
            have "deserialize_sd p = Some (Inr ?msg)"
              using ok b l m 2 q le Inr \<open>\<not> length p < 12\<close>
              by (simp add: deserialize_sd_def sd_min_payload_size_def entry_size_def Let_def)
            moreover have "read_entries p 8 (unat (l div 16)) = Some (Inr (sd_entries ?msg, off))"
              "read_options p (off + 4) (off + 4 + unat m) = Some (Inr (sd_options ?msg))"
              using 2 q Inr by simp_all
            ultimately show ?thesis using le by blast
          qed (use ok b l m 2 q le in \<open>simp add: deserialize_sd_def entry_size_def Let_def\<close>)
        qed (use ok b l m 2 in \<open>simp add: deserialize_sd_def entry_size_def Let_def\<close>)
      qed (use ok b l 2 in \<open>simp add: deserialize_sd_def entry_size_def Let_def\<close>)
    qed
  qed
qed (simp add: deserialize_sd_def sd_min_payload_size_def)

lemma deserialize_sd_ok:
  assumes "deserialize_sd p = Some (Inr msg)"
  shows "sd_ok msg \<and> sd_norm msg = msg \<and> sd_size msg \<le> length p"
proof -
  obtain n off m where es: "read_entries p 8 n = Some (Inr (sd_entries msg, off))"
    and fit: "off + 4 + unat (m :: u32) \<le> length p"
    and os: "read_options p (off + 4) (off + 4 + unat m) = Some (Inr (sd_options msg))"
    using deserialize_sd_cases [of p] assms by auto
  have "length (sd_entries msg) = n" "off = 8 + 16 * n"
    using read_entries_total [of p 8 n] es by auto
  moreover have "map entry_norm (sd_entries msg) = sd_entries msg"
    using read_entries_norm [OF es] by (simp add: map_idI)
  ultimately show ?thesis
    using read_options_ok [OF os] fit
    by (cases msg) (auto simp: sd_ok_def sd_norm_def sd_size_def options_len_def)
qed

section \<open>Properties\<close>

text \<open>C3. Parsing an SD payload is safe and total for every byte sequence a peer may send: it never reads
  outside the payload and always returns. What it accepts is canonical - the options have an
  address of the right length and a known type, the entries carry nothing the wire cannot hold,
  the message re-serialises into no more bytes than were received, and those bytes parse to the
  same message.\<close>

theorem sd_parse:
  "\<exists>r. deserialize_sd p = Some r \<and>
    (\<forall>msg. r = Inr msg \<longrightarrow> sd_ok msg \<and> sd_norm msg = msg \<and> sd_size msg \<le> length p \<and>
      (sd_size msg < 2 ^ 32 \<longrightarrow> deserialize_sd (sd_payload msg) = Some (Inr msg)))"
proof -
  obtain r where r: "deserialize_sd p = Some r" using deserialize_sd_cases by blast
  have "sd_ok msg \<and> sd_norm msg = msg \<and> sd_size msg \<le> length p \<and>
      (sd_size msg < 2 ^ 32 \<longrightarrow> deserialize_sd (sd_payload msg) = Some (Inr msg))" if "r = Inr msg" for msg
    using deserialize_sd_ok [of p msg] deserialize_sd_payload [of msg "[]"] r that by auto
  with r show ?thesis by blast
qed

definition example_sd :: sd_message where
  "example_sd = \<lparr>sd_flags = sd_flags_default,
     sd_entries = [make_offer_service (Strong_id 0x1234) (Strong_id 1) 1 0 3,
                   make_subscribe_ack (Strong_id 0x1234) (Strong_id 1) 1 (Strong_id 7) 3],
     sd_options = [Ipv4_option (make_ipv4_endpoint 192 168 0 1 l4_udp 30509)]\<rparr>"

lemma sd_parse_witness:
  "\<exists>msg. deserialize_sd (sd_payload example_sd) = Some (Inr msg) \<and> sd_ok msg"
proof -
  have ok: "sd_ok example_sd"
    by (simp add: example_sd_def sd_ok_def option_ok_def option_typed_def ipv4_ok_def make_ipv4_endpoint_def)
  have size: "sd_size example_sd < 2 ^ 32"
    by (simp add: example_sd_def sd_size_def options_len_def option_wire_size_def ipv4_option_size_def)
  show ?thesis
    using sd_parse [of "sd_payload example_sd"] deserialize_sd_payload [OF ok size, of "[]"] by auto
qed

text \<open>C4. Serialising a message writes exactly its wire image at the start of the buffer and leaves the
  rest alone, or, when the buffer is too small, writes nothing and returns 0; and the image parses
  back to the message, with option counts cut to four bits, the TTL to 24, and the field of the
  other entry variant dropped - whatever follows it in the buffer.\<close>

theorem sd_roundtrip:
  assumes "sd_ok msg" and "sd_size msg < 2 ^ 32"
  shows "serialize_sd buf msg = Some (if length buf < sd_size msg then (buf, 0)
      else (sd_payload msg @ drop (sd_size msg) buf, sd_size msg)) \<and>
    length (sd_payload msg) = sd_size msg \<and>
    deserialize_sd (sd_payload msg @ r) = Some (Inr (sd_norm msg))"
  using assms by (simp add: serialize_sd_eq sd_ok_typed length_sd_payload deserialize_sd_payload)

lemma sd_roundtrip_witness:
  "serialize_sd (replicate 60 7) example_sd = Some (sd_payload example_sd @ replicate 4 7, 56) \<and>
   deserialize_sd (sd_payload example_sd @ replicate 4 7) = Some (Inr example_sd)"
proof -
  have size: "sd_size example_sd = 56"
    by (simp add: example_sd_def sd_size_def options_len_def option_wire_size_def ipv4_option_size_def)
  moreover have "sd_norm example_sd = example_sd"
    by (simp add: example_sd_def sd_norm_def entry_norm_def make_offer_service_def make_subscribe_ack_def
        sd_entry_default_def is_service_entry_def offer_service_def subscribe_eventgroup_ack_def)
  moreover have "sd_ok example_sd"
    by (simp add: example_sd_def sd_ok_def option_ok_def option_typed_def ipv4_ok_def make_ipv4_endpoint_def)
  ultimately show ?thesis
    using sd_roundtrip [of example_sd "replicate 60 7" "replicate 4 7"] by simp
qed

text \<open>The check of the entries length is exact although its sum \<open>8 + entries_len + 4\<close> is computed in 32
  bits: on a payload of at least the minimum size, parsing fails with \<open>invalid_entries_length\<close>
  whenever the entries array, taken over the integers, does not fit or is no whole number of
  entries - for every value of the length field, those that wrap the sum included.\<close>

theorem sd_entries_length_check:
  assumes "12 \<le> length p" and "read_u32_be p 4 = Some n"
  shows "length p < 12 + unat n \<or> unat n mod 16 \<noteq> 0 \<Longrightarrow>
    deserialize_sd p = Some (Inl Invalid_entries_length)"
proof -
  assume bad: "length p < 12 + unat n \<or> unat n mod 16 \<noteq> 0"
  have b: "peek p 0 = Some (p ! 0)" by (rule peek_Some) (use assms(1) in linarith)
  show ?thesis
  proof (cases "n mod 16 = 0")
    case True
    then have "unat (8 + n + 4) = 12 + unat n" by (rule entries_check_exact)
    moreover have "unat n mod 16 = 0" using True unat_mod_distrib [of n 16] by simp
    ultimately have "length p < unat (8 + n + 4)" using bad by simp
    then show ?thesis
      using assms b by (simp add: deserialize_sd_def sd_min_payload_size_def Let_def)
  next
    case False
    then show ?thesis
      using assms b by (simp add: deserialize_sd_def sd_min_payload_size_def entry_size_def Let_def)
  qed
qed

lemma sd_entries_length_check_witness:
  "deserialize_sd ([0x40, 0, 0, 0] @ be32 0xFFFFFFF8 @ [0, 0, 0, 0]) = Some (Inl Invalid_entries_length)"
proof (rule sd_entries_length_check)
  show "read_u32_be ([0x40, 0, 0, 0] @ be32 0xFFFFFFF8 @ [0, 0, 0, 0]) 4 = Some 0xFFFFFFF8"
    by (rule read_u32_be_at) simp
qed simp_all

text \<open>A complete SD message in a buffer with room for it: the SOME/IP header names the SD service,
  method and client, carries the session and the payload length, and is followed by the payload.
  In a buffer without room nothing is claimed (the result is 0) if the message has entries; a
  message without entries is claimed to be 16 bytes long although its payload was not written.\<close>

theorem build_sd:
  assumes "sd_typed msg" and "sd_size msg < 2 ^ 32 - 8" and "16 \<le> length buf"
  shows "let fits = 16 + sd_size msg \<le> length buf;
      h = \<lparr>f_service = sd_service, f_method = sd_method,
        f_length = of_nat (if fits then sd_size msg else 0) + 8, f_client = sd_client,
        f_session = session, f_protocol = protocol_version, f_interface = 1,
        f_type = mt_notification, f_rcode = e_ok\<rparr>
    in build_sd_message buf msg session = Some
      (if fits then (header_bytes h @ sd_payload msg @ drop (16 + sd_size msg) buf, 16 + sd_size msg)
       else if sd_entries msg = [] then (header_bytes h @ drop 16 buf, 16) else (buf, 0))"
proof -
  obtain h0 r where buf: "buf = header_bytes h0 @ r" using assms(3) by (rule header_cases)
  have ser: "serialize_sd r msg = Some (if length r < sd_size msg then (r, 0)
      else (sd_payload msg @ drop (sd_size msg) r, sd_size msg))"
    by (rule serialize_sd_eq) (fact assms(1))
  have pos: "sd_size msg \<noteq> 0" by (simp add: sd_size_def)
  have st: "store buf 16 q = Some (header_bytes h0 @ q)" if "length q = length r" for q
    using that by (subst store_overwrite) (simp_all add: buf overwrite_def)
  have st': "store (header_bytes h0 @ q) 16 q = Some (header_bytes h0 @ q)" for q
    by (subst store_overwrite) (simp_all add: overwrite_def)
  show ?thesis
  proof (cases "length r < sd_size msg")
    case True
    then show ?thesis
      using ser st [of r] st' [of r]
      by (cases h0) (simp add: build_sd_message_def buf header_size_def mem_simps hdr_setters Let_def)
  next
    case False
    let ?q = "sd_payload msg @ drop (sd_size msg) r"
    have "length ?q = length r" using False length_sd_payload [OF assms(1)] by simp
    with False pos ser st [of ?q] st' [of ?q] show ?thesis
      by (cases h0) (simp add: build_sd_message_def buf header_size_def mem_simps hdr_setters Let_def)
  qed
qed

lemma build_sd_witness:
  "\<exists>buf. build_sd_message (replicate 20 0) (example_sd\<lparr>sd_entries := [], sd_options := []\<rparr>) (Strong_id 1) =
     Some (buf, 16)"
  using build_sd [of "example_sd\<lparr>sd_entries := [], sd_options := []\<rparr>" "replicate 20 0" "Strong_id 1"]
  by (simp add: sd_typed_def sd_size_def options_len_def Let_def)

end
