(* ===== verification/Sd_Discovery_Correct.thy ===== *)
theory Sd_Discovery_Correct
  imports Sd_Discovery Sd_Message_Correct
begin

text \<open>
  Correctness of the service-discovery state machine: the sending schedule of offers and finds, the
  contents of the messages a tick produces, and the absence of undefined shifts in every reachable
  state, which holds exactly when \<open>repetition_max\<close> is at most 33.
\<close>

section \<open>Phases\<close>

lemma backoff_small:
  assumes "1 \<le> n" "n \<le> 32"
  shows "backoff cfg (of_nat n) = Some (repetition_base_delay cfg * 2 ^ (n - 1))"
proof -
  have "unat (of_nat n - 1 :: u32) = n - 1"
    using assms unat_of_nat_small [of "n - 1", where 'a = 32] by (simp add: of_nat_diff)
  moreover have "uint (push_bit (n - 1) 1 :: u32) = 2 ^ (n - 1)"
  proof -
    have "(2 :: int) ^ (n - 1) < 2 ^ 32" using assms by (intro power_strict_increasing) auto
    then have small: "take_bit 32 (2 ^ (n - 1)) = (2 :: int) ^ (n - 1)"
      by (intro take_bit_int_eq_self) auto
    have "uint (push_bit (n - 1) 1 :: u32) = take_bit 32 (push_bit (n - 1) (uint (1 :: u32)))"
      by (subst unsigned_push_bit_eq) (use assms in simp_all)
    also have "\<dots> = 2 ^ (n - 1)" using small by (simp add: push_bit_eq_mult)
    finally show ?thesis .
  qed
  ultimately show ?thesis using assms by (simp add: backoff_def)
qed

text \<open>Sending at the given times, one phase step each.\<close>

fun advance_all :: "sd_config \<Rightarrow> offer_state \<Rightarrow> int list \<Rightarrow> offer_state option" where
  "advance_all cfg s [] = Some s"
| "advance_all cfg s (t # ts) = do { s \<leftarrow> advance_phase cfg s t; advance_all cfg s ts }"

fun advance_find_all :: "sd_config \<Rightarrow> find_state \<Rightarrow> int list \<Rightarrow> find_state option" where
  "advance_find_all cfg s [] = Some s"
| "advance_find_all cfg s (t # ts) = do { s \<leftarrow> advance_find_phase cfg s t; advance_find_all cfg s ts }"

lemma advance_all_snoc:
  "advance_all cfg s (ts @ [t]) = do { s \<leftarrow> advance_all cfg s ts; advance_phase cfg s t }"
  by (induction ts arbitrary: s) (auto simp: bind_assoc split: Option.bind_splits)

lemma advance_find_all_snoc:
  "advance_find_all cfg s (ts @ [t]) = do { s \<leftarrow> advance_find_all cfg s ts; advance_find_phase cfg s t }"
  by (induction ts arbitrary: s) (auto simp: bind_assoc split: Option.bind_splits)

text \<open>The number of sends before the repetition phase is over.\<close>

definition repetitions :: "sd_config \<Rightarrow> nat" where
  "repetitions cfg = max 2 (unat (repetition_max cfg))"

lemma of_nat_less_max:
  assumes "n < 2 ^ 32"
  shows "repetition_max cfg \<le> of_nat n \<longleftrightarrow> unat (repetition_max cfg) \<le> n"
  using assms by (simp add: word_le_nat_alt unat_of_nat_small)

lemma offer_schedule_aux:
  assumes "unat (repetition_max cfg) \<le> 33" and "off_phase s = Initial_wait"
  shows "advance_all cfg s (ts @ [t]) = Some (let n = Suc (length ts) in
    if n < repetitions cfg
    then s\<lparr>off_phase := Repetition, off_count := of_nat n,
           off_next_send := t + repetition_base_delay cfg * 2 ^ (n - 1)\<rparr>
    else s\<lparr>off_phase := Main, off_count := of_nat (repetitions cfg),
           off_next_send := t + cyclic_offer_delay cfg\<rparr>)"
proof (induction ts arbitrary: t rule: rev_induct)
  case Nil
  then show ?case using assms(2) by (simp add: advance_phase_def repetitions_def)
next
  case (snoc t' ts)
  let ?n = "Suc (length ts)" and ?m = "Suc (Suc (length ts))"
  let ?prev = "if ?n < repetitions cfg
    then s\<lparr>off_phase := Repetition, off_count := of_nat ?n,
           off_next_send := t' + repetition_base_delay cfg * 2 ^ (?n - 1)\<rparr>
    else s\<lparr>off_phase := Main, off_count := of_nat (repetitions cfg),
           off_next_send := t' + cyclic_offer_delay cfg\<rparr>"
  have prev: "advance_all cfg s ((ts @ [t']) @ [t]) = advance_phase cfg ?prev t"
    using snoc [of t'] by (simp only: advance_all_snoc Let_def Option.bind.bind_lunit)
  have rep: "repetitions cfg \<le> 33" "2 \<le> repetitions cfg"
    using assms(1) by (simp_all add: repetitions_def)
  show ?case
  proof (cases "?n < repetitions cfg")
    case True
    then have le: "repetition_max cfg \<le> of_nat ?m \<longleftrightarrow> repetitions cfg \<le> ?m"
      using rep by (subst of_nat_less_max) (auto simp: repetitions_def)
    have count: "of_nat ?n + 1 = (of_nat ?m :: u32)" by simp
    show ?thesis
    proof (cases "repetitions cfg \<le> ?m")
      case m: True
      then have "repetitions cfg = ?m" using True by simp
      with True m le show ?thesis
        unfolding prev by (simp add: advance_phase_def Let_def del: of_nat_Suc add: count)
    next
      case False
      then have "backoff cfg (of_nat ?m) = Some (repetition_base_delay cfg * 2 ^ (?m - 1))"
        using rep by (intro backoff_small) auto
      with True False le show ?thesis
        unfolding prev by (simp add: advance_phase_def Let_def del: of_nat_Suc add: count)
    qed
  qed (unfold prev, simp add: advance_phase_def)
qed

lemma find_schedule_aux:
  assumes "unat (repetition_max cfg) \<le> 33" and "find_phase s = Initial_wait"
  shows "advance_find_all cfg s (ts @ [t]) = Some s' \<Longrightarrow> (let n = Suc (length ts) in
    if n < repetitions cfg
    then s' = s\<lparr>find_phase := Repetition, find_count := of_nat n,
                find_next_send := t + repetition_base_delay cfg * 2 ^ (n - 1)\<rparr>
    else find_phase s' = Down)"
  and "advance_find_all cfg s (ts @ [t]) \<noteq> None"
proof -
  have "\<exists>s'. advance_find_all cfg s (ts @ [t]) = Some s' \<and> (let n = Suc (length ts) in
    if n < repetitions cfg
    then s' = s\<lparr>find_phase := Repetition, find_count := of_nat n,
                find_next_send := t + repetition_base_delay cfg * 2 ^ (n - 1)\<rparr>
    else find_phase s' = Down)"
  proof (induction ts arbitrary: t rule: rev_induct)
    case Nil
    then show ?case using assms(2) by (simp add: advance_find_phase_def repetitions_def)
  next
    case (snoc t' ts)
    let ?n = "Suc (length ts)" and ?m = "Suc (Suc (length ts))"
    obtain p where p: "advance_find_all cfg s (ts @ [t']) = Some p"
      "if ?n < repetitions cfg
       then p = s\<lparr>find_phase := Repetition, find_count := of_nat ?n,
                  find_next_send := t' + repetition_base_delay cfg * 2 ^ (?n - 1)\<rparr>
       else find_phase p = Down"
      using snoc [of t'] by (auto simp only: Let_def)
    have prev: "advance_find_all cfg s ((ts @ [t']) @ [t]) = advance_find_phase cfg p t"
      using advance_find_all_snoc [of cfg s "ts @ [t']" t] p(1) by simp
    have rep: "repetitions cfg \<le> 33" "2 \<le> repetitions cfg"
      using assms(1) by (simp_all add: repetitions_def)
    show ?case
    proof (cases "?n < repetitions cfg")
      case True
      then have le: "repetition_max cfg \<le> of_nat ?m \<longleftrightarrow> repetitions cfg \<le> ?m"
        using rep by (subst of_nat_less_max) (auto simp: repetitions_def)
      have count: "of_nat ?n + 1 = (of_nat ?m :: u32)" by simp
      show ?thesis
      proof (cases "repetitions cfg \<le> ?m")
        case m: True
        with True p(2) le show ?thesis
          unfolding prev by (simp add: advance_find_phase_def Let_def del: of_nat_Suc add: count)
      next
        case False
        then have "backoff cfg (of_nat ?m) = Some (repetition_base_delay cfg * 2 ^ (?m - 1))"
          using rep by (intro backoff_small) auto
        with True False p(2) le show ?thesis
          unfolding prev by (simp add: advance_find_phase_def Let_def del: of_nat_Suc add: count)
      qed
    qed (unfold prev, use p(2) in \<open>simp add: advance_find_phase_def\<close>)
  qed
  then show "advance_find_all cfg s (ts @ [t]) = Some s' \<Longrightarrow> (let n = Suc (length ts) in
    if n < repetitions cfg
    then s' = s\<lparr>find_phase := Repetition, find_count := of_nat n,
                find_next_send := t + repetition_base_delay cfg * 2 ^ (n - 1)\<rparr>
    else find_phase s' = Down)" and "advance_find_all cfg s (ts @ [t]) \<noteq> None"
    by auto
qed

section \<open>What a tick sends\<close>

text \<open>The due offers in order, each with the entry that carries the number of options before it.\<close>

fun due_entries :: "sd_config \<Rightarrow> int \<Rightarrow> offer_state list \<Rightarrow> sd_option list \<Rightarrow> sd_entry list" where
  "due_entries cfg now [] options = []"
| "due_entries cfg now (s # ss) options =
     (if offer_due now s then offer_entry cfg s options # due_entries cfg now ss (options @ off_options s)
      else due_entries cfg now ss options)"

definition due_options :: "int \<Rightarrow> offer_state list \<Rightarrow> sd_option list" where
  "due_options now ss = concat (map off_options (filter (offer_due now) ss))"

text \<open>What a tick does to one offer and one find.\<close>

definition offer_step :: "sd_config \<Rightarrow> int \<Rightarrow> offer_state \<Rightarrow> offer_state \<Rightarrow> bool" where
  "offer_step cfg now s s' \<longleftrightarrow> (if offer_due now s then advance_phase cfg s now = Some s' else s' = s)"

definition find_step :: "sd_config \<Rightarrow> int \<Rightarrow> find_state \<Rightarrow> find_state \<Rightarrow> bool" where
  "find_step cfg now s s' \<longleftrightarrow> (if find_due now s then advance_find_phase cfg s now = Some s' else s' = s)"

lemma offer_step_simps [simp]:
  "offer_due now s \<Longrightarrow> offer_step cfg now s s' \<longleftrightarrow> advance_phase cfg s now = Some s'"
  "\<not> offer_due now s \<Longrightarrow> offer_step cfg now s s' \<longleftrightarrow> s' = s"
  by (simp_all add: offer_step_def)

lemma find_step_simps [simp]:
  "find_due now f \<Longrightarrow> find_step cfg now f f' \<longleftrightarrow> advance_find_phase cfg f now = Some f'"
  "\<not> find_due now f \<Longrightarrow> find_step cfg now f f' \<longleftrightarrow> f' = f"
  by (simp_all add: find_step_def)

lemma tick_offers_result:
  "tick_offers cfg now ss entries options = Some (ss', entries', options') \<Longrightarrow>
   entries' = entries @ due_entries cfg now ss options \<and> options' = options @ due_options now ss \<and>
   list_all2 (offer_step cfg now) ss ss'"
proof (induction ss arbitrary: entries options ss' entries' options')
  case (Cons s ss)
  from Cons.prems show ?case
    by (cases "offer_due now s")
      (auto simp: due_options_def bind_eq_Some_conv Let_def split: prod.splits dest!: Cons.IH)
qed (simp add: due_options_def)

lemma tick_offers_defined:
  "tick_offers cfg now ss entries options \<noteq> None \<longleftrightarrow>
   (\<forall>s \<in> set ss. offer_due now s \<longrightarrow> advance_phase cfg s now \<noteq> None)"
proof (induction ss arbitrary: entries options)
  case (Cons s ss)
  have "do { (ss, entries, options) \<leftarrow> tick_offers cfg now ss e os; Some (s' # ss, entries, options) } = None \<longleftrightarrow>
      tick_offers cfg now ss e os = None" for e os s'
    by (cases "tick_offers cfg now ss e os") auto
  with Cons.IH show ?case
    by (cases "advance_phase cfg s now") (simp_all add: Let_def del: not_None_eq bind_eq_None_conv)
qed simp

definition find_entry :: "sd_config \<Rightarrow> find_state \<Rightarrow> sd_entry" where
  "find_entry cfg s =
     make_find_service (find_service_id s) (find_instance s) (find_major s) (find_minor s) (find_ttl cfg)"

lemma tick_finds_result:
  "tick_finds cfg now ss entries = Some (ss', entries') \<Longrightarrow>
   entries' = entries @ map (find_entry cfg) (filter (find_due now) ss) \<and>
   list_all2 (find_step cfg now) ss ss'"
proof (induction ss arbitrary: entries ss' entries')
  case (Cons s ss)
  from Cons.prems show ?case
    by (cases "find_due now s")
      (auto simp: find_entry_def bind_eq_Some_conv Let_def split: prod.splits dest!: Cons.IH)
qed simp

lemma tick_finds_defined:
  "tick_finds cfg now ss entries \<noteq> None \<longleftrightarrow>
   (\<forall>s \<in> set ss. find_due now s \<longrightarrow> advance_find_phase cfg s now \<noteq> None)"
proof (induction ss arbitrary: entries)
  case (Cons s ss)
  have "do { (ss, entries) \<leftarrow> tick_finds cfg now ss e; Some (s' # ss, entries) } = None \<longleftrightarrow>
      tick_finds cfg now ss e = None" for e s'
    by (cases "tick_finds cfg now ss e") auto
  with Cons.IH show ?case
    by (cases "advance_find_phase cfg s now") (simp_all add: Let_def del: not_None_eq bind_eq_None_conv)
qed simp

lemma tick_defined:
  "tick d now \<noteq> None \<longleftrightarrow>
   (\<forall>s \<in> set (disc_offers d). offer_due now s \<longrightarrow> advance_phase (disc_config d) s now \<noteq> None) \<and>
   (\<forall>s \<in> set (disc_finds d). find_due now s \<longrightarrow> advance_find_phase (disc_config d) s now \<noteq> None)"
proof -
  let ?O = "tick_offers (disc_config d) now (disc_offers d) (map stop_entry (pending_stop_offers d)) []"
  let ?F = "tick_finds (disc_config d) now (disc_finds d) []"
  have "tick d now \<noteq> None \<longleftrightarrow> ?O \<noteq> None \<and> ?F \<noteq> None"
    by (cases ?O; cases ?F) (auto simp: tick_def Let_def split: prod.splits)
  then show ?thesis by (simp only: tick_offers_defined tick_finds_defined)
qed

lemma tick_result:
  assumes "tick d now = Some (d', msgs)"
  shows "msgs = tick_message d (map stop_entry (pending_stop_offers d) @ due_entries (disc_config d) now (disc_offers d) [])
      (due_options now (disc_offers d)) @
      tick_message d (map (find_entry (disc_config d)) (filter (find_due now) (disc_finds d))) []"
    and "pending_stop_offers d' = []" and "disc_config d' = disc_config d" and "reboot_flag d' = reboot_flag d"
    and "list_all2 (offer_step (disc_config d) now) (disc_offers d) (disc_offers d')"
    and "list_all2 (find_step (disc_config d) now) (disc_finds d) (disc_finds d')"
proof -
  obtain offers entries options finds fentries where
    *: "tick_offers (disc_config d) now (disc_offers d) (map stop_entry (pending_stop_offers d)) [] =
        Some (offers, entries, options)"
      "tick_finds (disc_config d) now (disc_finds d) [] = Some (finds, fentries)"
      "d' = d\<lparr>pending_stop_offers := [], disc_offers := offers, disc_finds := finds\<rparr>"
      "msgs = tick_message d entries options @ tick_message d fentries []"
    using assms by (auto simp: tick_def bind_eq_Some_conv Let_def tick_message_def split: prod.splits)
  show "msgs = tick_message d (map stop_entry (pending_stop_offers d) @ due_entries (disc_config d) now (disc_offers d) [])
      (due_options now (disc_offers d)) @
      tick_message d (map (find_entry (disc_config d)) (filter (find_due now) (disc_finds d))) []"
    and "pending_stop_offers d' = []" and "disc_config d' = disc_config d" and "reboot_flag d' = reboot_flag d"
    and "list_all2 (offer_step (disc_config d) now) (disc_offers d) (disc_offers d')"
    and "list_all2 (find_step (disc_config d) now) (disc_finds d) (disc_finds d')"
    using * tick_offers_result [OF *(1)] tick_finds_result [OF *(2)] by auto
qed

section \<open>Reachable states\<close>

inductive disc_reachable :: "sd_config \<Rightarrow> discovery \<Rightarrow> bool" for cfg where
  init: "disc_reachable cfg (discovery_init cfg)"
| start_offer: "disc_reachable cfg d \<Longrightarrow> disc_reachable cfg (start_offer d svc inst major minor opts now)"
| stop_offer: "disc_reachable cfg d \<Longrightarrow> disc_reachable cfg (stop_offer d svc inst)"
| start_find: "disc_reachable cfg d \<Longrightarrow> disc_reachable cfg (start_find d svc inst major minor now)"
| stop_find: "disc_reachable cfg d \<Longrightarrow> disc_reachable cfg (stop_find d svc inst)"
| reboot: "disc_reachable cfg d \<Longrightarrow> disc_reachable cfg (set_reboot_flag d v)"
| tick: "disc_reachable cfg d \<Longrightarrow> tick d now = Some (d', msgs) \<Longrightarrow> disc_reachable cfg d'"

text \<open>The invariant of an offer: it is never down, and its repetition count stays below the limit.\<close>

definition offer_inv :: "sd_config \<Rightarrow> offer_state \<Rightarrow> bool" where
  "offer_inv cfg s \<longleftrightarrow> off_phase s \<noteq> Down \<and>
     (off_phase s = Repetition \<longrightarrow> 1 \<le> unat (off_count s) \<and> unat (off_count s) < repetitions cfg)"

definition find_inv :: "sd_config \<Rightarrow> find_state \<Rightarrow> bool" where
  "find_inv cfg s \<longleftrightarrow> find_phase s \<noteq> Main \<and>
     (find_phase s = Repetition \<longrightarrow> 1 \<le> unat (find_count s) \<and> unat (find_count s) < repetitions cfg)"

definition disc_inv :: "sd_config \<Rightarrow> discovery \<Rightarrow> bool" where
  "disc_inv cfg d \<longleftrightarrow> disc_config d = cfg \<and> (\<forall>s \<in> set (disc_offers d). offer_inv cfg s) \<and>
     (\<forall>s \<in> set (disc_finds d). find_inv cfg s)"

lemma repetitions_bound: "repetitions cfg < 2 ^ 32"
  using unsigned_less [of "repetition_max cfg", where 'a = nat] by (simp add: repetitions_def)

text \<open>The next count, over the naturals.\<close>

lemma count_step:
  fixes c :: u32
  assumes "unat c < repetitions cfg"
  shows "unat (c + 1) = Suc (unat c)"
proof -
  have "Suc (unat c) < 2 ^ 32" using assms repetitions_bound [of cfg] by linarith
  then have "unat (of_nat (Suc (unat c)) :: u32) = Suc (unat c)" by (intro unat_of_nat_small) simp
  moreover have "of_nat (Suc (unat c)) = c + 1" by simp
  ultimately show ?thesis by (simp only:)
qed

lemma backoff_defined: "backoff cfg c \<noteq> None \<longleftrightarrow> unat (c - 1) < 32"
  by (simp add: backoff_def)

lemma advance_phase_inv:
  assumes "offer_inv cfg s" "advance_phase cfg s now = Some s'"
  shows "offer_inv cfg s'"
proof (cases "off_phase s = Repetition")
  case True
  then have c: "unat (off_count s) < repetitions cfg" using assms(1) by (simp add: offer_inv_def)
  show ?thesis
  proof (cases "repetition_max cfg \<le> off_count s + 1")
    case False
    then have "Suc (unat (off_count s)) < unat (repetition_max cfg)"
      using count_step [OF c] by (simp add: word_le_nat_alt)
    with False True assms(2) show ?thesis
      by (auto simp: offer_inv_def advance_phase_def Let_def bind_eq_Some_conv count_step [OF c] repetitions_def)
  qed (use True assms(2) in \<open>auto simp: offer_inv_def advance_phase_def Let_def\<close>)
next
  case False
  with assms show ?thesis
    by (cases "off_phase s") (auto simp: offer_inv_def advance_phase_def repetitions_def)
qed

lemma advance_find_phase_inv:
  assumes "find_inv cfg s" "advance_find_phase cfg s now = Some s'"
  shows "find_inv cfg s'"
proof (cases "find_phase s = Repetition")
  case True
  then have c: "unat (find_count s) < repetitions cfg" using assms(1) by (simp add: find_inv_def)
  show ?thesis
  proof (cases "repetition_max cfg \<le> find_count s + 1")
    case False
    then have "Suc (unat (find_count s)) < unat (repetition_max cfg)"
      using count_step [OF c] by (simp add: word_le_nat_alt)
    with False True assms(2) show ?thesis
      by (auto simp: find_inv_def advance_find_phase_def Let_def bind_eq_Some_conv count_step [OF c] repetitions_def)
  qed (use True assms(2) in \<open>auto simp: find_inv_def advance_find_phase_def Let_def\<close>)
next
  case False
  with assms show ?thesis
    by (cases "find_phase s") (auto simp: find_inv_def advance_find_phase_def repetitions_def)
qed

text \<open>A step is defined unless the shift is too large, which needs a limit above 33.\<close>

lemma advance_defined:
  assumes "unat (repetition_max cfg) \<le> 33"
  shows "offer_inv cfg s \<Longrightarrow> advance_phase cfg s now \<noteq> None"
    and "find_inv cfg f \<Longrightarrow> advance_find_phase cfg f now \<noteq> None"
proof -
  have shift: "backoff cfg (c + 1) \<noteq> None" if "\<not> repetition_max cfg \<le> c + 1" "unat c < repetitions cfg" for c
    using that assms count_step [OF that(2)] by (simp add: backoff_def word_le_nat_alt)
  show "offer_inv cfg s \<Longrightarrow> advance_phase cfg s now \<noteq> None"
    using shift [of "off_count s"]
    by (cases "off_phase s") (auto simp: offer_inv_def advance_phase_def Let_def)
  show "find_inv cfg f \<Longrightarrow> advance_find_phase cfg f now \<noteq> None"
    using shift [of "find_count f"]
    by (cases "find_phase f") (auto simp: find_inv_def advance_find_phase_def Let_def)
qed

lemma take_offer_set:
  "take_offer svc inst ss = Some (s, ss') \<Longrightarrow>
   (\<exists>xs ys. ss = xs @ s # ys \<and> ss' = xs @ ys \<and> off_service s = svc \<and> off_instance s = inst \<and>
     (\<forall>x \<in> set xs. \<not> (off_service x = svc \<and> off_instance x = inst)))"
proof (induction ss arbitrary: ss')
  case (Cons a ss)
  show ?case
  proof (cases "off_service a = svc \<and> off_instance a = inst")
    case True
    with Cons.prems show ?thesis by (intro exI [of _ "[]"] exI [of _ ss]) auto
  next
    case False
    with Cons.prems obtain rest where "take_offer svc inst ss = Some (s, rest)" "ss' = a # rest" by auto
    with Cons.IH obtain xs ys where "ss = xs @ s # ys" "rest = xs @ ys" "off_service s = svc" "off_instance s = inst"
      "\<forall>x \<in> set xs. \<not> (off_service x = svc \<and> off_instance x = inst)" by blast
    with False \<open>ss' = a # rest\<close> show ?thesis by (intro exI [of _ "a # xs"] exI [of _ ys]) auto
  qed
qed simp

lemma disc_reachable_inv: "disc_reachable cfg d \<Longrightarrow> disc_inv cfg d"
proof (induction rule: disc_reachable.induct)
  case (stop_offer d svc inst)
  then show ?case
    by (auto simp: disc_inv_def stop_offer_def split: option.splits dest!: take_offer_set)
next
  case (tick d now d' msgs)
  then have "list_all2 (offer_step cfg now) (disc_offers d) (disc_offers d')"
    "list_all2 (find_step cfg now) (disc_finds d) (disc_finds d')" "disc_config d' = cfg"
    using tick_result [OF tick.hyps(2)] by (auto simp: disc_inv_def)
  moreover have "offer_step cfg now s s' \<Longrightarrow> offer_inv cfg s \<Longrightarrow> offer_inv cfg s'" for s s'
    by (cases "offer_due now s") (auto intro: advance_phase_inv)
  moreover have "find_step cfg now s s' \<Longrightarrow> find_inv cfg s \<Longrightarrow> find_inv cfg s'" for s s'
    by (cases "find_due now s") (auto intro: advance_find_phase_inv)
  ultimately show ?case
    using tick.IH list_all2_preserves [of "offer_step cfg now" _ _ "offer_inv cfg"]
      list_all2_preserves [of "find_step cfg now" _ _ "find_inv cfg"]
    by (simp add: disc_inv_def)
qed (auto simp: disc_inv_def discovery_init_def start_offer_def start_find_def stop_find_def
    set_reboot_flag_def offer_inv_def find_inv_def)

section \<open>Properties\<close>

text \<open>An offer that has been sent \<open>n\<close> times, last at time \<open>t\<close>, and the wait before the next send.\<close>

definition offer_interval :: "sd_config \<Rightarrow> nat \<Rightarrow> int" where
  "offer_interval cfg n =
     (if n < repetitions cfg then repetition_base_delay cfg * 2 ^ (n - 1) else cyclic_offer_delay cfg)"

definition offer_after :: "sd_config \<Rightarrow> offer_state \<Rightarrow> nat \<Rightarrow> int \<Rightarrow> offer_state" where
  "offer_after cfg s n t =
     (if n = 0 then s
      else s\<lparr>off_phase := (if n < repetitions cfg then Repetition else Main),
             off_count := of_nat (min n (repetitions cfg)), off_next_send := t + offer_interval cfg n\<rparr>)"

lemma advance_all_offer_after:
  assumes "unat (repetition_max cfg) \<le> 33" "off_phase s = Initial_wait"
  shows "advance_all cfg s (ts @ [t]) = Some (offer_after cfg s (Suc (length ts)) t)"
  using offer_schedule_aux [OF assms, of ts t]
  by (cases s) (simp add: offer_after_def offer_interval_def Let_def min_def del: of_nat_Suc)

lemma advance_offer_after:
  assumes "unat (repetition_max cfg) \<le> 33" "off_phase s = Initial_wait"
  shows "advance_phase cfg (offer_after cfg s n t) now = Some (offer_after cfg s (Suc n) now)"
proof (cases n)
  case 0
  then show ?thesis using advance_all_offer_after [OF assms, of "[]" now] by (simp add: offer_after_def)
next
  case (Suc m)
  then show ?thesis
    using advance_all_offer_after [OF assms, of "replicate m 0" t]
      advance_all_offer_after [OF assms, of "replicate m 0 @ [t]" now]
    by (simp only: advance_all_snoc length_append length_replicate) simp
qed

text \<open>C13. The sending schedule of an offer. A discovery that offers one service sends nothing before the
  offer is due, and at the first tick from then on sends one message with exactly that offer. The
  waits after the sends are \<open>base\<close>, \<open>2 base\<close>, \<open>4 base\<close>, ... through the repetition phase and the
  cyclic delay from the send on that completes \<open>max 2 repetition_max\<close> of them.\<close>

theorem offer_schedule:
  assumes "unat (repetition_max cfg) \<le> 33" and "off_phase s = Initial_wait"
    and "d = \<lparr>disc_config = cfg, reboot_flag = rb, disc_offers = [offer_after cfg s n t],
      pending_stop_offers = [], disc_finds = []\<rparr>"
  shows "off_next_send (offer_after cfg s (Suc n) now) = now + offer_interval cfg (Suc n) \<and>
    tick d now = Some (if now < off_next_send (offer_after cfg s n t) then (d, [])
      else (d\<lparr>disc_offers := [offer_after cfg s (Suc n) now]\<rparr>,
        [\<lparr>sd_flags = \<lparr>flag_reboot = rb, flag_unicast = True\<rparr>, sd_entries = [offer_entry cfg s []],
          sd_options = off_options s\<rparr>]))"
proof -
  have "off_phase (offer_after cfg s n t) \<noteq> Down" using assms(2) by (simp add: offer_after_def)
  moreover have "offer_entry cfg (offer_after cfg s n t) [] = offer_entry cfg s []"
    "off_options (offer_after cfg s n t) = off_options s"
    by (simp_all add: offer_after_def offer_entry_def Let_def)
  ultimately show ?thesis
    using advance_offer_after [OF assms(1,2), of n t now] assms(3)
    by (simp add: tick_def tick_message_def offer_due_def Let_def) (simp add: offer_after_def)
qed

definition example_offer :: offer_state where
  "example_offer = \<lparr>off_service = Strong_id 0x1234, off_instance = Strong_id 1, off_major = 1, off_minor = 0,
     off_options = [], off_phase = Initial_wait, off_next_send = 0, off_count = 0\<rparr>"

lemma offer_schedule_witness:
  "off_next_send (offer_after sd_config_default example_offer 2 5) = 5 + offer_interval sd_config_default 2"
proof -
  have "off_next_send (offer_after sd_config_default example_offer (Suc 1) 5) =
      5 + offer_interval sd_config_default (Suc 1)"
    by (rule offer_schedule [THEN conjunct1, OF _ _ refl])
      (simp_all add: sd_config_default_def example_offer_def)
  then show ?thesis by (simp add: numeral_2_eq_2)
qed

text \<open>How often a find may still be sent.\<close>

definition find_left :: "sd_config \<Rightarrow> find_state \<Rightarrow> nat" where
  "find_left cfg s = (case find_phase s of
     Initial_wait \<Rightarrow> repetitions cfg | Repetition \<Rightarrow> repetitions cfg - unat (find_count s) | _ \<Rightarrow> 0)"

fun run_ticks :: "discovery \<Rightarrow> int list \<Rightarrow> (discovery \<times> sd_message list) option" where
  "run_ticks d [] = Some (d, [])"
| "run_ticks d (now # nows) = do {
     (d, msgs) \<leftarrow> tick d now;
     (d, msgs') \<leftarrow> run_ticks d nows;
     Some (d, msgs @ msgs')
   }"

lemma find_left_step:
  assumes "find_inv cfg s" "find_due now s" "advance_find_phase cfg s now = Some s'"
  shows "find_left cfg s' < find_left cfg s"
proof (cases "find_phase s = Repetition")
  case True
  then have c: "unat (find_count s) < repetitions cfg" using assms(1) by (simp add: find_inv_def)
  show ?thesis
    using True c assms(3)
    by (auto simp: advance_find_phase_def find_left_def Let_def bind_eq_Some_conv count_step [OF c]
        split: if_splits)
next
  case False
  with assms show ?thesis
    by (cases "find_phase s") (auto simp: find_inv_def find_due_def advance_find_phase_def find_left_def repetitions_def)
qed

lemma run_ticks_finds:
  assumes "unat (repetition_max cfg) \<le> 33"
  shows "disc_config d = cfg \<Longrightarrow> disc_offers d = [] \<Longrightarrow> pending_stop_offers d = [] \<Longrightarrow> disc_finds d = [s] \<Longrightarrow>
    find_inv cfg s \<Longrightarrow> \<exists>d' msgs. run_ticks d nows = Some (d', msgs) \<and> length msgs \<le> find_left cfg s \<and>
      (\<forall>m \<in> set msgs. sd_entries m = [find_entry cfg s] \<and> sd_options m = [])"
proof (induction nows arbitrary: d s)
  case (Cons now nows)
  have "tick d now \<noteq> None"
    using Cons.prems advance_defined(2) [OF assms, of s now] by (simp add: tick_defined del: not_None_eq)
  then obtain d1 msgs1 where t: "tick d now = Some (d1, msgs1)" by auto
  obtain s1 where s1: "disc_finds d1 = [s1]" "find_step cfg now s s1"
    using tick_result(6) [OF t] Cons.prems by (auto simp: list_all2_Cons1)
  have d1: "disc_config d1 = cfg" "disc_offers d1 = []" "pending_stop_offers d1 = []"
    using tick_result(2,3,5) [OF t] Cons.prems by auto
  have inv: "find_inv cfg s1"
    using s1(2) Cons.prems(5) by (cases "find_due now s") (auto intro: advance_find_phase_inv)
  have entry: "find_entry cfg s1 = find_entry cfg s"
    using s1(2) by (cases "find_due now s")
      (auto simp: find_entry_def advance_find_phase_def Let_def bind_eq_Some_conv split: sd_phase.splits if_splits)
  obtain d2 msgs2 where r: "run_ticks d1 nows = Some (d2, msgs2)" "length msgs2 \<le> find_left cfg s1"
    "\<forall>m \<in> set msgs2. sd_entries m = [find_entry cfg s] \<and> sd_options m = []"
    using Cons.IH [OF d1 s1(1) inv] entry by auto
  have m1: "msgs1 = tick_message d (if find_due now s then [find_entry cfg s] else []) []"
    using tick_result(1) [OF t] Cons.prems by (simp add: tick_message_def due_options_def)
  have "length msgs1 + find_left cfg s1 \<le> find_left cfg s"
    using s1(2) find_left_step [OF Cons.prems(5), of now s1] m1
    by (cases "find_due now s") (auto simp: tick_message_def)
  moreover have "\<forall>m \<in> set msgs1. sd_entries m = [find_entry cfg s] \<and> sd_options m = []"
    using m1 by (auto simp: tick_message_def)
  ultimately show ?case using t r by auto
qed simp

text \<open>A find is sent a bounded number of times: however often and at whatever times the discovery is
  ticked after \<open>start_find\<close>, it sends at most \<open>max 2 repetition_max\<close> messages, each with exactly
  that find, and then falls silent.\<close>

theorem find_bounded:
  assumes "unat (repetition_max cfg) \<le> 33"
  shows "\<exists>d' msgs. run_ticks (start_find (discovery_init cfg) svc inst major minor t0) nows = Some (d', msgs) \<and>
    length msgs \<le> max 2 (unat (repetition_max cfg)) \<and>
    (\<forall>m \<in> set msgs. sd_entries m = [make_find_service svc inst major minor (find_ttl cfg)] \<and> sd_options m = [])"
  using run_ticks_finds [OF assms, of "start_find (discovery_init cfg) svc inst major minor t0"
      "\<lparr>find_service_id = svc, find_instance = inst, find_major = major, find_minor = minor,
        find_phase = Initial_wait, find_next_send = t0 + initial_delay_min cfg, find_count = 0\<rparr>"]
  by (simp add: start_find_def discovery_init_def find_inv_def find_left_def find_entry_def repetitions_def)

lemma find_bounded_witness:
  "\<exists>d' msgs. run_ticks (start_find (discovery_init sd_config_default) (Strong_id 1) (Strong_id 2) 1 0 0)
     [0, ms 10, ms 30, ms 90] = Some (d', msgs) \<and> length msgs \<le> 3"
  using find_bounded [of sd_config_default "Strong_id 1" "Strong_id 2" 1 0 0 "[0, ms 10, ms 30, ms 90]"]
  by (auto simp: sd_config_default_def)


section \<open>Undefined shifts\<close>

lemma repetition_reachable:
  assumes "33 < unat (repetition_max cfg)" "n < 32"
  shows "\<exists>d s. disc_reachable cfg d \<and> disc_offers d = [s] \<and> disc_finds d = [] \<and> off_phase s = Repetition \<and>
    off_count s = of_nat (Suc n)"
  using assms(2)
proof (induction n)
  case 0
  let ?d = "start_offer (discovery_init cfg) (Strong_id 0) (Strong_id 0) 0 0 [] 0"
  have "disc_reachable cfg ?d" by (intro disc_reachable.intros)
  moreover obtain d' msgs where t: "tick ?d (initial_delay_min cfg) = Some (d', msgs)" and
    "length (disc_offers d') = 1" "disc_finds d' = []" "off_phase (hd (disc_offers d')) = Repetition"
    "off_count (hd (disc_offers d')) = 1"
    by (simp add: tick_def start_offer_def discovery_init_def offer_due_def advance_phase_def Let_def)
  ultimately show ?case
    using disc_reachable.tick [OF _ t] by (intro exI [of _ d'] exI [of _ "hd (disc_offers d')"])
      (auto simp: length_Suc_conv)
next
  case (Suc n)
  then obtain d s where d: "disc_reachable cfg d" "disc_offers d = [s]" "disc_finds d = []" "off_phase s = Repetition"
    "off_count s = of_nat (Suc n)" by auto
  have c: "off_count s + 1 = of_nat (Suc (Suc n))" using d(5) by simp
  have "\<not> repetition_max cfg \<le> of_nat (Suc (Suc n))"
    using assms(1) Suc.prems by (subst of_nat_less_max) auto
  moreover have "disc_config d = cfg" using disc_reachable_inv [OF d(1)] by (simp add: disc_inv_def)
  moreover have "backoff cfg (of_nat (Suc (Suc n))) = Some (repetition_base_delay cfg * 2 ^ (Suc (Suc n) - 1))"
    using Suc.prems by (intro backoff_small) auto
  ultimately obtain d' msgs where t: "tick d (off_next_send s) = Some (d', msgs)" and
    "length (disc_offers d') = 1" "disc_finds d' = []" "off_phase (hd (disc_offers d')) = Repetition"
    "off_count (hd (disc_offers d')) = of_nat (Suc (Suc n))"
    using d(2-4) by (simp add: tick_def offer_due_def advance_phase_def Let_def c del: of_nat_Suc)
  then show ?case
    using disc_reachable.tick [OF d(1) t] by (auto simp: length_Suc_conv)
qed

text \<open>C14. \<open>tick\<close> has undefined behaviour in some reachable state exactly when \<open>repetition_max\<close> is
  configured above 33: the exponential back-off then shifts a 32-bit one by 32. Up to 33, every
  tick of every reachable discovery, at any time, is defined.\<close>

theorem tick_shift_defined:
  "(\<exists>d now. disc_reachable cfg d \<and> tick d now = None) = (33 < unat (repetition_max cfg))"
proof
  assume "\<exists>d now. disc_reachable cfg d \<and> tick d now = None"
  then show "33 < unat (repetition_max cfg)"
    using disc_reachable_inv advance_defined unfolding disc_inv_def by (metis leI tick_defined)
next
  assume big: "33 < unat (repetition_max cfg)"
  then obtain d s where d: "disc_reachable cfg d" "disc_offers d = [s]" "off_phase s = Repetition"
    "off_count s = of_nat (Suc 31)"
    using repetition_reachable [of cfg 31] by auto
  have "\<not> repetition_max cfg \<le> of_nat 33"
    using big by (subst of_nat_less_max) auto
  then have "\<not> repetition_max cfg \<le> 33" by simp
  moreover have "disc_config d = cfg" using disc_reachable_inv [OF d(1)] by (simp add: disc_inv_def)
  ultimately have "tick d (off_next_send s) = None"
    using d(2-4) by (simp add: tick_def offer_due_def advance_phase_def backoff_def)
  with d(1) show "\<exists>d now. disc_reachable cfg d \<and> tick d now = None" by blast
qed

section \<open>Stopping an offer\<close>

definition offers_of :: "service_id \<Rightarrow> instance_id \<Rightarrow> offer_state list \<Rightarrow> offer_state list" where
  "offers_of svc inst ss = filter (\<lambda>s. off_service s = svc \<and> off_instance s = inst) ss"

definition offer_entries_of :: "service_id \<Rightarrow> instance_id \<Rightarrow> sd_message list \<Rightarrow> sd_entry list" where
  "offer_entries_of svc inst msgs =
     filter (\<lambda>e. ent_type e = offer_service \<and> ent_service e = svc \<and> ent_instance e = inst)
       (concat (map sd_entries msgs))"

lemma offers_of_step:
  "list_all2 (offer_step cfg now) ss ss' \<Longrightarrow> offers_of svc inst ss = [] \<Longrightarrow> offers_of svc inst ss' = []"
proof (induction rule: list_all2_induct)
  case (Cons s ss s' ss')
  have "off_service s' = off_service s" "off_instance s' = off_instance s"
    using Cons(1) by (cases "offer_due now s";
        auto simp: advance_phase_def Let_def bind_eq_Some_conv split: sd_phase.splits if_splits)+
  with Cons show ?case by (auto simp: offers_of_def split: if_splits)
qed simp

lemma offer_entry_fields:
  "ent_type (offer_entry cfg s opts) = offer_service" "ent_service (offer_entry cfg s opts) = off_service s"
  "ent_instance (offer_entry cfg s opts) = off_instance s"
  by (simp_all add: offer_entry_def make_offer_service_def Let_def)

lemma due_entries_of:
  "offers_of svc inst ss = [] \<Longrightarrow>
   filter (\<lambda>e. ent_type e = offer_service \<and> ent_service e = svc \<and> ent_instance e = inst) (due_entries cfg now ss opts) = []"
  by (induction ss arbitrary: opts) (auto simp: offers_of_def offer_entry_fields split: if_splits)

lemma find_entry_type: "ent_type (find_entry cfg f) \<noteq> offer_service"
  by (simp add: find_entry_def make_find_service_def find_service_def offer_service_def)

lemma find_entries_of: "offer_entries_of svc inst (tick_message d (map (find_entry cfg) fs) []) = []"
  by (simp add: offer_entries_of_def tick_message_def find_entry_type)

lemma offer_entries_of_tick:
  assumes "tick d now = Some (d', msgs)" "offers_of svc inst (disc_offers d) = []"
  shows "offer_entries_of svc inst msgs =
    filter (\<lambda>e. ent_service e = svc \<and> ent_instance e = inst) (map stop_entry (pending_stop_offers d))"
proof -
  have "ent_type (stop_entry s) = offer_service" for s
    by (simp add: stop_entry_def make_stop_offer_def make_offer_service_def)
  then have "filter (\<lambda>e. ent_type e = offer_service \<and> ent_service e = svc \<and> ent_instance e = inst)
      (map stop_entry ss) = filter (\<lambda>e. ent_service e = svc \<and> ent_instance e = inst) (map stop_entry ss)" for ss
    by (induction ss) auto
  then show ?thesis
    using tick_result(1) [OF assms(1)] due_entries_of [OF assms(2)] find_entries_of [of svc inst d]
    by (auto simp: offer_entries_of_def tick_message_def)
qed

lemma run_ticks_no_offer:
  "run_ticks d nows = Some (d', msgs) \<Longrightarrow> offers_of svc inst (disc_offers d) = [] \<Longrightarrow> pending_stop_offers d = [] \<Longrightarrow>
   offer_entries_of svc inst msgs = []"
proof (induction nows arbitrary: d msgs)
  case Nil
  then show ?case by (simp add: offer_entries_of_def)
next
  case (Cons now nows)
  then obtain d1 msgs1 msgs2 where t: "tick d now = Some (d1, msgs1)" "run_ticks d1 nows = Some (d', msgs2)"
    "msgs = msgs1 @ msgs2" by (auto simp: bind_eq_Some_conv split: prod.splits)
  have "offer_entries_of svc inst msgs2 = []"
    using Cons.IH [OF t(2)] Cons.prems offers_of_step tick_result(2,5) [OF t(1)] by blast
  then show ?case
    using offer_entries_of_tick [OF t(1)] Cons.prems t(3) by (simp add: offer_entries_of_def)
qed

text \<open>C15. Stopping an offer: the service that was offered once is announced as stopped exactly once, with
  TTL 0, in the messages of the next tick, whenever that is, and no later tick offers it again.\<close>

theorem stop_offer_announced:
  assumes "offers_of svc inst (disc_offers d) = [s]" and "pending_stop_offers d = []"
    and "run_ticks (stop_offer d svc inst) (now # nows) = Some (d'', msgs)"
  shows "\<exists>d' msgs1 msgs2. tick (stop_offer d svc inst) now = Some (d', msgs1) \<and> msgs = msgs1 @ msgs2 \<and>
    offer_entries_of svc inst msgs1 = [stop_entry s] \<and> ent_ttl (stop_entry s) = 0 \<and>
    offer_entries_of svc inst msgs2 = []"
proof -
  have "take_offer svc inst ss = None \<longleftrightarrow> offers_of svc inst ss = []" for ss
    by (induction ss) (auto simp: offers_of_def)
  then have "take_offer svc inst (disc_offers d) \<noteq> None" using assms(1) by simp
  then obtain s0 rest where take: "take_offer svc inst (disc_offers d) = Some (s0, rest)" by auto
  have s0: "s0 = s" "offers_of svc inst rest = []" "off_service s = svc" "off_instance s = inst"
    using take_offer_set [OF take] assms(1) by (auto simp: offers_of_def)
  let ?d = "stop_offer d svc inst"
  have d: "disc_offers ?d = rest" "pending_stop_offers ?d = [s]"
    using take s0(1) assms(2) by (simp_all add: stop_offer_def)
  obtain d' msgs1 msgs2 where t: "tick ?d now = Some (d', msgs1)" "run_ticks d' nows = Some (d'', msgs2)"
    "msgs = msgs1 @ msgs2" using assms(3) by (auto simp: bind_eq_Some_conv split: prod.splits)
  have "offer_entries_of svc inst msgs1 = [stop_entry s]"
    using offer_entries_of_tick [OF t(1)] s0 d
    by (simp add: stop_entry_def make_stop_offer_def make_offer_service_def)
  moreover have "offer_entries_of svc inst msgs2 = []"
    using run_ticks_no_offer [OF t(2)] offers_of_step [OF tick_result(5) [OF t(1)]] d s0 tick_result(2) [OF t(1)]
    by simp
  ultimately show ?thesis
    using t by (auto simp: stop_entry_def make_stop_offer_def make_offer_service_def)
qed

lemma stop_offer_announced_witness:
  "\<exists>d' msgs1. tick (stop_offer (start_offer (discovery_init sd_config_default) (Strong_id 1) (Strong_id 2) 1 0 [] 0)
     (Strong_id 1) (Strong_id 2)) 7 = Some (d', msgs1) \<and>
     offer_entries_of (Strong_id 1) (Strong_id 2) msgs1 = [make_stop_offer (Strong_id 1) (Strong_id 2) 1 0]"
proof -
  let ?d = "start_offer (discovery_init sd_config_default) (Strong_id 1) (Strong_id 2) 1 0 [] 0"
  have s: "offers_of (Strong_id 1) (Strong_id 2) (disc_offers ?d) = [hd (disc_offers ?d)]"
    "pending_stop_offers ?d = []"
    by (simp_all add: start_offer_def discovery_init_def offers_of_def)
  obtain d'' msgs where "run_ticks (stop_offer ?d (Strong_id 1) (Strong_id 2)) [7] = Some (d'', msgs)"
    by (simp add: stop_offer_def start_offer_def discovery_init_def tick_def Let_def)
  from stop_offer_announced [OF s this] show ?thesis
    by (auto simp: start_offer_def discovery_init_def stop_entry_def)
qed

section \<open>Options\<close>

definition entry_options :: "sd_message \<Rightarrow> sd_entry \<Rightarrow> sd_option list" where
  "entry_options m e = take (unat (ent_num_options_1st e)) (drop (unat (ent_index_1st e)) (sd_options m))"

lemma due_entries_options:
  assumes "\<forall>s \<in> set ss. length (off_options s) \<le> 15"
    and "length opts + length (due_options now ss) \<le> 256" and "sd_options m = opts @ due_options now ss @ os"
  shows "list_all2 (\<lambda>s e. ent_service e = off_service s \<and> ent_instance e = off_instance s \<and>
      entry_options m (entry_norm e) = off_options s) (filter (offer_due now) ss) (due_entries cfg now ss opts)"
  using assms
proof (induction ss arbitrary: opts)
  case (Cons s ss)
  show ?case
  proof (cases "offer_due now s")
    case True
    then have due: "due_options now (s # ss) = off_options s @ due_options now ss" by (simp add: due_options_def)
    have "list_all2 (\<lambda>s e. ent_service e = off_service s \<and> ent_instance e = off_instance s \<and>
      entry_options m (entry_norm e) = off_options s) (filter (offer_due now) ss)
      (due_entries cfg now ss (opts @ off_options s))"
      using Cons.prems by (intro Cons.IH) (simp_all add: due)
    moreover have "entry_options m (entry_norm (offer_entry cfg s opts)) = off_options s"
    proof (cases "off_options s = []")
      case False
      then have l: "length opts < 256" using Cons.prems(2) due by (cases "off_options s") auto
      have n: "of_nat (length (off_options s)) AND (0x0F :: u8) = of_nat (length (off_options s))"
      proof -
        have "length (off_options s) \<le> 15" using Cons.prems(1) by simp
        then have "take_bit 4 (of_nat (length (off_options s)) :: u8) = of_nat (length (off_options s))"
          by (subst word_uint_eq_iff) (simp add: unsigned_take_bit_eq take_bit_nat_eq_self uint_nat unat_of_nat_small)
        then show ?thesis by (simp add: take_bit_eq_mask mask_eq_exp_minus_1)
      qed
      show ?thesis
        using False l n Cons.prems
        by (simp add: entry_options_def entry_norm_def offer_entry_def make_offer_service_def Let_def
            sd_entry_default_def is_service_entry_def offer_service_def unat_of_nat_small due)
    qed (simp add: entry_options_def entry_norm_def offer_entry_def make_offer_service_def sd_entry_default_def)
    ultimately show ?thesis using True by (simp add: offer_entry_fields)
  next
    case False
    then show ?thesis using Cons by (simp add: due_options_def)
  qed
qed simp

text \<open>C16. Offers keep their options on the wire. When no offer has more than 15 options and the due offers
  have at most 256 together, the options a receiver finds through each entry of the parsed
  message, after the stopped services' entries, are exactly those of the offer it announces, in
  order.\<close>

theorem offer_options_on_wire:
  assumes "tick d now = Some (d', msgs)" and "\<forall>s \<in> set (disc_offers d). length (off_options s) \<le> 15"
    and "length (due_options now (disc_offers d)) \<le> 256" and "filter (offer_due now) (disc_offers d) \<noteq> []"
    and "sd_ok (hd msgs)" and "sd_size (hd msgs) < 2 ^ 32"
  shows "\<exists>m'. deserialize_sd (sd_payload (hd msgs)) = Some (Inr m') \<and>
    list_all2 (\<lambda>s e. ent_service e = off_service s \<and> ent_instance e = off_instance s \<and>
        entry_options m' e = off_options s)
      (filter (offer_due now) (disc_offers d)) (drop (length (pending_stop_offers d)) (sd_entries m'))"
proof -
  let ?ss = "disc_offers d" and ?D = "due_entries (disc_config d) now (disc_offers d) []"
  have "due_entries cfg now ss opts \<noteq> []" if "filter (offer_due now) ss \<noteq> []" for cfg ss opts
    using that by (induction ss arbitrary: opts) (auto split: if_splits)
  then have "?D \<noteq> []" using assms(4) by blast
  then have hd: "sd_entries (hd msgs) = map stop_entry (pending_stop_offers d) @ ?D"
    "sd_options (hd msgs) = due_options now ?ss"
    using tick_result(1) [OF assms(1)] by (simp_all add: tick_message_def)
  let ?m' = "sd_norm (hd msgs)"
  have "list_all2 (\<lambda>s e. ent_service e = off_service s \<and> ent_instance e = off_instance s \<and>
      entry_options ?m' (entry_norm e) = off_options s) (filter (offer_due now) ?ss) ?D"
    using assms(2,3) hd(2) by (intro due_entries_options [where os = "[]"]) (simp_all add: sd_norm_def)
  then have "list_all2 (\<lambda>s e. ent_service e = off_service s \<and> ent_instance e = off_instance s \<and>
      entry_options ?m' e = off_options s) (filter (offer_due now) ?ss) (map entry_norm ?D)"
    by (auto simp: list_all2_conv_all_nth entry_norm_def)
  moreover have "drop (length (pending_stop_offers d)) (sd_entries ?m') = map entry_norm ?D"
    using hd(1) by (simp add: sd_norm_def)
  moreover have "deserialize_sd (sd_payload (hd msgs)) = Some (Inr ?m')"
    using deserialize_sd_payload [OF assms(5,6), of "[]"] by simp
  ultimately show ?thesis by auto
qed

lemma offer_options_on_wire_witness:
  "\<exists>d' msgs m'. tick (start_offer (discovery_init sd_config_default) (Strong_id 1) (Strong_id 2) 1 0
      (sd_options example_sd) 0) 7 = Some (d', msgs) \<and>
     deserialize_sd (sd_payload (hd msgs)) = Some (Inr m') \<and>
     map (entry_options m') (sd_entries m') = [sd_options example_sd]"
proof -
  let ?d = "start_offer (discovery_init sd_config_default) (Strong_id 1) (Strong_id 2) 1 0 (sd_options example_sd) 0"
  obtain d' msgs where t: "tick ?d 7 = Some (d', msgs)"
    by (simp add: start_offer_def discovery_init_def tick_def offer_due_def advance_phase_def
        sd_config_default_def ms_def Let_def)
  have due: "filter (offer_due 7) (disc_offers ?d) = disc_offers ?d" and one: "length (disc_offers ?d) = 1"
    "off_options (hd (disc_offers ?d)) = sd_options example_sd" and stops: "pending_stop_offers ?d = []"
    by (simp_all add: start_offer_def discovery_init_def offer_due_def sd_config_default_def ms_def)
  have opts: "due_options 7 (disc_offers ?d) = sd_options example_sd" "length (sd_options example_sd) = 1"
    using due one by (auto simp: due_options_def length_Suc_conv example_sd_def)
  obtain s where s: "disc_offers ?d = [s]" "off_options s = sd_options example_sd"
    using one by (auto simp: length_Suc_conv)
  have hd: "sd_entries (hd msgs) = [offer_entry (disc_config ?d) s []]" "sd_options (hd msgs) = sd_options example_sd"
    using tick_result(1) [OF t] s stops due opts by (simp_all add: tick_message_def split: if_splits)
  have ok: "sd_ok (hd msgs)" "sd_size (hd msgs) < 2 ^ 32"
    using hd by (simp_all add: sd_ok_def sd_size_def options_len_def example_sd_def option_ok_def option_typed_def
        ipv4_ok_def make_ipv4_endpoint_def option_wire_size_def ipv4_option_size_def)
  obtain m' where "deserialize_sd (sd_payload (hd msgs)) = Some (Inr m')"
    "list_all2 (\<lambda>s e. ent_service e = off_service s \<and> ent_instance e = off_instance s \<and>
        entry_options m' e = off_options s) (filter (offer_due 7) (disc_offers ?d))
      (drop (length (pending_stop_offers ?d)) (sd_entries m'))"
    using offer_options_on_wire [OF t _ _ _ ok] s opts due by auto
  then show ?thesis using t s due stops by (auto simp: list_all2_Cons1)
qed

end
