(* ===== verification/Route_Registry.thy ===== *)
theory Route_Registry
  imports Containers Wire_Types Sd_Option
begin

text \<open>
  \<open>route/registry.hpp\<close>: the in-process service registry. The unordered map is an association list with
  distinct keys; the shared mutex makes each operation atomic, so an operation is a function on the
  map. \<open>std::hash\<close> of a 16-bit integer is the standard library's and a parameter.
\<close>

record endpoint_info =
  ep_protocol :: l4_protocol
  ep_address :: "byte list"
  ep_port :: u16

record service_info =
  info_service :: service_id
  info_instance :: instance_id
  info_major :: u8
  info_minor :: u32
  info_ttl :: u32
  info_tcp :: "endpoint_info option"
  info_udp :: "endpoint_info option"
  info_is_local :: bool

text \<open>\<open>service_info{}\<close>: the default member initialisers.\<close>

definition service_info_default :: service_info where
  "service_info_default =
     \<lparr>info_service = Strong_id 0, info_instance = Strong_id 0, info_major = 0, info_minor = 0, info_ttl = 0,
      info_tcp = None, info_udp = None, info_is_local = False\<rparr>"

record service_key =
  key_service :: service_id
  key_instance :: instance_id

definition service_key_hash :: "(u16 \<Rightarrow> u64) \<Rightarrow> service_key \<Rightarrow> u64" where
  "service_key_hash hash16 k =
     (let h1 = hash16 (id_value (key_service k));
          h2 = hash16 (id_value (key_instance k))
      in h1 XOR push_bit 16 h2)"

record registry =
  services :: "(service_key \<times> service_info) list"

definition registry_empty :: registry where
  "registry_empty = \<lparr>services = []\<rparr>"

definition registry_offer :: "registry \<Rightarrow> service_info \<Rightarrow> registry \<times> bool" where
  "registry_offer r info =
     (let key = \<lparr>key_service = info_service info, key_instance = info_instance info\<rparr>
      in case map_of (services r) key of
           None \<Rightarrow> (r\<lparr>services := AList.update key info (services r)\<rparr>, True)
         | Some _ \<Rightarrow> (r\<lparr>services := AList.update key info (services r)\<rparr>, False))"

definition registry_stop_offer :: "registry \<Rightarrow> service_id \<Rightarrow> instance_id \<Rightarrow> registry \<times> bool" where
  "registry_stop_offer r service inst =
     (let key = \<lparr>key_service = service, key_instance = inst\<rparr>
      in (r\<lparr>services := AList.delete key (services r)\<rparr>, map_of (services r) key \<noteq> None))"

definition registry_find :: "registry \<Rightarrow> service_id \<Rightarrow> instance_id \<Rightarrow> service_info option" where
  "registry_find r service inst = map_of (services r) \<lparr>key_service = service, key_instance = inst\<rparr>"

definition registry_find_all :: "registry \<Rightarrow> service_id \<Rightarrow> service_info list" where
  "registry_find_all r service = map snd (filter (\<lambda>(key, info). key_service key = service) (services r))"

text \<open>\<open>for_each\<close> threads the state its callback updates.\<close>

definition registry_for_each :: "(service_info \<Rightarrow> 's \<Rightarrow> 's) \<Rightarrow> registry \<Rightarrow> 's \<Rightarrow> 's" where
  "registry_for_each fn r = fold (\<lambda>(key, info). fn info) (services r)"

definition registry_size :: "registry \<Rightarrow> nat" where
  "registry_size r = length (services r)"

definition registry_clear :: "registry \<Rightarrow> registry" where
  "registry_clear r = r\<lparr>services := []\<rparr>"

end
