(* ===== verification/Route_Dispatcher.thy ===== *)
theory Route_Dispatcher
  imports Containers Wire_Header
begin

text \<open>
  \<open>route/dispatcher.hpp\<close>: the type-erased handlers and the message dispatcher. A callable is a value of
  the parameter type \<open>'f\<close>; calling handlers is recorded as the list of callables with the arguments
  they were called with, in order. Calling a handler without a target is undefined (\<^term>\<open>None\<close>).
\<close>

section \<open>inplace_handler\<close>

text \<open>\<open>storage_\<close> is a buffer of bytes, in which an object of the callable's type may live: it does
  from its construction there, and after a \<open>memcpy\<close> from another buffer only if its type allows to be
  copied as bytes (\<open>copyable\<close>, in C++ trivially copyable). Otherwise the target has the bytes of an
  object and no object, and calling or destroying it is undefined (\<^term>\<open>None\<close>). \<open>invoke_\<close> and
  \<open>destroy_\<close> are null or the functions of the callable's type. The bytes moved away stay in the source.\<close>

record 'f inplace_handler =
  ih_storage :: "'f option"
  ih_invoke :: bool
  ih_destroy :: bool

definition handler_empty :: "'f inplace_handler" where
  "handler_empty = \<lparr>ih_storage = None, ih_invoke = False, ih_destroy = False\<rparr>"

text \<open>The converting constructor takes part in overload resolution only for callables that fit.\<close>

definition handler_make :: "nat \<Rightarrow> ('f \<Rightarrow> nat) \<Rightarrow> 'f \<Rightarrow> 'f inplace_handler option" where
  "handler_make capacity size_of f =
     (if size_of f \<le> capacity then Some \<lparr>ih_storage = Some f, ih_invoke = True, ih_destroy = True\<rparr> else None)"

text \<open>The destructor: the callable it destroys, if any.\<close>

definition handler_destruct :: "'f inplace_handler \<Rightarrow> 'f list option" where
  "handler_destruct h = (if ih_destroy h then do { f \<leftarrow> ih_storage h; Some [f] } else Some [])"

definition storage_memcpy :: "('f \<Rightarrow> bool) \<Rightarrow> 'f option \<Rightarrow> 'f option" where
  "storage_memcpy copyable src = (case src of Some f \<Rightarrow> if copyable f then Some f else None | None \<Rightarrow> None)"

text \<open>Move construction: the new handler and the source afterwards.\<close>

definition handler_move ::
    "('f \<Rightarrow> bool) \<Rightarrow> 'f inplace_handler \<Rightarrow> 'f inplace_handler \<times> 'f inplace_handler" where
  "handler_move copyable src =
     (\<lparr>ih_storage = storage_memcpy copyable (ih_storage src), ih_invoke = ih_invoke src, ih_destroy = ih_destroy src\<rparr>,
      src\<lparr>ih_invoke := False, ih_destroy := False\<rparr>)"

text \<open>Move assignment of the handler at \<open>other\<close> to the one at \<open>this\<close>, which may be the same: the
  handlers afterwards, and what was destroyed.\<close>

definition handler_move_assign ::
    "('f \<Rightarrow> bool) \<Rightarrow> (nat \<rightharpoonup> 'f inplace_handler) \<Rightarrow> nat \<Rightarrow> nat \<Rightarrow>
     ((nat \<rightharpoonup> 'f inplace_handler) \<times> 'f list) option" where
  "handler_move_assign copyable mem this other =
     (if this \<noteq> other then do {
        t \<leftarrow> mem this;
        destroyed \<leftarrow> handler_destruct t;
        src \<leftarrow> mem other;
        let mem = mem(this \<mapsto> t\<lparr>ih_storage := storage_memcpy copyable (ih_storage src),
                         ih_invoke := ih_invoke src, ih_destroy := ih_destroy src\<rparr>);
        src \<leftarrow> mem other;
        Some (mem(other \<mapsto> src\<lparr>ih_invoke := False, ih_destroy := False\<rparr>), destroyed)
      }
      else Some (mem, []))"

definition handler_engaged :: "'f inplace_handler \<Rightarrow> bool" where
  "handler_engaged h = ih_invoke h"

definition handler_call :: "'f inplace_handler \<Rightarrow> 'a \<Rightarrow> ('f \<times> 'a) option" where
  "handler_call h args = (if ih_invoke h then do { f \<leftarrow> ih_storage h; Some (f, args) } else None)"

section \<open>Keys\<close>

definition pack_key :: "service_id \<Rightarrow> method_id \<Rightarrow> u32" where
  "pack_key s m = push_bit 16 (ucast (id_value s)) OR ucast (id_value m)"

definition pack_eg_key :: "service_id \<Rightarrow> eventgroup_id \<Rightarrow> u32" where
  "pack_eg_key s e = push_bit 16 (ucast (id_value s)) OR ucast (id_value e)"

section \<open>dispatcher\<close>

record message_view =
  view_header :: "byte list"
  view_payload :: "byte list"

record ('f, 'a) dispatcher =
  disp_handlers :: "(u32, 'f inplace_handler) omap"
  disp_subscriptions :: "(u32, 'f inplace_handler list) omap"
  disp_availability :: "(service_id, 'a list) omap"

definition dispatcher_empty :: "('f, 'a) dispatcher" where
  "dispatcher_empty = \<lparr>disp_handlers = [], disp_subscriptions = [], disp_availability = []\<rparr>"

definition register_handler ::
    "('f, 'a) dispatcher \<Rightarrow> service_id \<Rightarrow> method_id \<Rightarrow> 'f inplace_handler \<Rightarrow> ('f, 'a) dispatcher" where
  "register_handler d service mth handler =
     d\<lparr>disp_handlers := omap_put (pack_key service mth) handler (disp_handlers d)\<rparr>"

definition unregister_handler :: "('f, 'a) dispatcher \<Rightarrow> service_id \<Rightarrow> method_id \<Rightarrow> ('f, 'a) dispatcher" where
  "unregister_handler d service mth =
     d\<lparr>disp_handlers := omap_del (pack_key service mth) (disp_handlers d)\<rparr>"

text \<open>\<open>map[key]\<close> of an absent key inserts an empty vector first.\<close>

definition slot :: "('k, 'v list) omap \<Rightarrow> 'k \<Rightarrow> 'v list" where
  "slot m k = (case map_of m k of Some vs \<Rightarrow> vs | None \<Rightarrow> [])"

definition subscribe ::
    "('f, 'a) dispatcher \<Rightarrow> service_id \<Rightarrow> eventgroup_id \<Rightarrow> 'f inplace_handler \<Rightarrow> ('f, 'a) dispatcher" where
  "subscribe d service eg handler =
     d\<lparr>disp_subscriptions := omap_put (pack_eg_key service eg)
         (slot (disp_subscriptions d) (pack_eg_key service eg) @ [handler]) (disp_subscriptions d)\<rparr>"

definition unsubscribe :: "('f, 'a) dispatcher \<Rightarrow> service_id \<Rightarrow> eventgroup_id \<Rightarrow> ('f, 'a) dispatcher" where
  "unsubscribe d service eg =
     d\<lparr>disp_subscriptions := omap_del (pack_eg_key service eg) (disp_subscriptions d)\<rparr>"

definition on_availability :: "('f, 'a) dispatcher \<Rightarrow> service_id \<Rightarrow> 'a \<Rightarrow> ('f, 'a) dispatcher" where
  "on_availability d service handler =
     d\<lparr>disp_availability := omap_put service (slot (disp_availability d) service @ [handler]) (disp_availability d)\<rparr>"

text \<open>\<open>dispatch\<close>: whether a handler was found, and the calls made.\<close>

definition dispatch ::
    "('f, 'a) dispatcher \<Rightarrow> byte list \<Rightarrow> byte list \<Rightarrow> (bool \<times> ('f \<times> message_view) list) option" where
  "dispatch d hdr payload = do {
     let view = \<lparr>view_header = hdr, view_payload = payload\<rparr>;
     service \<leftarrow> hdr_service hdr;
     mth \<leftarrow> hdr_method hdr;
     let key = pack_key service mth;
     case map_of (disp_handlers d) key of
       Some h \<Rightarrow> do { c \<leftarrow> handler_call h view; Some (True, [c]) }
     | None \<Rightarrow>
         let wk = pack_key service any_method
         in case map_of (disp_handlers d) wk of
              Some h \<Rightarrow> do { c \<leftarrow> handler_call h view; Some (True, [c]) }
            | None \<Rightarrow> Some (False, [])
   }"

text \<open>Calling a vector of handlers in order.\<close>

fun call_all :: "'f inplace_handler list \<Rightarrow> 'b \<Rightarrow> ('f \<times> 'b) list option" where
  "call_all [] args = Some []"
| "call_all (h # hs) args = do {
     c \<leftarrow> handler_call h args;
     cs \<leftarrow> call_all hs args;
     Some (c # cs)
   }"

definition notify_subscribers ::
    "('f, 'a) dispatcher \<Rightarrow> service_id \<Rightarrow> eventgroup_id \<Rightarrow> byte list \<Rightarrow> byte list \<Rightarrow>
     ('f \<times> message_view) list option" where
  "notify_subscribers d service eg hdr payload =
     (let view = \<lparr>view_header = hdr, view_payload = payload\<rparr>
      in case map_of (disp_subscriptions d) (pack_eg_key service eg) of
           Some hs \<Rightarrow> call_all hs view
         | None \<Rightarrow> Some [])"

text \<open>Availability handlers are \<open>std::function\<close>s: each listener with the arguments of its call.\<close>

definition notify_availability ::
    "('f, 'a) dispatcher \<Rightarrow> service_id \<Rightarrow> instance_id \<Rightarrow> bool \<Rightarrow> ('a \<times> service_id \<times> instance_id \<times> bool) list" where
  "notify_availability d service inst available =
     (case map_of (disp_availability d) service of
        Some hs \<Rightarrow> map (\<lambda>h. (h, service, inst, available)) hs
      | None \<Rightarrow> [])"

definition dispatcher_clear :: "('f, 'a) dispatcher \<Rightarrow> ('f, 'a) dispatcher" where
  "dispatcher_clear d = d\<lparr>disp_handlers := [], disp_subscriptions := [], disp_availability := []\<rparr>"

end
