(* ===== verification/Route_Manager.thy ===== *)
theory Route_Manager
  imports Route_Registry Route_Dispatcher
begin

text \<open>
  \<open>route/manager.hpp\<close>: the routing manager combines the registry with the dispatcher. The operations
  that change availability return the new manager and the availability calls made.
\<close>

datatype route_target = Target_local | Target_remote | Target_unknown

record ('f, 'a) routing_manager =
  rm_registry :: registry
  rm_dispatcher :: "('f, 'a) dispatcher"

definition manager_empty :: "('f, 'a) routing_manager" where
  "manager_empty = \<lparr>rm_registry = registry_empty, rm_dispatcher = dispatcher_empty\<rparr>"

definition resolve :: "('f, 'a) routing_manager \<Rightarrow> service_id \<Rightarrow> instance_id \<Rightarrow> route_target" where
  "resolve m service inst =
     (case registry_find (rm_registry m) service inst of
        None \<Rightarrow> Target_unknown
      | Some info \<Rightarrow> if info_is_local info then Target_local else Target_remote)"

definition route_message ::
    "('f, 'a) routing_manager \<Rightarrow> byte list \<Rightarrow> (bool \<times> ('f \<times> message_view) list) option" where
  "route_message m raw =
     (if length raw < header_size then Some (False, [])
      else do {
        payload \<leftarrow> subspan_from raw header_size;
        plen \<leftarrow> hdr_payload_length raw;
        if length payload < unat plen then Some (False, [])
        else do {
          payload \<leftarrow> subspan payload 0 (unat plen);
          service \<leftarrow> hdr_service raw;
          mth \<leftarrow> hdr_method raw;
          if service = sd_service \<and> mth = sd_method then Some (False, [])
          else do {
            mtype \<leftarrow> hdr_msg_type raw;
            if mtype = mt_notification then dispatch (rm_dispatcher m) raw payload
            else dispatch (rm_dispatcher m) raw payload
          }
        }
      })"

text \<open>The common end of the operations: the updated registry and, when it changed the availability, the
  calls of the listeners.\<close>

definition after_registry ::
    "('f, 'a) routing_manager \<Rightarrow> registry \<times> bool \<Rightarrow> service_id \<Rightarrow> instance_id \<Rightarrow> bool \<Rightarrow>
     ('f, 'a) routing_manager \<times> ('a \<times> service_id \<times> instance_id \<times> bool) list" where
  "after_registry m res service inst available =
     (case res of (reg, changed) \<Rightarrow>
        (m\<lparr>rm_registry := reg\<rparr>,
         if changed then notify_availability (rm_dispatcher m) service inst available else []))"

definition manager_offer_service ::
    "('f, 'a) routing_manager \<Rightarrow> service_id \<Rightarrow> instance_id \<Rightarrow> u8 \<Rightarrow> u32 \<Rightarrow>
     ('f, 'a) routing_manager \<times> ('a \<times> service_id \<times> instance_id \<times> bool) list" where
  "manager_offer_service m service inst major minor =
     (let info = service_info_default
        \<lparr>info_service := service, info_instance := inst, info_major := major, info_minor := minor,
         info_ttl := 0xFFFFFF, info_is_local := True\<rparr>
      in after_registry m (registry_offer (rm_registry m) info) service inst True)"

definition manager_stop_offer_service ::
    "('f, 'a) routing_manager \<Rightarrow> service_id \<Rightarrow> instance_id \<Rightarrow>
     ('f, 'a) routing_manager \<times> ('a \<times> service_id \<times> instance_id \<times> bool) list" where
  "manager_stop_offer_service m service inst =
     after_registry m (registry_stop_offer (rm_registry m) service inst) service inst False"

definition add_remote_service ::
    "('f, 'a) routing_manager \<Rightarrow> service_info \<Rightarrow>
     ('f, 'a) routing_manager \<times> ('a \<times> service_id \<times> instance_id \<times> bool) list" where
  "add_remote_service m info =
     after_registry m (registry_offer (rm_registry m) info) (info_service info) (info_instance info) True"

definition remove_remote_service ::
    "('f, 'a) routing_manager \<Rightarrow> service_id \<Rightarrow> instance_id \<Rightarrow>
     ('f, 'a) routing_manager \<times> ('a \<times> service_id \<times> instance_id \<times> bool) list" where
  "remove_remote_service m service inst =
     after_registry m (registry_stop_offer (rm_registry m) service inst) service inst False"

end
