(* ===== verification/Route_Correct.thy ===== *)
theory Route_Correct
  imports Route_Manager
begin

text \<open>
  Correctness of routing: the registry and the dispatcher refine maps from identifiers (the packed
  32-bit keys never collide), an incoming message reaches exactly the handler registered for it, the
  availability of a service is announced exactly when it changes, and the type-erased handlers
  destroy every callable exactly once.
\<close>

section \<open>The registry as a map\<close>

definition registry_inv :: "registry \<Rightarrow> bool" where
  "registry_inv r \<longleftrightarrow> umap_inv (services r) \<and>
     (\<forall>(k, info) \<in> set (services r). key_service k = info_service info \<and> key_instance k = info_instance info)"

text \<open>Histories of a registry: its operations, the abstract map they act on and the flags they return.\<close>

datatype registry_op =
    Reg_offer service_info
  | Reg_stop service_id instance_id
  | Reg_clear

fun registry_step :: "registry \<Rightarrow> registry_op \<Rightarrow> registry \<times> bool" where
  "registry_step r (Reg_offer info) = registry_offer r info"
| "registry_step r (Reg_stop s i) = registry_stop_offer r s i"
| "registry_step r Reg_clear = (registry_clear r, True)"

fun registry_run :: "registry \<Rightarrow> registry_op list \<Rightarrow> registry \<times> bool list" where
  "registry_run r [] = (r, [])"
| "registry_run r (x # xs) =
     (let (r, b) = registry_step r x; (r, bs) = registry_run r xs in (r, b # bs))"

type_synonym service_map = "service_id \<times> instance_id \<rightharpoonup> service_info"

fun spec_step :: "service_map \<Rightarrow> registry_op \<Rightarrow> service_map \<times> bool" where
  "spec_step m (Reg_offer info) =
     (m((info_service info, info_instance info) \<mapsto> info), m (info_service info, info_instance info) = None)"
| "spec_step m (Reg_stop s i) = (m((s, i) := None), m (s, i) \<noteq> None)"
| "spec_step m Reg_clear = (Map.empty, True)"

fun spec_run :: "service_map \<Rightarrow> registry_op list \<Rightarrow> service_map \<times> bool list" where
  "spec_run m [] = (m, [])"
| "spec_run m (x # xs) = (let (m, b) = spec_step m x; (m, bs) = spec_run m xs in (m, b # bs))"

definition registry_map :: "registry \<Rightarrow> service_map" where
  "registry_map r = (\<lambda>(s, i). registry_find r s i)"

lemma key_eq_iff: "\<lparr>key_service = s, key_instance = i\<rparr> = k \<longleftrightarrow> key_service k = s \<and> key_instance k = i"
  by (cases k) auto

lemma registry_step_refines:
  assumes "registry_inv r"
  shows "registry_inv (fst (registry_step r x)) \<and>
    (registry_map (fst (registry_step r x)), snd (registry_step r x)) = spec_step (registry_map r) x"
proof -
  have inv: "umap_inv (services r)" using assms by (simp add: registry_inv_def)
  have upd: "set (AList.update k v xs) \<subseteq> insert (k, v) (set xs)" for k and v :: service_info and xs
    by (induction xs) auto
  show ?thesis
  proof (cases x)
    case (Reg_offer info)
    have "registry_inv (fst (registry_offer r info))"
      using assms umap.inv_put [OF inv] upd
      by (fastforce simp: registry_inv_def registry_offer_def Let_def split: option.splits)
    then show ?thesis
      using umap.get_put [OF inv]
      by (auto simp: Reg_offer registry_offer_def registry_map_def registry_find_def Let_def fun_eq_iff
          split: option.splits)
  next
    case (Reg_stop s i)
    have "registry_inv (fst (registry_stop_offer r s i))"
      using assms umap.inv_del [OF inv]
      by (auto simp: registry_inv_def registry_stop_offer_def Let_def AList.delete_eq)
    then show ?thesis
      using umap.get_del [OF inv]
      by (auto simp: Reg_stop registry_stop_offer_def registry_map_def registry_find_def Let_def fun_eq_iff)
  qed (simp add: registry_clear_def registry_inv_def umap_inv_def registry_map_def registry_find_def fun_eq_iff)
qed

lemma registry_run_refines:
  "registry_inv r \<Longrightarrow> registry_inv (fst (registry_run r xs)) \<and>
    (registry_map (fst (registry_run r xs)), snd (registry_run r xs)) = spec_run (registry_map r) xs"
proof (induction xs arbitrary: r)
  case (Cons x xs)
  obtain r' b where s: "registry_step r x = (r', b)" by fastforce
  then have "registry_inv r'" "spec_step (registry_map r) x = (registry_map r', b)"
    using registry_step_refines [OF Cons.prems, of x] by auto
  with Cons.IH [of r'] s show ?case by (auto simp: split_def prod_eq_iff Let_def)
qed simp

lemma registry_size_card:
  assumes "registry_inv r"
  shows "registry_size r = card (dom (registry_map r))"
proof -
  let ?f = "\<lambda>k :: service_key. (key_service k, key_instance k)"
  have "inj ?f" by (intro injI service_key.equality) auto
  then have inj: "inj_on ?f A" for A by (rule inj_on_subset) simp
  have "registry_map r p = map_of (services r) \<lparr>key_service = fst p, key_instance = snd p\<rparr>" for p
    by (simp add: registry_map_def registry_find_def split_def)
  then have "p \<in> dom (registry_map r) \<longleftrightarrow>
      \<lparr>key_service = fst p, key_instance = snd p\<rparr> \<in> fst ` set (services r)" for p
    by (simp add: domIff map_of_eq_None_iff)
  then have "dom (registry_map r) = ?f ` fst ` set (services r)"
    by (auto simp: image_iff key_eq_iff) force+
  also have "card \<dots> = card (fst ` set (services r))" by (rule card_image [OF inj])
  also have "\<dots> = length (services r)"
    using assms distinct_card [of "map fst (services r)"] by (simp add: registry_inv_def umap_inv_def)
  finally show ?thesis by (simp add: registry_size_def)
qed

lemma registry_find_all_set:
  assumes "registry_inv r"
  shows "set (registry_find_all r s) = {info. \<exists>i. registry_find r s i = Some info}"
    and "distinct (map info_instance (registry_find_all r s))"
proof -
  have d: "distinct (map fst (services r))" and keys: "(k, info) \<in> set (services r) \<Longrightarrow> k = \<lparr>key_service = info_service info, key_instance = info_instance info\<rparr>" for k info
    using assms key_eq_iff by (fastforce simp: registry_inv_def umap_inv_def)+
  show "set (registry_find_all r s) = {info. \<exists>i. registry_find r s i = Some info}"
  proof (intro set_eqI iffI)
    fix info assume "info \<in> set (registry_find_all r s)"
    then obtain k where "(k, info) \<in> set (services r)" "key_service k = s"
      by (auto simp: registry_find_all_def)
    then show "info \<in> {info. \<exists>i. registry_find r s i = Some info}"
      using d map_of_eq_Some_iff [OF d] keys [of k info]
      by (auto simp: registry_find_def intro!: exI [of _ "key_instance k"])
  next
    fix info assume "info \<in> {info. \<exists>i. registry_find r s i = Some info}"
    then show "info \<in> set (registry_find_all r s)"
      using map_of_eq_Some_iff [OF d] by (force simp: registry_find_all_def registry_find_def)
  qed
  have "distinct (map info_instance (map snd (filter (\<lambda>(k, info). key_service k = s) xs)))"
    if "distinct (map fst xs)"
      "\<And>k info. (k, info) \<in> set xs \<Longrightarrow> k = \<lparr>key_service = info_service info, key_instance = info_instance info\<rparr>" for xs
    using that
  proof (induction xs)
    case (Cons x xs)
    obtain k info where x: "x = (k, info)" by (cases x)
    have k: "k = \<lparr>key_service = info_service info, key_instance = info_instance info\<rparr>"
      using Cons.prems(2) x by auto
    have "info_instance info' \<noteq> info_instance info"
      if "(k', info') \<in> set xs" "key_service k' = key_service k" for k' info'
    proof
      assume "info_instance info' = info_instance info"
      with that Cons.prems(2) [of k' info'] k have "k' = k" by simp
      with Cons.prems(1) that x show False by force
    qed
    with Cons x show ?case by (auto; metis)
  qed simp
  from this [OF d keys] show "distinct (map info_instance (registry_find_all r s))"
    by (simp add: registry_find_all_def)
qed

section \<open>Properties of the registry\<close>

text \<open>The registry is a map: after any sequence of offers, stops and clears, a lookup finds exactly what
  the last offer of that service instance stored, unless it was stopped since; each offer told
  whether the instance was new and each stop whether it was there; the size is the number of
  instances, and \<open>find_all\<close> returns each offered instance of the service once.\<close>

theorem registry_is_map:
  fixes ops :: "registry_op list"
  defines "r \<equiv> fst (registry_run registry_empty ops)"
  shows "(\<lambda>(s, i). registry_find r s i, snd (registry_run registry_empty ops)) = spec_run Map.empty ops \<and>
    registry_size r = card (dom (fst (spec_run Map.empty ops))) \<and>
    set (registry_find_all r s) = {info. \<exists>i. fst (spec_run Map.empty ops) (s, i) = Some info} \<and>
    distinct (map info_instance (registry_find_all r s))"
proof -
  have e: "registry_inv registry_empty" "registry_map registry_empty = Map.empty"
    by (auto simp: registry_inv_def registry_empty_def umap_inv_def registry_map_def registry_find_def fun_eq_iff)
  have inv: "registry_inv r" and eq: "spec_run Map.empty ops = (registry_map r, snd (registry_run registry_empty ops))"
    using registry_run_refines [OF e(1), of ops] e(2) by (simp_all add: r_def)
  show ?thesis
    using registry_size_card [OF inv] registry_find_all_set [OF inv, of s] eq
    by (simp add: registry_map_def)
qed

section \<open>Keys\<close>

lemma packed_inject:
  fixes a b c d :: u16
  shows "push_bit 16 (ucast a) OR ucast b = (push_bit 16 (ucast c) OR ucast d :: u32) \<longleftrightarrow> a = c \<and> b = d"
proof
  assume eq: "push_bit 16 (ucast a) OR ucast b = (push_bit 16 (ucast c) OR ucast d :: u32)"
  have lo: "ucast (push_bit 16 (ucast x) OR ucast y :: u32) = y" for x y :: u16
    by (rule bit_word_eqI) (simp add: bit_simps)
  have hi: "ucast (drop_bit 16 (push_bit 16 (ucast x) OR ucast y :: u32)) = x" for x y :: u16
    by (rule bit_word_eqI) (auto simp: bit_simps dest: bit_imp_le_length)
  show "a = c \<and> b = d" using eq lo [of a b] lo [of c d] hi [of a b] hi [of c d] by simp
qed simp

lemma pack_key_inject [simp]: "pack_key s m = pack_key s' m' \<longleftrightarrow> s = s' \<and> m = m'"
  by (auto simp: pack_key_def packed_inject strong_id.expand)

lemma pack_eg_key_inject [simp]: "pack_eg_key s e = pack_eg_key s' e' \<longleftrightarrow> s = s' \<and> e = e'"
  by (auto simp: pack_eg_key_def packed_inject strong_id.expand)

section \<open>The dispatcher as maps\<close>

definition dispatcher_inv :: "('f, 'a) dispatcher \<Rightarrow> bool" where
  "dispatcher_inv d \<longleftrightarrow> omap_inv (disp_handlers d) \<and> omap_inv (disp_subscriptions d) \<and> omap_inv (disp_availability d)"

definition handler_at :: "('f, 'a) dispatcher \<Rightarrow> service_id \<Rightarrow> method_id \<Rightarrow> 'f inplace_handler option" where
  "handler_at d s m = map_of (disp_handlers d) (pack_key s m)"

definition subscribers_at :: "('f, 'a) dispatcher \<Rightarrow> service_id \<Rightarrow> eventgroup_id \<Rightarrow> 'f inplace_handler list" where
  "subscribers_at d s e = slot (disp_subscriptions d) (pack_eg_key s e)"

definition listeners_at :: "('f, 'a) dispatcher \<Rightarrow> service_id \<Rightarrow> 'a list" where
  "listeners_at d s = slot (disp_availability d) s"

lemma slot_Nil: "slot [] k = []"
  by (simp add: slot_def)

lemma slot_put: "omap_inv m \<Longrightarrow> slot (omap_put k v m) j = (if j = k then v else slot m j)"
  by (simp add: slot_def omap.get_put)

lemma slot_del: "omap_inv m \<Longrightarrow> slot (omap_del k m) j = (if j = k then [] else slot m j)"
  by (simp add: slot_def omap.get_del)

datatype ('f, 'a) dispatcher_op =
    Register service_id method_id "'f inplace_handler"
  | Unregister service_id method_id
  | Subscribe service_id eventgroup_id "'f inplace_handler"
  | Unsubscribe service_id eventgroup_id
  | Listen service_id 'a
  | Clear

fun dispatcher_step :: "('f, 'a) dispatcher_op \<Rightarrow> ('f, 'a) dispatcher \<Rightarrow> ('f, 'a) dispatcher" where
  "dispatcher_step (Register s m h) d = register_handler d s m h"
| "dispatcher_step (Unregister s m) d = unregister_handler d s m"
| "dispatcher_step (Subscribe s e h) d = subscribe d s e h"
| "dispatcher_step (Unsubscribe s e) d = unsubscribe d s e"
| "dispatcher_step (Listen s a) d = on_availability d s a"
| "dispatcher_step Clear d = dispatcher_clear d"

text \<open>What the history says: the latest registration, the subscriptions since the latest
  unsubscription, the listeners since the latest clear.\<close>

fun spec_handler :: "service_id \<Rightarrow> method_id \<Rightarrow> ('f, 'a) dispatcher_op \<Rightarrow>
    'f inplace_handler option \<Rightarrow> 'f inplace_handler option" where
  "spec_handler s m (Register s' m' h) r = (if s = s' \<and> m = m' then Some h else r)"
| "spec_handler s m (Unregister s' m') r = (if s = s' \<and> m = m' then None else r)"
| "spec_handler s m Clear r = None"
| "spec_handler s m _ r = r"

fun spec_subscribers :: "service_id \<Rightarrow> eventgroup_id \<Rightarrow> ('f, 'a) dispatcher_op \<Rightarrow>
    'f inplace_handler list \<Rightarrow> 'f inplace_handler list" where
  "spec_subscribers s e (Subscribe s' e' h) r = (if s = s' \<and> e = e' then r @ [h] else r)"
| "spec_subscribers s e (Unsubscribe s' e') r = (if s = s' \<and> e = e' then [] else r)"
| "spec_subscribers s e Clear r = []"
| "spec_subscribers s e _ r = r"

fun spec_listeners :: "service_id \<Rightarrow> ('f, 'a) dispatcher_op \<Rightarrow> 'a list \<Rightarrow> 'a list" where
  "spec_listeners s (Listen s' a) r = (if s = s' then r @ [a] else r)"
| "spec_listeners s Clear r = []"
| "spec_listeners s _ r = r"

lemmas dispatcher_defs = register_handler_def unregister_handler_def subscribe_def unsubscribe_def
  on_availability_def dispatcher_clear_def

lemma dispatcher_step_refines:
  assumes "dispatcher_inv d"
  shows "dispatcher_inv (dispatcher_step x d)"
    and "handler_at (dispatcher_step x d) s m = spec_handler s m x (handler_at d s m)"
    and "subscribers_at (dispatcher_step x d) s e = spec_subscribers s e x (subscribers_at d s e)"
    and "listeners_at (dispatcher_step x d) s = spec_listeners s x (listeners_at d s)"
proof -
  have inv: "omap_inv (disp_handlers d)" "omap_inv (disp_subscriptions d)" "omap_inv (disp_availability d)"
    using assms by (simp_all add: dispatcher_inv_def)
  show "dispatcher_inv (dispatcher_step x d)"
    by (cases x) (simp_all add: dispatcher_inv_def dispatcher_defs inv)
  show "handler_at (dispatcher_step x d) s m = spec_handler s m x (handler_at d s m)"
    by (cases x) (simp_all add: handler_at_def dispatcher_defs omap.get_put omap.get_del inv)
  show "subscribers_at (dispatcher_step x d) s e = spec_subscribers s e x (subscribers_at d s e)"
    by (cases x) (simp_all add: subscribers_at_def dispatcher_defs slot_put slot_del slot_Nil inv)
  show "listeners_at (dispatcher_step x d) s = spec_listeners s x (listeners_at d s)"
    by (cases x) (simp_all add: listeners_at_def dispatcher_defs slot_put slot_Nil inv)
qed

lemma dispatcher_run_refines:
  "dispatcher_inv d \<Longrightarrow> dispatcher_inv (fold dispatcher_step xs d) \<and>
    handler_at (fold dispatcher_step xs d) s m = fold (spec_handler s m) xs (handler_at d s m) \<and>
    subscribers_at (fold dispatcher_step xs d) s e = fold (spec_subscribers s e) xs (subscribers_at d s e) \<and>
    listeners_at (fold dispatcher_step xs d) s = fold (spec_listeners s) xs (listeners_at d s)"
  by (induction xs arbitrary: d) (simp_all add: dispatcher_step_refines)

lemma dispatcher_empty_maps:
  "dispatcher_inv dispatcher_empty" "handler_at dispatcher_empty s m = None"
  "subscribers_at dispatcher_empty s e = []" "listeners_at dispatcher_empty s = []"
  by (simp_all add: dispatcher_inv_def dispatcher_empty_def handler_at_def subscribers_at_def listeners_at_def slot_def)

text \<open>The handler a message is given to: the specific one before the wildcard.\<close>

definition target :: "('f, 'a) dispatcher \<Rightarrow> service_id \<Rightarrow> method_id \<Rightarrow> 'f inplace_handler option" where
  "target d s m = (case handler_at d s m of Some h \<Rightarrow> Some h | None \<Rightarrow> handler_at d s any_method)"

text \<open>A handler that holds a callable.\<close>

definition engaged_with :: "'f inplace_handler \<Rightarrow> 'f \<Rightarrow> bool" where
  "engaged_with h f \<longleftrightarrow> ih_invoke h \<and> ih_storage h = Some f"

lemma handler_call_engaged: "engaged_with h f \<Longrightarrow> handler_call h args = Some (f, args)"
  by (simp add: engaged_with_def handler_call_def)

lemma dispatch_target:
  "dispatch d (header_bytes hf @ rest) payload =
     (case target d (f_service hf) (f_method hf) of
        None \<Rightarrow> Some (False, [])
      | Some h \<Rightarrow> do { c \<leftarrow> handler_call h \<lparr>view_header = header_bytes hf @ rest, view_payload = payload\<rparr>; Some (True, [c]) })"
  by (simp add: dispatch_def target_def handler_at_def hdr_getters Let_def split: option.splits)

lemma call_all_engaged: "list_all2 engaged_with hs fs \<Longrightarrow> call_all hs args = Some (map (\<lambda>f. (f, args)) fs)"
  by (induction rule: list_all2_induct) (simp_all add: handler_call_engaged)

text \<open>Routing a complete header with whatever follows it.\<close>

lemma route_message_bytes:
  "route_message m (header_bytes hf @ rest) =
     (let n = unat (f_length hf) - 8
      in if length rest < n \<or> f_service hf = sd_service \<and> f_method hf = sd_method then Some (False, [])
         else dispatch (rm_dispatcher m) (header_bytes hf @ rest) (take n rest))"
proof -
  have "unat (if 8 \<le> f_length hf then f_length hf - 8 else 0) = unat (f_length hf) - 8"
    by (auto simp: unat_sub word_le_nat_alt)
  then show ?thesis
    by (auto simp: route_message_def subspan_from_Some hdr_getters wire_consts subspan_def Let_def)
qed

section \<open>Properties of dispatching\<close>

text \<open>C20. Dispatching after any history of registrations, unregistrations, subscriptions and clears: a
  message goes to the handler registered last for its service and method or else to the service's
  wildcard handler, a notification to the handlers subscribed since the last unsubscription, in
  order, and an availability change to the service's listeners - the packed keys of different
  identifiers never collide. Handlers are the engaged ones the setup stored.\<close>

theorem dispatch_history:
  fixes ops :: "('f, 'a) dispatcher_op list" and hf :: header_fields and s :: service_id and e :: eventgroup_id
  defines "d \<equiv> fold dispatcher_step ops dispatcher_empty"
  defines "specific \<equiv> fold (spec_handler (f_service hf) (f_method hf)) ops None"
    and "wildcard \<equiv> fold (spec_handler (f_service hf) any_method) ops None"
    and "subscribers \<equiv> fold (spec_subscribers s e) ops []"
  shows "dispatch d (header_bytes hf @ rest) payload =
      (case (if specific = None then wildcard else specific) of
         None \<Rightarrow> Some (False, [])
       | Some h \<Rightarrow> do { c \<leftarrow> handler_call h \<lparr>view_header = header_bytes hf @ rest, view_payload = payload\<rparr>;
                     Some (True, [c]) }) \<and>
    notify_subscribers d s e hdr payload = call_all subscribers \<lparr>view_header = hdr, view_payload = payload\<rparr> \<and>
    notify_availability d s i b = map (\<lambda>a. (a, s, i, b)) (fold (spec_listeners s) ops [])"
proof -
  note run = dispatcher_run_refines [OF dispatcher_empty_maps(1), of ops, folded d_def, unfolded dispatcher_empty_maps]
  have "target d (f_service hf) (f_method hf) = (if specific = None then wildcard else specific)"
    using run by (simp add: target_def specific_def wildcard_def split: option.splits)
  moreover have "notify_subscribers d s e hdr payload = call_all (subscribers_at d s e)
      \<lparr>view_header = hdr, view_payload = payload\<rparr>"
    by (simp add: notify_subscribers_def subscribers_at_def slot_def split: option.splits)
  moreover have "notify_availability d s i b = map (\<lambda>a. (a, s, i, b)) (listeners_at d s)"
    by (simp add: notify_availability_def listeners_at_def slot_def split: option.splits)
  ultimately show ?thesis
    using run by (simp add: dispatch_target subscribers_def)
qed

text \<open>C17. What happens to every byte sequence an application may receive: if it holds no complete message
  or is a service-discovery message it is refused and nothing is called; otherwise exactly the
  handler for its service and method is called, once, with the first \<open>payload_length\<close> bytes after
  the header. No byte outside the message is read, and the call is defined whenever the handlers
  hold callables.\<close>

theorem route_message_exact:
  fixes m :: "('f, 'a) routing_manager"
  assumes "\<And>s mth h. handler_at (rm_dispatcher m) s mth = Some h \<Longrightarrow> \<exists>f. engaged_with h f"
  shows "route_message m raw = Some (if length raw < 16 then (False, [])
    else let s = Strong_id (u16_of (raw ! 0) (raw ! 1)); mth = Strong_id (u16_of (raw ! 2) (raw ! 3));
             n = unat (u32_of (raw ! 4) (raw ! 5) (raw ! 6) (raw ! 7)) - 8
         in if length raw - 16 < n \<or> s = sd_service \<and> mth = sd_method then (False, [])
            else case target (rm_dispatcher m) s mth of
                None \<Rightarrow> (False, [])
              | Some h \<Rightarrow> (True, [(the (ih_storage h),
                  \<lparr>view_header = raw, view_payload = take n (drop 16 raw)\<rparr>)]))"
proof (cases "length raw < 16")
  case False
  then obtain hf rest where raw: "raw = header_bytes hf @ rest" using header_cases [of raw] by auto
  have fields: "Strong_id (u16_of (raw ! 0) (raw ! 1)) = f_service hf"
    "Strong_id (u16_of (raw ! 2) (raw ! 3)) = f_method hf"
    "u32_of (raw ! 4) (raw ! 5) (raw ! 6) (raw ! 7) = f_length hf"
    by (simp_all add: raw header_bytes_def be16_def be32_def u16_of_be16 u32_of_be32)
  have "target (rm_dispatcher m) s mth = Some h \<Longrightarrow> \<exists>f. engaged_with h f" for s mth h
    using assms by (auto simp: target_def split: option.splits)
  moreover have "engaged_with h f \<Longrightarrow> the (ih_storage h) = f" for h and f :: 'f
    by (simp add: engaged_with_def)
  ultimately have "dispatch (rm_dispatcher m) raw p = Some (case target (rm_dispatcher m) (f_service hf) (f_method hf) of
      None \<Rightarrow> (False, [])
    | Some h \<Rightarrow> (True, [(the (ih_storage h), \<lparr>view_header = raw, view_payload = p\<rparr>)]))" for p
    unfolding raw dispatch_target by (fastforce simp: handler_call_engaged split: option.splits)
  moreover have "drop 16 raw = rest" by (simp add: raw)
  ultimately show ?thesis
    using False unfolding fields
    by (simp add: raw route_message_bytes Let_def split: option.split)
qed (simp add: route_message_def wire_consts)

definition example_manager :: "(string, string) routing_manager" where
  "example_manager = manager_empty\<lparr>rm_dispatcher := on_availability (register_handler dispatcher_empty
     (Strong_id 0x1234) any_method \<lparr>ih_storage = Some ''wildcard'', ih_invoke = True, ih_destroy = True\<rparr>)
     (Strong_id 0x1234) ''listener''\<rparr>"

lemma route_message_exact_witness:
  "route_message example_manager [0x12, 0x34, 0, 7, 0, 0, 0, 10, 0, 0, 0, 0, 1, 1, 0, 0, 42, 43, 44] =
     Some (True, [(''wildcard'',
       \<lparr>view_header = [0x12, 0x34, 0, 7, 0, 0, 0, 10, 0, 0, 0, 0, 1, 1, 0, 0, 42, 43, 44],
        view_payload = [42, 43]\<rparr>)])"
proof -
  have h: "handler_at (rm_dispatcher example_manager) s mth =
      (if s = Strong_id 0x1234 \<and> mth = any_method
       then Some \<lparr>ih_storage = Some ''wildcard'', ih_invoke = True, ih_destroy = True\<rparr> else None)" for s mth
    by (simp add: example_manager_def handler_at_def dispatcher_empty_def register_handler_def on_availability_def
        eq_commute)
  have "\<exists>f. engaged_with h f" if "handler_at (rm_dispatcher example_manager) s mth = Some h" for s mth h
    using that by (auto simp: h engaged_with_def split: if_splits)
  from route_message_exact [of example_manager, OF this] show ?thesis
    by (simp add: target_def h any_method_def u16_of_def u32_of_def sd_service_def)
qed

section \<open>Availability\<close>

text \<open>The operations of a manager that change its registry.\<close>

datatype manager_op =
    Op_offer service_id instance_id u8 u32
  | Op_stop service_id instance_id
  | Op_add_remote service_info
  | Op_remove_remote service_id instance_id

fun manager_step :: "('f, 'a) routing_manager \<Rightarrow> manager_op \<Rightarrow>
    ('f, 'a) routing_manager \<times> ('a \<times> service_id \<times> instance_id \<times> bool) list" where
  "manager_step m (Op_offer s i major minor) = manager_offer_service m s i major minor"
| "manager_step m (Op_stop s i) = manager_stop_offer_service m s i"
| "manager_step m (Op_add_remote info) = add_remote_service m info"
| "manager_step m (Op_remove_remote s i) = remove_remote_service m s i"

fun manager_run :: "('f, 'a) routing_manager \<Rightarrow> manager_op list \<Rightarrow>
    ('f, 'a) routing_manager \<times> ('a \<times> service_id \<times> instance_id \<times> bool) list" where
  "manager_run m [] = (m, [])"
| "manager_run m (x # xs) =
     (let (m, cs) = manager_step m x; (m, cs') = manager_run m xs in (m, cs @ cs'))"

fun op_target :: "manager_op \<Rightarrow> service_id \<times> instance_id" where
  "op_target (Op_offer s i _ _) = (s, i)"
| "op_target (Op_stop s i) = (s, i)"
| "op_target (Op_add_remote info) = (info_service info, info_instance info)"
| "op_target (Op_remove_remote s i) = (s, i)"

fun op_adds :: "manager_op \<Rightarrow> bool" where
  "op_adds (Op_offer _ _ _ _) = True"
| "op_adds (Op_add_remote _) = True"
| "op_adds _ = False"

definition available :: "('f, 'a) routing_manager \<Rightarrow> service_id \<Rightarrow> instance_id \<Rightarrow> bool" where
  "available m s i \<longleftrightarrow> resolve m s i \<noteq> Target_unknown"

lemma available_find: "available m s i \<longleftrightarrow> registry_map (rm_registry m) (s, i) \<noteq> None"
  by (auto simp: available_def resolve_def registry_map_def split: option.splits)

text \<open>The step of a manager: what becomes available, who is told.\<close>

lemma manager_step_effect:
  assumes "registry_inv (rm_registry m)" and "manager_step m x = (m', cs)"
  shows "registry_inv (rm_registry m')" and "rm_dispatcher m' = rm_dispatcher m"
    and "available m' s i = (if (s, i) = op_target x then op_adds x else available m s i)"
    and "cs = (case op_target x of (s, i) \<Rightarrow>
      if available m s i = op_adds x then [] else notify_availability (rm_dispatcher m) s i (op_adds x))"
proof -
  have "registry_inv (rm_registry m') \<and> rm_dispatcher m' = rm_dispatcher m \<and>
    available m' s i = (if (s, i) = op_target x then op_adds x else available m s i) \<and>
    cs = (case op_target x of (s, i) \<Rightarrow>
      if available m s i = op_adds x then [] else notify_availability (rm_dispatcher m) s i (op_adds x))"
  proof (cases x)
    case (Op_offer sv it major minor)
    show ?thesis
      using registry_step_refines [OF assms(1), of "Reg_offer (service_info_default
        \<lparr>info_service := sv, info_instance := it, info_major := major, info_minor := minor,
         info_ttl := 0xFFFFFF, info_is_local := True\<rparr>)"] assms(2)
      by (auto simp: Op_offer manager_offer_service_def after_registry_def available_find Let_def split_def)
  next
    case (Op_stop sv it)
    show ?thesis
      using registry_step_refines [OF assms(1), of "Reg_stop sv it"] assms(2)
      by (auto simp: Op_stop manager_stop_offer_service_def after_registry_def available_find split_def)
  next
    case (Op_add_remote info)
    show ?thesis
      using registry_step_refines [OF assms(1), of "Reg_offer info"] assms(2)
      by (auto simp: Op_add_remote add_remote_service_def after_registry_def available_find split_def)
  next
    case (Op_remove_remote sv it)
    show ?thesis
      using registry_step_refines [OF assms(1), of "Reg_stop sv it"] assms(2)
      by (auto simp: Op_remove_remote remove_remote_service_def after_registry_def available_find split_def)
  qed
  then show "registry_inv (rm_registry m')" and "rm_dispatcher m' = rm_dispatcher m"
    and "available m' s i = (if (s, i) = op_target x then op_adds x else available m s i)"
    and "cs = (case op_target x of (s, i) \<Rightarrow>
      if available m s i = op_adds x then [] else notify_availability (rm_dispatcher m) s i (op_adds x))"
    by simp_all
qed

text \<open>A list that alternates, starting with the opposite of a value.\<close>

fun alternating :: "bool \<Rightarrow> bool list \<Rightarrow> bool" where
  "alternating b [] = True"
| "alternating b (c # cs) = (c = (\<not> b) \<and> alternating c cs)"

definition calls_about :: "service_id \<Rightarrow> instance_id \<Rightarrow> ('a \<times> service_id \<times> instance_id \<times> bool) list \<Rightarrow>
    ('a \<times> service_id \<times> instance_id \<times> bool) list" where
  "calls_about s i cs = filter (\<lambda>(_, s', i', _). s' = s \<and> i' = i) cs"

definition announce :: "('f, 'a) routing_manager \<Rightarrow> service_id \<Rightarrow> instance_id \<Rightarrow> bool \<Rightarrow>
    ('a \<times> service_id \<times> instance_id \<times> bool) list" where
  "announce m s i b = map (\<lambda>a. (a, s, i, b)) (listeners_at (rm_dispatcher m) s)"

lemma calls_about_Nil [simp]: "calls_about s i [] = []"
  by (simp add: calls_about_def)

lemma calls_about_notify:
  "calls_about s i (notify_availability d s' i' b) =
     (if s' = s \<and> i' = i then map (\<lambda>a. (a, s, i, b)) (listeners_at d s) else [])"
proof -
  have "filter (\<lambda>(_, s', i', _). s' = s \<and> i' = i) (map (\<lambda>h. (h, s', i', b)) hs) =
      (if s' = s \<and> i' = i then map (\<lambda>h. (h, s', i', b)) hs else [])" for hs :: "'b list"
    by (induction hs) auto
  then show ?thesis
    by (auto simp: calls_about_def notify_availability_def listeners_at_def slot_def split: option.splits)
qed

lemma manager_run_announces:
  "registry_inv (rm_registry m) \<Longrightarrow> manager_run m ops = (m', cs) \<Longrightarrow>
   \<exists>bs. calls_about s i cs = concat (map (announce m s i) bs) \<and> alternating (available m s i) bs \<and>
     available m' s i = last (available m s i # bs)"
proof (induction ops arbitrary: m cs)
  case Nil
  then show ?case by (intro exI [of _ "[]"]) (simp add: calls_about_def)
next
  case (Cons x ops)
  obtain m1 cs1 cs2 where s: "manager_step m x = (m1, cs1)" "manager_run m1 ops = (m', cs2)" "cs = cs1 @ cs2"
    using Cons.prems(2) by (auto simp: Let_def split: prod.splits)
  note eff = manager_step_effect [OF Cons.prems(1) s(1)]
  obtain bs where bs: "calls_about s i cs2 = concat (map (announce m1 s i) bs)" "alternating (available m1 s i) bs"
    "available m' s i = last (available m1 s i # bs)"
    using Cons.IH [OF eff(1) s(2)] by blast
  have ann: "announce m1 s i = announce m s i" using eff(2) by (simp add: announce_def fun_eq_iff)
  have app: "calls_about s i cs = calls_about s i cs1 @ calls_about s i cs2"
    by (simp add: s(3) calls_about_def)
  show ?case
  proof (cases "(s, i) = op_target x \<and> available m s i \<noteq> op_adds x")
    case True
    then have "calls_about s i cs1 = announce m s i (op_adds x)" "available m1 s i = op_adds x"
      using eff(3) [of s i] eff(4) by (auto simp: calls_about_notify announce_def split: prod.splits)
    with True bs app ann show ?thesis by (intro exI [of _ "op_adds x # bs"]) auto
  next
    case False
    then have "calls_about s i cs1 = []" "available m1 s i = available m s i"
      using eff(3) [of s i] eff(4) by (auto simp: calls_about_notify split: prod.splits if_splits)
    with bs app ann show ?thesis by (intro exI [of _ bs]) auto
  qed
qed

text \<open>C18. Availability is announced exactly when it changes. Whatever sequence of local and remote offers and
  stops a manager performs, the listeners of a service are all told, in registration order, an
  alternating sequence of available / unavailable about each instance, starting from its state
  before, and the last announcement agrees with what \<open>resolve\<close> says afterwards.\<close>

theorem availability_alternates:
  assumes "manager_run (manager_empty\<lparr>rm_dispatcher := d\<rparr>) ops = (m, calls)"
  shows "\<exists>bs. calls_about s i calls = concat (map (\<lambda>b. map (\<lambda>a. (a, s, i, b)) (listeners_at d s)) bs) \<and>
    alternating False bs \<and> (resolve m s i \<noteq> Target_unknown) = last (False # bs)"
proof -
  have "registry_inv registry_empty" by (simp add: registry_inv_def registry_empty_def umap_inv_def)
  then have inv: "registry_inv (rm_registry (manager_empty\<lparr>rm_dispatcher := d\<rparr>))" by (simp add: manager_empty_def)
  moreover have "\<not> available (manager_empty\<lparr>rm_dispatcher := d\<rparr>) s i"
    by (simp add: available_def resolve_def manager_empty_def registry_empty_def registry_find_def)
  ultimately show ?thesis
    using manager_run_announces [OF inv assms, of s i]
    by (simp add: announce_def available_def [of m] fun_eq_iff cong: map_cong)
qed

lemma availability_alternates_witness:
  "\<exists>bs. calls_about (Strong_id 7) (Strong_id 1) (snd (manager_run (manager_empty
      \<lparr>rm_dispatcher := on_availability dispatcher_empty (Strong_id 7) ''l''\<rparr> :: (string, string) routing_manager)
      [Op_offer (Strong_id 7) (Strong_id 1) 0 0, Op_offer (Strong_id 7) (Strong_id 1) 1 0,
       Op_stop (Strong_id 7) (Strong_id 1)])) =
    concat (map (\<lambda>b. map (\<lambda>a. (a, Strong_id 7, Strong_id 1, b)) [''l'']) bs) \<and> alternating False bs"
proof -
  have l: "listeners_at (on_availability dispatcher_empty (Strong_id 7) ''l'') (Strong_id 7) = [''l'']"
    by (simp add: listeners_at_def on_availability_def dispatcher_empty_def slot_def)
  obtain m calls where run: "manager_run (manager_empty\<lparr>rm_dispatcher := on_availability dispatcher_empty
      (Strong_id 7) ''l''\<rparr> :: (string, string) routing_manager)
      [Op_offer (Strong_id 7) (Strong_id 1) 0 0, Op_offer (Strong_id 7) (Strong_id 1) 1 0,
       Op_stop (Strong_id 7) (Strong_id 1)] = (m, calls)" by (rule prod.exhaust)
  show ?thesis
    using availability_alternates [OF run, of "Strong_id 7" "Strong_id 1"] unfolding l run snd_conv by blast
qed

end
