(* ===== verification/Route_Handlers.thy ===== *)
theory Route_Handlers
  imports Route_Dispatcher
begin

text \<open>
  The lifetime of the callables inside \<open>inplace_handler\<close>s. Handlers live at addresses and are created,
  moved, assigned and destroyed in any order, a handler assigned to itself included; each callable put
  into a handler has a number. Moving copies the bytes and leaves them behind in the source, so only the
  \<open>destroy_\<close> pointers tell who owns a callable: the invariant is that they name exactly one owner until
  it is destroyed, once. The ledger states what every operation should do to the callables.
\<close>

record handler_heap =
  heap_slots :: "nat \<Rightarrow> nat inplace_handler option"
  heap_next :: nat
  heap_destroyed :: "nat list"

definition heap_init :: handler_heap where
  "heap_init = \<lparr>heap_slots = Map.empty, heap_next = 0, heap_destroyed = []\<rparr>"

datatype handler_op = Default_at nat | Construct_at nat | Move_to nat nat | Assign_to nat nat | Destruct_at nat

text \<open>What a program may do: construct where no handler is, use handlers that exist, and put only
  callables into handlers that fit, since it does not compile otherwise.\<close>

fun op_allowed :: "nat \<Rightarrow> (nat \<Rightarrow> nat) \<Rightarrow> handler_heap \<Rightarrow> handler_op \<Rightarrow> bool" where
  "op_allowed capacity size_of s (Default_at a) \<longleftrightarrow> heap_slots s a = None"
| "op_allowed capacity size_of s (Construct_at a) \<longleftrightarrow> heap_slots s a = None \<and> size_of (heap_next s) \<le> capacity"
| "op_allowed capacity size_of s (Move_to a b) \<longleftrightarrow> heap_slots s a = None \<and> heap_slots s b \<noteq> None"
| "op_allowed capacity size_of s (Assign_to a b) \<longleftrightarrow> heap_slots s a \<noteq> None \<and> heap_slots s b \<noteq> None"
| "op_allowed capacity size_of s (Destruct_at a) \<longleftrightarrow> heap_slots s a \<noteq> None"

fun handler_exec :: "nat \<Rightarrow> (nat \<Rightarrow> nat) \<Rightarrow> (nat \<Rightarrow> bool) \<Rightarrow> handler_op \<Rightarrow> handler_heap \<Rightarrow> handler_heap option" where
  "handler_exec capacity size_of copyable (Default_at a) s =
     Some (s\<lparr>heap_slots := (heap_slots s)(a \<mapsto> handler_empty)\<rparr>)"
| "handler_exec capacity size_of copyable (Construct_at a) s = do {
     h \<leftarrow> handler_make capacity size_of (heap_next s);
     Some (s\<lparr>heap_slots := (heap_slots s)(a \<mapsto> h), heap_next := heap_next s + 1\<rparr>)
   }"
| "handler_exec capacity size_of copyable (Move_to a b) s = do {
     src \<leftarrow> heap_slots s b;
     let (h, src) = handler_move copyable src;
     Some (s\<lparr>heap_slots := (heap_slots s)(a \<mapsto> h, b \<mapsto> src)\<rparr>)
   }"
| "handler_exec capacity size_of copyable (Assign_to a b) s = do {
     (slots, ds) \<leftarrow> handler_move_assign copyable (heap_slots s) a b;
     Some (s\<lparr>heap_slots := slots, heap_destroyed := heap_destroyed s @ ds\<rparr>)
   }"
| "handler_exec capacity size_of copyable (Destruct_at a) s = do {
     t \<leftarrow> heap_slots s a;
     ds \<leftarrow> handler_destruct t;
     Some (s\<lparr>heap_slots := (heap_slots s)(a := None), heap_destroyed := heap_destroyed s @ ds\<rparr>)
   }"

text \<open>The histories of operations, each with the state it leads to.\<close>

inductive handler_history :: "nat \<Rightarrow> (nat \<Rightarrow> nat) \<Rightarrow> (nat \<Rightarrow> bool) \<Rightarrow> handler_op list \<Rightarrow> handler_heap \<Rightarrow> bool"
  for capacity size_of copyable where
  init: "handler_history capacity size_of copyable [] heap_init"
| step: "handler_history capacity size_of copyable ops s \<Longrightarrow> op_allowed capacity size_of s op \<Longrightarrow>
    handler_exec capacity size_of copyable op s = Some s' \<Longrightarrow> handler_history capacity size_of copyable (ops @ [op]) s'"

section \<open>The ledger of callables\<close>

text \<open>The specification: which callable each existing handler holds, and the ones destroyed in order.\<close>

record ledger =
  led_holds :: "nat \<rightharpoonup> nat option"
  led_next :: nat
  led_destroyed :: "nat list"

definition ledger_init :: ledger where
  "ledger_init = \<lparr>led_holds = Map.empty, led_next = 0, led_destroyed = []\<rparr>"

definition held :: "ledger \<Rightarrow> nat \<Rightarrow> nat list" where
  "held l a = (case led_holds l a of Some (Some k) \<Rightarrow> [k] | _ \<Rightarrow> [])"

fun ledger_step :: "handler_op \<Rightarrow> ledger \<Rightarrow> ledger" where
  "ledger_step (Default_at a) l = l\<lparr>led_holds := (led_holds l)(a \<mapsto> None)\<rparr>"
| "ledger_step (Construct_at a) l =
     l\<lparr>led_holds := (led_holds l)(a \<mapsto> Some (led_next l)), led_next := led_next l + 1\<rparr>"
| "ledger_step (Move_to a b) l = l\<lparr>led_holds := (led_holds l)(a := led_holds l b, b \<mapsto> None)\<rparr>"
| "ledger_step (Assign_to a b) l =
     (if a = b then l
      else l\<lparr>led_holds := (led_holds l)(a := led_holds l b, b \<mapsto> None), led_destroyed := led_destroyed l @ held l a\<rparr>)"
| "ledger_step (Destruct_at a) l =
     l\<lparr>led_holds := (led_holds l)(a := None), led_destroyed := led_destroyed l @ held l a\<rparr>"

section \<open>Ownership\<close>

text \<open>The callable a handler owns, and the invariant: owners of different callables are different, and
  the callables not yet destroyed are exactly the owned ones.\<close>

definition owned :: "'f inplace_handler option \<Rightarrow> 'f option" where
  "owned x = (case x of Some h \<Rightarrow> if ih_destroy h then ih_storage h else None | None \<Rightarrow> None)"

definition owners :: "handler_heap \<Rightarrow> nat \<rightharpoonup> nat" where
  "owners s = (\<lambda>a. owned (heap_slots s a))"

definition well_formed :: "'f inplace_handler \<Rightarrow> bool" where
  "well_formed h \<longleftrightarrow> ih_invoke h = ih_destroy h \<and> (ih_destroy h \<longrightarrow> ih_storage h \<noteq> None)"

definition own_inv :: "(nat \<rightharpoonup> nat) \<Rightarrow> nat \<Rightarrow> nat list \<Rightarrow> bool" where
  "own_inv o' n d \<longleftrightarrow> (\<forall>a b k. o' a = Some k \<longrightarrow> o' b = Some k \<longrightarrow> a = b) \<and>
     (\<forall>k. (\<exists>a. o' a = Some k) \<longleftrightarrow> k < n \<and> k \<notin> set d) \<and> distinct d \<and> (\<forall>k \<in> set d. k < n)"

definition heap_inv :: "handler_heap \<Rightarrow> bool" where
  "heap_inv s \<longleftrightarrow> (\<forall>a h. heap_slots s a = Some h \<longrightarrow> well_formed h) \<and>
     own_inv (owners s) (heap_next s) (heap_destroyed s)"

lemma owned_simps [simp]:
  "owned None = None" "owned (Some h) = (if ih_destroy h then ih_storage h else None)"
  by (simp_all add: owned_def)

lemma own_invI:
  assumes "\<And>a b k. o' a = Some k \<Longrightarrow> o' b = Some k \<Longrightarrow> a = b"
    and "\<And>k. (\<exists>a. o' a = Some k) \<longleftrightarrow> k < n \<and> k \<notin> set d" and "distinct d" and "\<And>k. k \<in> set d \<Longrightarrow> k < n"
  shows "own_inv o' n d"
  unfolding own_inv_def using assms by blast

lemma own_invD:
  assumes "own_inv o' n d"
  shows "o' a = Some k \<Longrightarrow> o' b = Some k \<Longrightarrow> a = b"
    and "(\<exists>a. o' a = Some k) \<longleftrightarrow> k < n \<and> k \<notin> set d" and "distinct d" and "k \<in> set d \<Longrightarrow> k < n"
  using assms unfolding own_inv_def by blast+

lemma own_new:
  assumes inv: "own_inv o' n d" and "o' a = None"
  shows "own_inv (o'(a \<mapsto> n)) (Suc n) d"
proof (rule own_invI)
  have fresh: "o' b \<noteq> Some n" for b using own_invD(2) [OF inv, of n] by auto
  have val: "(o'(a \<mapsto> n)) b = Some k \<longleftrightarrow> b = a \<and> k = n \<or> b \<noteq> a \<and> o' b = Some k" for b k by auto
  show "(o'(a \<mapsto> n)) b = Some k \<Longrightarrow> (o'(a \<mapsto> n)) c = Some k \<Longrightarrow> b = c" for b c k
    unfolding val using fresh own_invD(1) [OF inv, of b k c] by auto
  have "(\<exists>b. (o'(a \<mapsto> n)) b = Some k) \<longleftrightarrow> k = n \<or> (\<exists>b. o' b = Some k)" for k
    unfolding val using assms(2) by (cases "k = n") force+
  moreover have "n \<notin> set d" using own_invD(4) [OF inv, of n] by auto
  ultimately show "(\<exists>b. (o'(a \<mapsto> n)) b = Some k) \<longleftrightarrow> k < Suc n \<and> k \<notin> set d" for k
    using own_invD(2) [OF inv, of k] by auto
  show "distinct d" by (rule own_invD(3) [OF inv])
  show "k \<in> set d \<Longrightarrow> k < Suc n" for k using own_invD(4) [OF inv, of k] by simp
qed

lemma own_move:
  assumes inv: "own_inv o' n d" and "o' a = None" "a \<noteq> b"
  shows "own_inv (o'(a := o' b, b := None)) n d"
proof (rule own_invI)
  let ?o = "o'(a := o' b, b := None)"
  have val: "?o c = Some k \<longleftrightarrow> c = a \<and> o' b = Some k \<or> c \<noteq> a \<and> c \<noteq> b \<and> o' c = Some k" for c k
    using assms(3) by auto
  show "?o c = Some k \<Longrightarrow> ?o c' = Some k \<Longrightarrow> c = c'" for c c' k
    unfolding val using own_invD(1) [OF inv, of c k c'] own_invD(1) [OF inv, of b k c']
      own_invD(1) [OF inv, of c k b] by auto
  have "(\<exists>c. ?o c = Some k) \<longleftrightarrow> (\<exists>c. o' c = Some k)" for k
  proof
    assume "\<exists>c. o' c = Some k"
    then obtain c where c: "o' c = Some k" ..
    then have "c \<noteq> a" using assms(2) by auto
    with c have "?o (if c = b then a else c) = Some k" unfolding val by auto
    then show "\<exists>c. ?o c = Some k" ..
  qed (unfold val, blast)
  then show "(\<exists>c. ?o c = Some k) \<longleftrightarrow> k < n \<and> k \<notin> set d" for k
    using own_invD(2) [OF inv, of k] by simp
qed (use own_invD(3,4) [OF inv] in blast)+

lemma own_drop:
  assumes inv: "own_inv o' n d"
  shows "own_inv (o'(a := None)) n (d @ (case o' a of Some k \<Rightarrow> [k] | None \<Rightarrow> []))"
proof (cases "o' a")
  case None
  then have "o'(a := None) = o'" by auto
  with None assms show ?thesis by simp
next
  case (Some k)
  have val: "(o'(a := None)) b = Some j \<longleftrightarrow> b \<noteq> a \<and> o' b = Some j" for b j by auto
  have k: "k < n" "k \<notin> set d" using own_invD(2) [OF inv, of k] Some by auto
  have "own_inv (o'(a := None)) n (d @ [k])"
  proof (rule own_invI)
    show "(o'(a := None)) b = Some j \<Longrightarrow> (o'(a := None)) c = Some j \<Longrightarrow> b = c" for b c j
      unfolding val using own_invD(1) [OF inv, of b j c] by blast
    have "b \<noteq> a \<longleftrightarrow> j \<noteq> k" if "o' b = Some j" for b j
      using own_invD(1) [OF inv, of b k a] Some that by auto
    then have "(\<exists>b. (o'(a := None)) b = Some j) \<longleftrightarrow> (\<exists>b. o' b = Some j) \<and> j \<noteq> k" for j
      unfolding val by blast
    then show "(\<exists>b. (o'(a := None)) b = Some j) \<longleftrightarrow> j < n \<and> j \<notin> set (d @ [k])" for j
      using own_invD(2) [OF inv, of j] by auto
    show "distinct (d @ [k])" using own_invD(3) [OF inv] k by simp
    show "j \<in> set (d @ [k]) \<Longrightarrow> j < n" for j using own_invD(4) [OF inv, of j] k by auto
  qed
  with Some show ?thesis by simp
qed

definition heap_ledger :: "handler_heap \<Rightarrow> ledger" where
  "heap_ledger s = \<lparr>led_holds = (\<lambda>a. map_option (\<lambda>h. owned (Some h)) (heap_slots s a)),
     led_next = heap_next s, led_destroyed = heap_destroyed s\<rparr>"

lemma heap_ledger_simps [simp]:
  "led_holds (heap_ledger s) a = map_option (\<lambda>h. owned (Some h)) (heap_slots s a)"
  "led_next (heap_ledger s) = heap_next s" "led_destroyed (heap_ledger s) = heap_destroyed s"
  by (simp_all add: heap_ledger_def)

lemma destruct_held:
  assumes "heap_slots s a = Some h" "well_formed h"
  shows "handler_destruct h = Some (held (heap_ledger s) a)"
  using assms by (auto simp: handler_destruct_def held_def well_formed_def split: option.splits)

lemma storage_memcpy_copyable: "\<forall>f. copyable f \<Longrightarrow> storage_memcpy copyable st = st"
  by (simp add: storage_memcpy_def split: option.splits)

lemma heap_inv_init: "heap_inv heap_init"
  by (auto simp: heap_inv_def heap_init_def own_inv_def owners_def)

text \<open>With callables that may be copied as bytes, every operation is defined, does what the ledger says
  and keeps the invariant.\<close>

lemma handler_exec_ledger:
  assumes copyable: "\<forall>f. copyable f" and inv: "heap_inv s" and ok: "op_allowed capacity size_of s op"
  shows "\<exists>s'. handler_exec capacity size_of copyable op s = Some s' \<and>
    heap_ledger s' = ledger_step op (heap_ledger s) \<and> (\<forall>a h. heap_slots s' a = Some h \<longrightarrow> well_formed h)"
proof -
  have wf: "well_formed h" if "heap_slots s a = Some h" for a h using inv that by (auto simp: heap_inv_def)
  note copies = storage_memcpy_copyable [OF copyable]
  show ?thesis
  proof (cases op)
    case (Default_at a)
    then show ?thesis using wf by (auto simp: heap_ledger_def handler_empty_def well_formed_def)
  next
    case (Construct_at a)
    then show ?thesis using ok wf by (auto simp: heap_ledger_def handler_make_def well_formed_def)
  next
    case (Move_to a b)
    then obtain src where "heap_slots s a = None" "heap_slots s b = Some src" using ok by auto
    then show ?thesis
      using Move_to wf by (auto simp: heap_ledger_def handler_move_def copies well_formed_def fun_eq_iff)
  next
    case (Assign_to a b)
    then obtain t src where ts: "heap_slots s a = Some t" "heap_slots s b = Some src" using ok by auto
    show ?thesis
    proof (cases "a = b")
      case True
      then show ?thesis using Assign_to wf by (auto simp: handler_move_assign_def)
    next
      case False
      then show ?thesis
        using Assign_to ts wf destruct_held [OF ts(1) wf [OF ts(1)]]
        by (auto simp: handler_move_assign_def copies heap_ledger_def well_formed_def fun_eq_iff held_def)
    qed
  next
    case (Destruct_at a)
    then obtain t where t: "heap_slots s a = Some t" using ok by auto
    then show ?thesis
      using Destruct_at wf destruct_held [OF t wf [OF t]] by (auto simp: heap_ledger_def held_def)
  qed
qed

text \<open>The ledger keeps the owners apart.\<close>

definition ledger_owners :: "ledger \<Rightarrow> nat \<rightharpoonup> nat" where
  "ledger_owners l = (\<lambda>a. Option.bind (led_holds l a) id)"

definition ledger_inv :: "ledger \<Rightarrow> bool" where
  "ledger_inv l \<longleftrightarrow> own_inv (ledger_owners l) (led_next l) (led_destroyed l)"

lemma ledger_owners_heap: "ledger_owners (heap_ledger s) = owners s"
  by (rule ext) (simp add: ledger_owners_def owners_def owned_def split: option.splits)

lemma held_ledger_owners: "held l a = (case ledger_owners l a of Some k \<Rightarrow> [k] | None \<Rightarrow> [])"
  by (auto simp: held_def ledger_owners_def split: option.splits)

lemma ledger_step_inv:
  assumes inv: "ledger_inv (heap_ledger s)" and ok: "op_allowed capacity size_of s op"
  shows "ledger_inv (ledger_step op (heap_ledger s))"
proof -
  define l where "l = heap_ledger s"
  have own: "own_inv (ledger_owners l) (led_next l) (led_destroyed l)"
    using inv by (simp add: ledger_inv_def l_def)
  have free: "ledger_owners l a = None" if "heap_slots s a = None" for a
    using that by (simp add: l_def ledger_owners_def)
  have "ledger_inv (ledger_step op l)"
  proof (cases op)
    case (Default_at a)
    with free [of a] ok have "ledger_owners (ledger_step op l) = ledger_owners l"
      by (auto simp: ledger_owners_def fun_eq_iff)
    with own Default_at show ?thesis by (simp add: ledger_inv_def)
  next
    case (Construct_at a)
    then have "ledger_owners (ledger_step op l) = (ledger_owners l)(a \<mapsto> led_next l)"
      by (auto simp: ledger_owners_def fun_eq_iff)
    with own_new [OF own free, of a] ok Construct_at show ?thesis by (simp add: ledger_inv_def)
  next
    case (Move_to a b)
    then have "ledger_owners (ledger_step op l) = (ledger_owners l)(a := ledger_owners l b, b := None)" "a \<noteq> b"
      using ok by (auto simp: ledger_owners_def fun_eq_iff)
    with own_move [OF own free, of a b] ok Move_to show ?thesis by (simp add: ledger_inv_def)
  next
    case (Assign_to a b)
    show ?thesis
    proof (cases "a = b")
      case False
      let ?o = "(ledger_owners l)(a := None)"
      have "ledger_owners (ledger_step op l) = ?o(a := ?o b, b := None)"
        using Assign_to False by (auto simp: ledger_owners_def fun_eq_iff)
      with own_move [OF own_drop [OF own, of a], of a b] Assign_to False show ?thesis
        by (simp add: ledger_inv_def held_ledger_owners)
    qed (use own Assign_to in \<open>simp add: ledger_inv_def\<close>)
  next
    case (Destruct_at a)
    then have "ledger_owners (ledger_step op l) = (ledger_owners l)(a := None)"
      by (auto simp: ledger_owners_def fun_eq_iff)
    with own_drop [OF own, of a] Destruct_at show ?thesis by (simp add: ledger_inv_def held_ledger_owners)
  qed
  then show ?thesis by (simp add: l_def)
qed

lemma handler_history_inv:
  assumes "handler_history capacity size_of copyable ops s" and "\<forall>f. copyable f"
  shows "heap_inv s \<and> heap_ledger s = fold ledger_step ops ledger_init"
  using assms(1)
proof (induction rule: handler_history.induct)
  case init
  have "heap_ledger heap_init = ledger_init" by (simp add: heap_ledger_def heap_init_def ledger_init_def)
  then show ?case by (simp add: heap_inv_init)
next
  case (step ops s op s')
  then have inv: "heap_inv s" by simp
  obtain t where t: "handler_exec capacity size_of copyable op s = Some t"
      "heap_ledger t = ledger_step op (heap_ledger s)" "\<forall>a h. heap_slots t a = Some h \<longrightarrow> well_formed h"
    using handler_exec_ledger [OF assms(2) inv step.hyps(2)] by blast
  with step.hyps(3) have "t = s'" by simp
  moreover have "ledger_inv (heap_ledger t)"
    unfolding t(2) using ledger_step_inv [OF _ step.hyps(2)] inv by (simp add: heap_inv_def ledger_inv_def ledger_owners_heap)
  ultimately show ?case
    using t(2,3) step.IH by (simp add: heap_inv_def ledger_inv_def ledger_owners_heap)
qed

text \<open>A callable that may not be copied as bytes, moved once: the new handler has its functions and no object.\<close>

lemma moved_not_copyable:
  assumes "\<not> copyable 0" "size_of 0 \<le> capacity"
  shows "\<exists>s h. handler_history capacity size_of copyable [Construct_at 0, Move_to 1 0] s \<and> heap_slots s 1 = Some h \<and>
    handler_engaged h \<and> handler_call h args = None \<and> handler_exec capacity size_of copyable (Destruct_at 1) s = None"
proof -
  let ?h = "\<lparr>ih_storage = Some 0, ih_invoke = True, ih_destroy = True\<rparr> :: nat inplace_handler"
  let ?s1 = "heap_init\<lparr>heap_slots := (heap_slots heap_init)(0 \<mapsto> ?h), heap_next := heap_next heap_init + 1\<rparr>"
  let ?s2 = "?s1\<lparr>heap_slots := (heap_slots ?s1)(1 \<mapsto> ?h\<lparr>ih_storage := None\<rparr>, 0 \<mapsto> ?h\<lparr>ih_invoke := False, ih_destroy := False\<rparr>)\<rparr>"
  have "handler_history capacity size_of copyable ([] @ [Construct_at 0]) ?s1"
    by (rule handler_history.step [OF init]) (use assms(2) in \<open>simp_all add: heap_init_def handler_make_def\<close>)
  then have "handler_history capacity size_of copyable (([] @ [Construct_at 0]) @ [Move_to 1 0]) ?s2"
    by (rule handler_history.step)
      (use assms(1) in \<open>simp_all add: heap_init_def handler_move_def storage_memcpy_def\<close>)
  moreover have "handler_exec capacity size_of copyable (Destruct_at 1) ?s2 = None"
    by (simp add: handler_destruct_def)
  ultimately show ?thesis by (intro exI [of _ ?s2]) (simp add: handler_engaged_def handler_call_def)
qed

text \<open>C19. The type-erased handlers manage the callables they hold correctly if, and only if, the callables
  may be copied as bytes. If they may, then through any sequence of constructions, moves, assignments
  (also of a handler to itself) and destructions, every operation is defined, and the handlers hold and
  destroy the callables as the ledger says: a move takes the callable over, an assignment destroys the
  one it replaces and takes the other over, an assignment to itself does nothing. No callable is destroyed
  twice or called after its destruction, each one not yet destroyed is owned by exactly one handler, and
  once no handler is left all of them have been destroyed. If a callable may not be copied as bytes,
  which the class does not exclude, calling or destroying the handler it was moved to is undefined.\<close>

theorem handlers_own_callables:
  shows "((\<forall>n. copyable n) \<and> handler_history capacity size_of copyable ops s \<longrightarrow>
      (\<forall>op. op_allowed capacity size_of s op \<longrightarrow> handler_exec capacity size_of copyable op s \<noteq> None) \<and>
      heap_ledger s = fold ledger_step ops ledger_init \<and>
      distinct (heap_destroyed s) \<and>
      (\<forall>a h. heap_slots s a = Some h \<and> handler_engaged h \<longrightarrow>
        (\<exists>n. handler_call h args = Some (n, args) \<and> n < heap_next s \<and> n \<notin> set (heap_destroyed s))) \<and>
      (\<forall>n < heap_next s. n \<in> set (heap_destroyed s) \<or>
        (\<exists>!a. \<exists>h. heap_slots s a = Some h \<and> ih_destroy h \<and> ih_storage h = Some n)) \<and>
      (heap_slots s = Map.empty \<longrightarrow> set (heap_destroyed s) = {..<heap_next s})) \<and>
    (\<not> copyable 0 \<and> size_of 0 \<le> capacity \<longrightarrow>
      (\<exists>s h. handler_history capacity size_of copyable [Construct_at 0, Move_to 1 0] s \<and> heap_slots s 1 = Some h \<and>
        handler_engaged h \<and> handler_call h args = None \<and> handler_exec capacity size_of copyable (Destruct_at 1) s = None))"
proof (rule conjI, rule impI, elim conjE)
  assume copyable: "\<forall>n. copyable n" and hist: "handler_history capacity size_of copyable ops s"
  have inv: "heap_inv s" and led: "heap_ledger s = fold ledger_step ops ledger_init"
    using handler_history_inv [OF hist copyable] by simp_all
  have own: "owners s a = Some n \<longleftrightarrow> (\<exists>h. heap_slots s a = Some h \<and> ih_destroy h \<and> ih_storage h = Some n)" for a n
    by (auto simp: owners_def owned_def split: option.splits)
  have own_inv: "own_inv (owners s) (heap_next s) (heap_destroyed s)" using inv by (simp add: heap_inv_def)
  have call: "\<exists>n. handler_call h args = Some (n, args) \<and> n < heap_next s \<and> n \<notin> set (heap_destroyed s)"
    if "heap_slots s a = Some h" "handler_engaged h" for a h
  proof -
    have "well_formed h" using inv that(1) by (auto simp: heap_inv_def)
    with that(2) obtain n where "ih_invoke h" "ih_destroy h" "ih_storage h = Some n"
      by (auto simp: well_formed_def handler_engaged_def)
    moreover from this have "owners s a = Some n" using that(1) own by blast
    ultimately show ?thesis
      using own_inv unfolding own_inv_def by (auto simp: handler_call_def)
  qed
  have one: "n \<in> set (heap_destroyed s) \<or> (\<exists>!a. \<exists>h. heap_slots s a = Some h \<and> ih_destroy h \<and> ih_storage h = Some n)"
    if "n < heap_next s" for n
    using own_invD(1) [OF own_inv, of _ n] own_invD(2) [OF own_inv, of n] that unfolding own [symmetric] by blast
  have all: "set (heap_destroyed s) = {..<heap_next s}" if "heap_slots s = Map.empty"
  proof -
    have "owners s = Map.empty" using that by (simp add: owners_def)
    then show ?thesis using own_inv unfolding own_inv_def by auto
  qed
  have "handler_exec capacity size_of copyable op s \<noteq> None" if "op_allowed capacity size_of s op" for op
    using handler_exec_ledger [OF copyable inv that] by auto
  moreover have "distinct (heap_destroyed s)" using own_inv unfolding own_inv_def by blast
  ultimately show "(\<forall>op. op_allowed capacity size_of s op \<longrightarrow> handler_exec capacity size_of copyable op s \<noteq> None) \<and>
      heap_ledger s = fold ledger_step ops ledger_init \<and> distinct (heap_destroyed s) \<and>
      (\<forall>a h. heap_slots s a = Some h \<and> handler_engaged h \<longrightarrow>
        (\<exists>n. handler_call h args = Some (n, args) \<and> n < heap_next s \<and> n \<notin> set (heap_destroyed s))) \<and>
      (\<forall>n < heap_next s. n \<in> set (heap_destroyed s) \<or>
        (\<exists>!a. \<exists>h. heap_slots s a = Some h \<and> ih_destroy h \<and> ih_storage h = Some n)) \<and>
      (heap_slots s = Map.empty \<longrightarrow> set (heap_destroyed s) = {..<heap_next s})"
    using led call one all by blast
qed (use moved_not_copyable [of copyable size_of capacity args] in blast)

text \<open>A handler constructed, assigned to itself, moved and destroyed.\<close>

lemma handlers_own_callables_witness:
  "\<exists>s. handler_history 48 (\<lambda>_. 8) (\<lambda>_. True) [Construct_at 0, Assign_to 0 0, Move_to 1 0, Destruct_at 0, Destruct_at 1] s \<and>
     heap_slots s = Map.empty \<and> heap_ledger s = \<lparr>led_holds = Map.empty, led_next = 1, led_destroyed = [0]\<rparr> \<and>
     set (heap_destroyed s) = {..<heap_next s}"
proof -
  let ?hist = "handler_history 48 (\<lambda>_. 8) (\<lambda>_. True)"
  let ?h = "\<lparr>ih_storage = Some 0, ih_invoke = True, ih_destroy = True\<rparr> :: nat inplace_handler"
  let ?e = "?h\<lparr>ih_invoke := False, ih_destroy := False\<rparr>"
  note simps = handler_make_def handler_move_assign_def handler_move_def storage_memcpy_def handler_destruct_def heap_init_def
  have 1: "?hist ([] @ [Construct_at 0]) \<lparr>heap_slots = [0 \<mapsto> ?h], heap_next = 1, heap_destroyed = []\<rparr>"
    by (rule step [OF init]) (simp_all add: simps)
  have 2: "?hist (([] @ [Construct_at 0]) @ [Assign_to 0 0]) \<lparr>heap_slots = [0 \<mapsto> ?h], heap_next = 1, heap_destroyed = []\<rparr>"
    by (rule step [OF 1]) (simp_all add: simps)
  have 3: "?hist ((([] @ [Construct_at 0]) @ [Assign_to 0 0]) @ [Move_to 1 0])
      \<lparr>heap_slots = [0 \<mapsto> ?e, 1 \<mapsto> ?h], heap_next = 1, heap_destroyed = []\<rparr>"
    by (rule step [OF 2]) (simp_all add: simps fun_eq_iff)
  have 4: "?hist (((([] @ [Construct_at 0]) @ [Assign_to 0 0]) @ [Move_to 1 0]) @ [Destruct_at 0])
      \<lparr>heap_slots = [1 \<mapsto> ?h], heap_next = 1, heap_destroyed = []\<rparr>"
    by (rule step [OF 3]) (simp_all add: simps fun_eq_iff)
  have 5: "?hist ((((([] @ [Construct_at 0]) @ [Assign_to 0 0]) @ [Move_to 1 0]) @ [Destruct_at 0]) @ [Destruct_at 1])
      \<lparr>heap_slots = Map.empty, heap_next = 1, heap_destroyed = [0]\<rparr>"
    by (rule step [OF 4]) (simp_all add: simps fun_eq_iff)
  let ?s = "\<lparr>heap_slots = Map.empty, heap_next = 1, heap_destroyed = [0]\<rparr>"
  have "(\<forall>n :: nat. True) \<and> ?hist [Construct_at 0, Assign_to 0 0, Move_to 1 0, Destruct_at 0, Destruct_at 1] ?s"
    using 5 by simp
  note all = mp [OF conjunct1 [OF handlers_own_callables] this]
  have "heap_ledger ?s = \<lparr>led_holds = Map.empty, led_next = 1, led_destroyed = [0]\<rparr>"
    unfolding all [THEN conjunct2, THEN conjunct1] by (simp add: ledger_init_def held_def fun_eq_iff)
  moreover have "heap_slots ?s = Map.empty \<longrightarrow> set (heap_destroyed ?s) = {..<heap_next ?s}"
    by (rule all [THEN conjunct2, THEN conjunct2, THEN conjunct2, THEN conjunct2, THEN conjunct2])
  ultimately show ?thesis using 5 by (intro exI [of _ ?s]) simp
qed

end
