(* ===== verification/Io_Framer.thy ===== *)
theory Io_Framer
  imports Wire_Header
begin

text \<open>
  \<open>io/framer.hpp\<close>: the framer of a TCP byte stream. \<open>consumed\<close> bytes at the front of the buffer are the
  message handed out last; they are erased by the next call. The loop behind the label \<open>rescan\<close> drops
  magic cookies and, one byte at a time, headers whose length is too large; it returns the buffer and
  the size of the message at its front, 0 when more data is needed.
\<close>

text \<open>The enum of \<open>framer.hpp\<close>; no operation of the framer returns it.\<close>

datatype frame_result = Frame_ok | Frame_need_more | Frame_magic_cookie | Frame_invalid

record framer =
  fr_buf :: "byte list"
  fr_consumed :: nat

definition framer_init :: framer where
  "framer_init = \<lparr>fr_buf = [], fr_consumed = 0\<rparr>"

definition framer_feed :: "framer \<Rightarrow> byte list \<Rightarrow> framer" where
  "framer_feed f data = f\<lparr>fr_buf := fr_buf f @ data\<rparr>"

text \<open>The condition under which 16 bytes are dropped as a magic cookie.\<close>

definition is_cookie :: "byte list \<Rightarrow> bool option" where
  "is_cookie buf = do {
     svc \<leftarrow> map_option id_value (hdr_service buf);
     mtd \<leftarrow> map_option id_value (hdr_method buf);
     if svc = 0xFFFF \<and> mtd = 0x0000 \<or> svc = 0xDEAD \<and> mtd = 0xBEEF
     then do { len \<leftarrow> hdr_length buf; Some (unat len = someip_header_size) }
     else Some False
   }"

text \<open>\<open>erase (begin, begin + n)\<close>\<close>

definition erase_front :: "byte list \<Rightarrow> nat \<Rightarrow> byte list option" where
  "erase_front buf n = (if n \<le> length buf then Some (drop n buf) else None)"

function rescan :: "byte list \<Rightarrow> (byte list \<times> nat) option" where
  "rescan buf =
     (if length buf < header_size then Some (buf, 0)
      else case is_cookie buf of
          None \<Rightarrow> None
        | Some True \<Rightarrow> (case erase_front buf header_size of None \<Rightarrow> None | Some buf' \<Rightarrow> rescan buf')
        | Some False \<Rightarrow>
            (case hdr_message_size buf of
               None \<Rightarrow> None
             | Some msg_size \<Rightarrow>
                 if max_tcp_message_size < msg_size
                 then (case erase_front buf 1 of None \<Rightarrow> None | Some buf' \<Rightarrow> rescan buf')
                 else if length buf < msg_size then Some (buf, 0)
                 else Some (buf, msg_size)))"
  by pat_completeness auto
termination
  by (relation "measure length") (auto simp: erase_front_def header_size_def split: if_splits)

declare rescan.simps [simp del]

text \<open>\<open>next_message\<close>: the framer and the message, empty when there is none.\<close>

definition next_message :: "framer \<Rightarrow> (framer \<times> byte list) option" where
  "next_message f = do {
     f \<leftarrow> (if 0 < fr_consumed f
           then do { buf \<leftarrow> erase_front (fr_buf f) (fr_consumed f); Some (f\<lparr>fr_buf := buf, fr_consumed := 0\<rparr>) }
           else Some f);
     (buf, msg_size) \<leftarrow> rescan (fr_buf f);
     Some (f\<lparr>fr_buf := buf, fr_consumed := msg_size\<rparr>, take msg_size buf)
   }"

definition framer_reset :: "framer \<Rightarrow> framer" where
  "framer_reset f = f\<lparr>fr_buf := [], fr_consumed := 0\<rparr>"

definition framer_buffered :: "framer \<Rightarrow> nat" where
  "framer_buffered f = length (fr_buf f)"

end
