(* ===== verification/Io_Framer_Correct.thy ===== *)
theory Io_Framer_Correct
  imports Io_Framer
begin

text \<open>
  Correctness of the framer: it is safe and returns on every byte stream, what it hands out does not
  depend on how the stream is cut into chunks, and a stream of messages comes out as those messages.
\<close>

section \<open>The reference parser\<close>

definition cookie :: "header_fields \<Rightarrow> bool" where
  "cookie h \<longleftrightarrow> (f_service h = Strong_id 0xFFFF \<and> f_method h = Strong_id 0 \<or>
     f_service h = Strong_id 0xDEAD \<and> f_method h = Strong_id 0xBEEF) \<and> f_length h = 8"

definition frame_size :: "header_fields \<Rightarrow> nat" where
  "frame_size h = 16 + (unat (f_length h) - 8)"

lemma id_value_eq: "id_value s = v \<longleftrightarrow> s = Strong_id v"
  by (cases s) auto

lemma is_cookie_bytes: "is_cookie (header_bytes h @ r) = Some (cookie h)"
proof -
  have "unat (f_length h) = 8 \<longleftrightarrow> f_length h = 8" by (simp add: word_unat_eq_iff)
  then show ?thesis
    by (auto simp: is_cookie_def hdr_getters cookie_def wire_consts id_value_eq)
qed

lemma message_size_bytes: "hdr_message_size (header_bytes h @ r) = Some (frame_size h)"
  by (auto simp: hdr_getters frame_size_def unat_sub word_le_nat_alt)

lemma rescan_bytes:
  "rescan (header_bytes h @ r) =
     (if cookie h then rescan r
      else if 4194304 < frame_size h then rescan (drop 1 (header_bytes h @ r))
      else if 16 + length r < frame_size h then Some (header_bytes h @ r, 0)
      else Some (header_bytes h @ r, frame_size h))"
  by (subst rescan.simps) (simp add: is_cookie_bytes message_size_bytes erase_front_def wire_consts)

lemma rescan_short: "length buf < 16 \<Longrightarrow> rescan buf = Some (buf, 0)"
  by (subst rescan.simps) (simp add: wire_consts)

text \<open>The scan is total; it only drops bytes at the front, and what it finds is inside the buffer.\<close>

lemma rescan_total:
  "\<exists>k n. rescan buf = Some (drop k buf, n) \<and> k + n \<le> length buf \<and> (n = 0 \<or> 16 \<le> n)"
proof (induction "length buf" arbitrary: buf rule: less_induct)
  case less
  show ?case
  proof (cases "length buf < 16")
    case True
    then show ?thesis by (intro exI [of _ 0]) (simp add: rescan_short)
  next
    case False
    then obtain h r where buf: "buf = header_bytes h @ r" using header_cases [of buf] by auto
    have step: ?thesis if "rescan buf = rescan (drop j buf)" "0 < j" "j \<le> length buf" for j
    proof -
      have "length (drop j buf) < length buf" using that by simp
      from less [OF this] obtain k n where "rescan (drop j buf) = Some (drop k (drop j buf), n)"
        "k + n \<le> length (drop j buf)" "n = 0 \<or> 16 \<le> n" by blast
      with that show ?thesis by (intro exI [of _ "j + k"] exI [of _ n]) (auto simp: add.commute)
    qed
    consider "cookie h" | "\<not> cookie h" "4194304 < frame_size h" | "\<not> cookie h" "\<not> 4194304 < frame_size h" by blast
    then show ?thesis
    proof cases
      case 1
      then show ?thesis using step [of 16] by (simp add: buf rescan_bytes)
    next
      case 2
      then show ?thesis using step [of 1] False rescan_bytes [of h r] by (simp add: buf [symmetric])
    next
      case 3
      then show ?thesis
        using rescan_bytes [of h r]
        by (intro exI [of _ 0] exI [of _ "if 16 + length r < frame_size h then 0 else frame_size h"])
          (auto simp: buf frame_size_def)
    qed
  qed
qed

definition scan :: "byte list \<Rightarrow> byte list \<times> nat" where
  "scan buf = the (rescan buf)"

lemma rescan_scan: "rescan buf = Some (scan buf)"
  using rescan_total [of buf] by (auto simp: scan_def)

lemma scan_cases:
  obtains k n where "scan buf = (drop k buf, n)" "k + n \<le> length buf" "n = 0 \<or> 16 \<le> n"
  using rescan_total [of buf] unfolding rescan_scan by auto

lemma scan_decreases: "scan buf = (buf', n) \<Longrightarrow> n \<noteq> 0 \<Longrightarrow> length (drop n buf') < length buf"
  by (rule scan_cases [of buf]) auto

text \<open>The messages in a byte sequence and the bytes left over.\<close>

function frames :: "byte list \<Rightarrow> byte list list \<times> byte list" where
  "frames buf =
     (case scan buf of (buf', n) \<Rightarrow>
        if n = 0 then ([], buf')
        else case frames (drop n buf') of (ms, r) \<Rightarrow> (take n buf' # ms, r))"
  by pat_completeness auto
termination
proof (relation "measure length")
  show "(drop n b, buf) \<in> measure length" if "(b, n) = scan buf" "n \<noteq> 0" for buf b n
    using scan_decreases [OF that(1) [symmetric] that(2)] by simp
qed simp

declare frames.simps [simp del]

text \<open>More data never changes what the front of the buffer is.\<close>

lemma scan_append_found:
  assumes "scan buf = (buf', n)" "0 < n"
  shows "scan (buf @ zs) = (buf' @ zs, n)"
  using assms
proof (induction "length buf" arbitrary: buf rule: less_induct)
  case less
  have "\<not> length buf < 16" using less.prems by (auto simp: scan_def rescan_short)
  then obtain h r where buf: "buf = header_bytes h @ r" using header_cases [of buf] by auto
  have step: ?case if "rescan buf = rescan (drop j buf)" "rescan (buf @ zs) = rescan (drop j buf @ zs)"
    "0 < j" "j \<le> length buf" for j
    using less(1) [of "drop j buf"] less.prems that by (simp add: scan_def)
  consider "cookie h" | "\<not> cookie h" "4194304 < frame_size h" | "\<not> cookie h" "\<not> 4194304 < frame_size h" by blast
  then show ?case
  proof cases
    case 1
    then show ?thesis using step [of 16] by (simp add: buf rescan_bytes)
  next
    case 2
    then show ?thesis
      using step [of 1] rescan_bytes [of h r] rescan_bytes [of h "r @ zs"] \<open>\<not> length buf < 16\<close> by (simp add: buf)
  next
    case 3
    then show ?thesis using less.prems by (auto simp: scan_def buf rescan_bytes split: if_splits)
  qed
qed

lemma scan_append_more:
  assumes "scan buf = (buf', 0)"
  shows "scan (buf @ zs) = scan (buf' @ zs)"
  using assms
proof (induction "length buf" arbitrary: buf rule: less_induct)
  case less
  show ?case
  proof (cases "length buf < 16")
    case True
    with less.prems show ?thesis by (simp add: scan_def rescan_short)
  next
    case False
    then obtain h r where buf: "buf = header_bytes h @ r" using header_cases [of buf] by auto
    have step: ?thesis if "rescan buf = rescan (drop j buf)" "rescan (buf @ zs) = rescan (drop j buf @ zs)"
      "0 < j" "j \<le> length buf" for j
      using less(1) [of "drop j buf"] less.prems that by (simp add: scan_def)
    consider "cookie h" | "\<not> cookie h" "4194304 < frame_size h" | "\<not> cookie h" "\<not> 4194304 < frame_size h" by blast
    then show ?thesis
    proof cases
      case 1
      then show ?thesis using step [of 16] by (simp add: buf rescan_bytes)
    next
      case 2
      then show ?thesis
        using step [of 1] rescan_bytes [of h r] rescan_bytes [of h "r @ zs"] False by (simp add: buf)
    next
      case 3
      then show ?thesis
        using less.prems by (auto simp: scan_def buf rescan_bytes frame_size_def split: if_splits)
    qed
  qed
qed

lemma frames_append:
  "frames (xs @ ys) = (let (ms, r) = frames xs; (ms', r') = frames (r @ ys) in (ms @ ms', r'))"
proof (induction "length xs" arbitrary: xs rule: less_induct)
  case less
  obtain k n where s: "scan xs = (drop k xs, n)" "k + n \<le> length xs" "n = 0 \<or> 16 \<le> n" by (rule scan_cases)
  show ?case
  proof (cases "n = 0")
    case True
    then have "frames xs = ([], drop k xs)" using s by (subst frames.simps) simp
    moreover have "frames (xs @ ys) = frames (drop k xs @ ys)"
      using scan_append_more [of xs "drop k xs" ys] s True by (subst (1 2) frames.simps) simp
    ultimately show ?thesis by (simp add: split_def)
  next
    case False
    then have "length (drop n (drop k xs)) < length xs" using s by simp
    note IH = less [OF this]
    have "frames xs = (case frames (drop n (drop k xs)) of (ms, r) \<Rightarrow> (take n (drop k xs) # ms, r))"
      using s False by (subst frames.simps) simp
    moreover have "frames (xs @ ys) = (case frames (drop n (drop k xs) @ ys) of (ms, r) \<Rightarrow> (take n (drop k xs) # ms, r))"
      using scan_append_found [of xs "drop k xs" n ys] s False by (subst frames.simps) simp
    ultimately show ?thesis using IH by (simp add: split_def Let_def)
  qed
qed

lemma frames_rest: "frames (snd (frames xs)) = ([], snd (frames xs))"
  using frames_append [of xs "[]"] by (simp add: split_def Let_def prod_eq_iff)

section \<open>The framer against the reference\<close>

text \<open>What is in the buffer and not yet handed out.\<close>

definition pending :: "framer \<Rightarrow> byte list" where
  "pending f = drop (fr_consumed f) (fr_buf f)"

definition framer_inv :: "framer \<Rightarrow> bool" where
  "framer_inv f \<longleftrightarrow> fr_consumed f \<le> length (fr_buf f)"

lemma next_message_scan:
  assumes "framer_inv f"
  shows "next_message f = (case scan (pending f) of (buf, n) \<Rightarrow> Some (\<lparr>fr_buf = buf, fr_consumed = n\<rparr>, take n buf))"
  using assms
  by (cases f) (auto simp: next_message_def framer_inv_def pending_def erase_front_def rescan_scan)

text \<open>The documented use: feed a chunk, then take messages until there is none.\<close>

fun drain :: "nat \<Rightarrow> framer \<Rightarrow> (framer \<times> byte list list) option" where
  "drain 0 f = None"
| "drain (Suc fuel) f = do {
     (f, msg) \<leftarrow> next_message f;
     if msg = [] then Some (f, [])
     else do { (f, msgs) \<leftarrow> drain fuel f; Some (f, msg # msgs) }
   }"

fun feed_all :: "nat \<Rightarrow> framer \<Rightarrow> byte list list \<Rightarrow> (framer \<times> byte list list) option" where
  "feed_all fuel f [] = Some (f, [])"
| "feed_all fuel f (c # cs) = do {
     (f, msgs) \<leftarrow> drain fuel (framer_feed f c);
     (f, msgs') \<leftarrow> feed_all fuel f cs;
     Some (f, msgs @ msgs')
   }"

lemma drain_frames:
  "framer_inv f \<Longrightarrow> length (pending f) < fuel \<Longrightarrow>
   \<exists>f'. drain fuel f = Some (f', fst (frames (pending f))) \<and> framer_inv f' \<and> pending f' = snd (frames (pending f)) \<and>
     length (pending f') \<le> length (pending f)"
proof (induction fuel arbitrary: f)
  case (Suc fuel)
  obtain k n where s: "scan (pending f) = (drop k (pending f), n)" "k + n \<le> length (pending f)" "n = 0 \<or> 16 \<le> n"
    by (rule scan_cases)
  let ?f = "\<lparr>fr_buf = drop k (pending f), fr_consumed = n\<rparr>"
  have nm: "next_message f = Some (?f, take n (drop k (pending f)))"
    using next_message_scan [OF Suc.prems(1)] s by simp
  have inv: "framer_inv ?f" using s by (simp add: framer_inv_def)
  have p: "pending ?f = drop n (drop k (pending f))" by (simp add: pending_def)
  show ?case
  proof (cases "n = 0")
    case True
    moreover have "frames (pending f) = ([], drop k (pending f))" using s True by (subst frames.simps) simp
    ultimately show ?thesis using nm inv p by auto
  next
    case False
    have fr: "frames (pending f) = (case frames (pending ?f) of (ms, r) \<Rightarrow> (take n (drop k (pending f)) # ms, r))"
      unfolding p using s False by (subst frames.simps) simp
    have "length (pending ?f) < fuel" using Suc.prems(2) s False p by simp
    then obtain f' where "drain fuel ?f = Some (f', fst (frames (pending ?f)))" "framer_inv f'"
      "pending f' = snd (frames (pending ?f))" "length (pending f') \<le> length (pending ?f)"
      using Suc.IH [OF inv] by blast
    then show ?thesis
      using nm fr False s p by (auto simp: split_def)
  qed
qed simp

lemma feed_all_frames:
  "framer_inv f \<Longrightarrow> frames (pending f) = ([], pending f) \<Longrightarrow> length (pending f) + length (concat cs) < fuel \<Longrightarrow>
   \<exists>f'. feed_all fuel f cs = Some (f', fst (frames (pending f @ concat cs))) \<and>
     framer_inv f' \<and> pending f' = snd (frames (pending f @ concat cs))"
proof (induction cs arbitrary: f)
  case (Cons c cs)
  let ?g = "framer_feed f c"
  have g: "framer_inv ?g" "pending ?g = pending f @ c"
    using Cons.prems(1) by (auto simp: framer_inv_def pending_def framer_feed_def)
  obtain f1 where f1: "drain fuel ?g = Some (f1, fst (frames (pending f @ c)))" "framer_inv f1"
    "pending f1 = snd (frames (pending f @ c))" "length (pending f1) \<le> length (pending f @ c)"
    using drain_frames [OF g(1), of fuel] g(2) Cons.prems(3) by auto
  have idle: "frames (pending f1) = ([], pending f1)"
    unfolding f1(3) by (rule frames_rest)
  have "length (pending f1) + length (concat cs) < fuel" using f1(4) Cons.prems(3) by simp
  then obtain f' where "feed_all fuel f1 cs = Some (f', fst (frames (pending f1 @ concat cs)))" "framer_inv f'"
    "pending f' = snd (frames (pending f1 @ concat cs))"
    using Cons.IH [OF f1(2) idle] by blast
  moreover have "frames (pending f @ concat (c # cs)) =
      (fst (frames (pending f @ c)) @ fst (frames (pending f1 @ concat cs)), snd (frames (pending f1 @ concat cs)))"
    using frames_append [of "pending f @ c" "concat cs"] f1(3) by (simp add: split_def Let_def)
  ultimately show ?case using f1(1) by simp
qed simp

section \<open>Streams of messages\<close>

text \<open>What a peer sends: a complete message of at most 4 MiB, or a cookie.\<close>

definition message_or_cookie :: "byte list \<Rightarrow> bool" where
  "message_or_cookie x \<longleftrightarrow> (\<exists>h p. x = header_bytes h @ p \<and>
     (if cookie h then p = [] else length x = frame_size h \<and> length x \<le> 4194304))"

lemma frames_short: "length r < 16 \<Longrightarrow> frames r = ([], r)"
  by (subst frames.simps) (simp add: scan_def rescan_short)

lemma frames_item:
  assumes "message_or_cookie x"
  shows "frames (x @ r) = (case frames r of (ms, r) \<Rightarrow> (if is_cookie x = Some True then ms else x # ms, r))"
proof -
  obtain h p where x: "x = header_bytes h @ p" "if cookie h then p = [] else length x = frame_size h \<and> length x \<le> 4194304"
    using assms unfolding message_or_cookie_def by blast
  show ?thesis
  proof (cases "cookie h")
    case True
    then have "scan (x @ r) = scan r" "is_cookie x = Some True"
      using x rescan_bytes [of h r] is_cookie_bytes [of h p] by (simp_all add: scan_def)
    then show ?thesis by (subst (1 2) frames.simps) (simp add: split_def)
  next
    case False
    then have len: "length x = frame_size h" "length x \<le> 4194304" using x(2) by auto
    then have "scan (x @ r) = (x @ r, length x)"
      using False x(1) rescan_bytes [of h "p @ r"] by (simp add: scan_def)
    moreover have "is_cookie x = Some False" "length x \<noteq> 0" using False x(1) is_cookie_bytes [of h p] by simp_all
    ultimately show ?thesis by (subst frames.simps) (simp add: split_def)
  qed
qed

lemma frames_items:
  "(\<And>x. x \<in> set xs \<Longrightarrow> message_or_cookie x) \<Longrightarrow> length tail < 16 \<Longrightarrow>
   frames (concat xs @ tail) = (filter (\<lambda>x. is_cookie x \<noteq> Some True) xs, tail)"
  by (induction xs) (simp_all add: frames_short frames_item)

section \<open>Properties\<close>

lemma feed_all_init:
  assumes "length (concat cs) < fuel"
  shows "\<exists>f. feed_all fuel framer_init cs = Some (f, fst (frames (concat cs))) \<and> pending f = snd (frames (concat cs))"
  using feed_all_frames [of framer_init cs fuel] assms
  by (auto simp: framer_inv_def framer_init_def pending_def frames_short)

text \<open>The framer is safe and live on every byte stream, and what comes out does not depend on how TCP
  cuts the stream: feeding any two sequences of chunks with the same bytes, and taking messages after
  each chunk until there is none, returns, gives the same messages and leaves the same bytes; the
  number of calls is bounded by the number of bytes.\<close>

theorem framer_chunks:
  assumes "concat cs = concat cs'" and "length (concat cs) < fuel"
  shows "\<exists>f f' msgs. feed_all fuel framer_init cs = Some (f, msgs) \<and> feed_all fuel framer_init cs' = Some (f', msgs) \<and>
    pending f = pending f'"
  using feed_all_init [of cs fuel] feed_all_init [of cs' fuel] assms by auto

lemma framer_chunks_witness:
  "\<exists>f f' msgs. feed_all 3 framer_init [[1], [2]] = Some (f, msgs) \<and> feed_all 3 framer_init [[1, 2]] = Some (f', msgs) \<and>
    pending f = pending f'"
  by (rule framer_chunks) simp_all

text \<open>C27. A stream of complete messages and magic cookies, cut into chunks anywhere, comes out as exactly
  those messages, whole, in order and without the cookies; the start of the next message stays in
  the buffer.\<close>

theorem framer_roundtrip:
  assumes "\<And>x. x \<in> set xs \<Longrightarrow> message_or_cookie x" and "length tail < 16"
    and "concat cs = concat xs @ tail" and "length (concat cs) < fuel"
  shows "\<exists>f. feed_all fuel framer_init cs = Some (f, filter (\<lambda>x. is_cookie x \<noteq> Some True) xs) \<and> pending f = tail"
  using feed_all_init [OF assms(4)] frames_items [OF assms(1,2)] assms(3) by simp

text \<open>The cookies of \<open>wire/constants.hpp\<close>.\<close>

definition cookie_message :: "method_id \<Rightarrow> header_fields" where
  "cookie_message m = \<lparr>f_service = Strong_id magic_cookie_client_service, f_method = m, f_length = 8,
     f_client = Strong_id 0xDEAD, f_session = Strong_id 0xBEEF, f_protocol = 1, f_interface = 1,
     f_type = mt_request_no_return, f_rcode = e_ok\<rparr>"

lemma framer_roundtrip_witness:
  "\<exists>f. feed_all 40 framer_init
     [take 20 (header_bytes (cookie_message (Strong_id magic_cookie_client_method)) @
        header_bytes (cookie_message (Strong_id magic_cookie_server_method))),
      drop 20 (header_bytes (cookie_message (Strong_id magic_cookie_client_method)) @
        header_bytes (cookie_message (Strong_id magic_cookie_server_method)))] =
     Some (f, [header_bytes (cookie_message (Strong_id magic_cookie_server_method))]) \<and> pending f = []"
proof -
  let ?c = "cookie_message (Strong_id magic_cookie_client_method)" and ?s = "cookie_message (Strong_id magic_cookie_server_method)"
  have c: "cookie ?c" "\<not> cookie ?s" by (simp_all add: cookie_def cookie_message_def wire_consts)
  have "frame_size ?s = 16" by (simp add: frame_size_def cookie_message_def)
  then have ok: "message_or_cookie x" if "x \<in> set [header_bytes ?c, header_bytes ?s]" for x
    using that c unfolding message_or_cookie_def by (auto intro: exI [of _ ?c] exI [of _ ?s])
  have cat: "concat [take 20 (header_bytes ?c @ header_bytes ?s), drop 20 (header_bytes ?c @ header_bytes ?s)] =
      concat [header_bytes ?c, header_bytes ?s] @ []"
    by simp
  have "length (concat [take 20 (header_bytes ?c @ header_bytes ?s), drop 20 (header_bytes ?c @ header_bytes ?s)]) < 40"
    unfolding cat by simp
  from framer_roundtrip [OF ok _ cat this] c show ?thesis
    using is_cookie_bytes [of ?c "[]"] is_cookie_bytes [of ?s "[]"] by simp
qed

end
