(* ===== verification/Security.thy ===== *)
theory Security
  imports E2E_Protector
begin

text \<open>
  \<open>security/policy.hpp\<close> and \<open>security/enforcer.hpp\<close>: access-control rules, first match wins, and the
  sender adaptor that lets a message pass only when the policy allows it. The inner receiver of the
  adaptor is a signal transformer like those of the E2E adaptors; a \<open>security_error\<close> is one more kind
  of exception.
\<close>

section \<open>Policy\<close>

datatype action = Allow | Deny

record rule =
  rule_client :: client_id
  rule_service :: service_id
  rule_instance :: instance_id
  rule_method :: method_id
  rule_act :: action

definition rule_default :: rule where
  "rule_default =
     \<lparr>rule_client = any_client, rule_service = any_service, rule_instance = any_instance,
      rule_method = any_method, rule_act = Deny\<rparr>"

definition rule_matches :: "rule \<Rightarrow> client_id \<Rightarrow> service_id \<Rightarrow> instance_id \<Rightarrow> method_id \<Rightarrow> bool" where
  "rule_matches r c s i m \<longleftrightarrow>
     (rule_client r = any_client \<or> rule_client r = c) \<and>
     (rule_service r = any_service \<or> rule_service r = s) \<and>
     (rule_instance r = any_instance \<or> rule_instance r = i) \<and>
     (rule_method r = any_method \<or> rule_method r = m)"

definition allow_all :: rule where
  "allow_all = \<lparr>rule_client = any_client, rule_service = any_service, rule_instance = any_instance,
     rule_method = any_method, rule_act = Allow\<rparr>"

definition deny_all :: rule where
  "deny_all = \<lparr>rule_client = any_client, rule_service = any_service, rule_instance = any_instance,
     rule_method = any_method, rule_act = Deny\<rparr>"

definition allow_client_service :: "client_id \<Rightarrow> service_id \<Rightarrow> rule" where
  "allow_client_service client service =
     \<lparr>rule_client = client, rule_service = service, rule_instance = any_instance,
      rule_method = any_method, rule_act = Allow\<rparr>"

definition deny_client :: "client_id \<Rightarrow> rule" where
  "deny_client client =
     \<lparr>rule_client = client, rule_service = any_service, rule_instance = any_instance,
      rule_method = any_method, rule_act = Deny\<rparr>"

definition allow_service_method :: "service_id \<Rightarrow> method_id \<Rightarrow> rule" where
  "allow_service_method service mth =
     \<lparr>rule_client = any_client, rule_service = service, rule_instance = any_instance,
      rule_method = mth, rule_act = Allow\<rparr>"

text \<open>A policy is its vector of rules.\<close>

record policy =
  policy_rules :: "rule list"

definition policy_empty :: policy where
  "policy_empty = \<lparr>policy_rules = []\<rparr>"

definition policy_add :: "policy \<Rightarrow> rule \<Rightarrow> policy" where
  "policy_add p r = p\<lparr>policy_rules := policy_rules p @ [r]\<rparr>"

text \<open>The loop of \<open>evaluate\<close>.\<close>

fun first_match :: "rule list \<Rightarrow> client_id \<Rightarrow> service_id \<Rightarrow> instance_id \<Rightarrow> method_id \<Rightarrow> action" where
  "first_match [] c s i m = Deny"
| "first_match (r # rs) c s i m = (if rule_matches r c s i m then rule_act r else first_match rs c s i m)"

definition evaluate :: "policy \<Rightarrow> client_id \<Rightarrow> service_id \<Rightarrow> instance_id \<Rightarrow> method_id \<Rightarrow> action" where
  "evaluate p c s i m = first_match (policy_rules p) c s i m"

definition is_allowed :: "policy \<Rightarrow> client_id \<Rightarrow> service_id \<Rightarrow> instance_id \<Rightarrow> method_id \<Rightarrow> bool" where
  "is_allowed p c s i m \<longleftrightarrow> evaluate p c s i m = Allow"

definition rule_count :: "policy \<Rightarrow> nat" where
  "rule_count p = length (policy_rules p)"

definition policy_clear :: "policy \<Rightarrow> policy" where
  "policy_clear p = p\<lparr>policy_rules := []\<rparr>"

section \<open>Enforcer\<close>

datatype security_error = Security_error
  (se_client: client_id) (se_service: service_id) (se_method: method_id)

text \<open>The instance an enforcer checks for is configured, not taken from the message.\<close>

record enforcer =
  enf_policy :: policy
  enf_instance :: instance_id

text \<open>\<open>enforce (pol)\<close> with the default argument\<close>

definition enforce_default :: "policy \<Rightarrow> enforcer" where
  "enforce_default pol = \<lparr>enf_policy = pol, enf_instance = any_instance\<rparr>"

definition enforce_set_value :: "enforcer \<Rightarrow> byte list \<Rightarrow> (security_error + 'e) signal option" where
  "enforce_set_value enf msg =
     (if length msg < header_size
      then Some (Set_error (Upstream_exception (Inl (Security_error (Strong_id 0) (Strong_id 0) (Strong_id 0)))))
      else do {
        client \<leftarrow> hdr_client msg;
        service \<leftarrow> hdr_service msg;
        mth \<leftarrow> hdr_method msg;
        if \<not> is_allowed (enf_policy enf) client service (enf_instance enf) mth
        then Some (Set_error (Upstream_exception (Inl (Security_error client service mth))))
        else Some (Set_value msg)
      })"

definition enforce_receiver :: "enforcer \<Rightarrow> (security_error + 'e) signal \<Rightarrow> (security_error + 'e) signal option" where
  "enforce_receiver enf s =
     (case s of
        Set_value msg \<Rightarrow> enforce_set_value enf msg
      | Set_error e \<Rightarrow> Some (Set_error e)
      | Set_stopped \<Rightarrow> Some Set_stopped)"

end
