(* ===== verification/Security_Correct.thy ===== *)
theory Security_Correct
  imports Security
begin

text \<open>
  Correctness of access control: what a policy allows, and that nothing passes the enforcer unless
  the policy allows it.
\<close>

lemma first_match_Allow:
  "first_match rs c s i m = Allow \<longleftrightarrow>
   (\<exists>xs r ys. rs = xs @ r # ys \<and> rule_matches r c s i m \<and> rule_act r = Allow \<and>
     (\<forall>x \<in> set xs. \<not> rule_matches x c s i m))"
proof (induction rs)
  case (Cons r rs)
  show ?case
  proof (cases "rule_matches r c s i m")
    case True
    then show ?thesis by (auto simp: Cons_eq_append_conv intro!: exI [of _ "[]"])
  next
    case False
    have "(\<exists>xs r' ys. r # rs = xs @ r' # ys \<and> rule_matches r' c s i m \<and> rule_act r' = Allow \<and>
        (\<forall>x \<in> set xs. \<not> rule_matches x c s i m)) \<longleftrightarrow>
      (\<exists>xs r' ys. rs = xs @ r' # ys \<and> rule_matches r' c s i m \<and> rule_act r' = Allow \<and>
        (\<forall>x \<in> set xs. \<not> rule_matches x c s i m))" (is "?l \<longleftrightarrow> ?r")
    proof
      assume ?r
      then obtain xs r' ys where "rs = xs @ r' # ys" "rule_matches r' c s i m" "rule_act r' = Allow"
        "\<forall>x \<in> set xs. \<not> rule_matches x c s i m" by blast
      with False show ?l by (intro exI [of _ "r # xs"] exI [of _ r'] exI [of _ ys]) simp
    next
      assume ?l
      then obtain xs r' ys where *: "r # rs = xs @ r' # ys" "rule_matches r' c s i m" "rule_act r' = Allow"
        "\<forall>x \<in> set xs. \<not> rule_matches x c s i m" by blast
      with False obtain zs where "xs = r # zs" "rs = zs @ r' # ys" by (auto simp: Cons_eq_append_conv)
      with * show ?r by (intro exI [of _ zs] exI [of _ r'] exI [of _ ys]) simp
    qed
    with False Cons.IH show ?thesis by simp
  qed
qed simp

lemma first_match_append:
  "first_match (xs @ ys) c s i m =
     (if \<exists>x \<in> set xs. rule_matches x c s i m then first_match xs c s i m else first_match ys c s i m)"
  by (induction xs) auto

lemma first_match_any_instance:
  "first_match rs c s any_instance m = first_match (filter (\<lambda>r. rule_instance r = any_instance) rs) c s any_instance m"
  by (induction rs) (auto simp: rule_matches_def)

lemma matches_all: "rule_matches allow_all c s i m" "rule_matches deny_all c s i m"
  by (simp_all add: rule_matches_def allow_all_def deny_all_def)

section \<open>Properties\<close>

text \<open>A policy is default-deny and first match wins: a request is allowed exactly when some allow rule
  matches it that no matching rule precedes. Adding a rule at the end changes the verdict only of
  requests no earlier rule matches, and then to that rule's; rules behind \<open>allow_all\<close> or \<open>deny_all\<close>
  are dead; the empty policy denies everything.\<close>

theorem policy_first_match:
  "is_allowed p c s i m =
     (\<exists>xs r ys. policy_rules p = xs @ r # ys \<and> rule_matches r c s i m \<and> rule_act r = Allow \<and>
       (\<forall>x \<in> set xs. \<not> rule_matches x c s i m)) \<and>
   evaluate (policy_add p r') c s i m =
     (if (\<exists>x \<in> set (policy_rules p). rule_matches x c s i m) then evaluate p c s i m
      else if rule_matches r' c s i m then rule_act r' else Deny) \<and>
   evaluate (policy_add (policy_add p allow_all) r') c s i m = evaluate (policy_add p allow_all) c s i m \<and>
   evaluate (policy_add (policy_add p deny_all) r') c s i m = evaluate (policy_add p deny_all) c s i m \<and>
   evaluate (policy_clear p) c s i m = Deny"
  by (simp add: is_allowed_def evaluate_def first_match_Allow policy_add_def policy_clear_def first_match_append
      matches_all)

lemma policy_first_match_witness:
  "is_allowed (policy_add (policy_add policy_empty (deny_client (Strong_id 5))) (allow_service_method (Strong_id 1) (Strong_id 2)))
     (Strong_id 6) (Strong_id 1) any_instance (Strong_id 2) \<and>
   \<not> is_allowed (policy_add (policy_add policy_empty (deny_client (Strong_id 5))) (allow_service_method (Strong_id 1) (Strong_id 2)))
     (Strong_id 5) (Strong_id 1) any_instance (Strong_id 2)"
  unfolding is_allowed_def
  using policy_first_match [of "policy_add policy_empty (deny_client (Strong_id 5))" _ _ _ _ "allow_service_method (Strong_id 1) (Strong_id 2)"]
  by (simp add: policy_add_def policy_empty_def deny_client_def allow_service_method_def rule_matches_def
      any_client_def any_service_def any_method_def evaluate_def)

text \<open>C29. Nothing passes the enforcer that the policy does not allow. For every byte sequence from upstream:
  with 16 bytes or more, it is forwarded unchanged when the policy allows the client, service and
  method of its header for the configured instance, and otherwise becomes a security error naming
  them; shorter ones become an error. Errors and stop signals pass. No access leaves the message.\<close>

theorem enforcer_exact:
  "enforce_receiver enf (Set_value msg) = Some
     (if length msg < 16
      then Set_error (Upstream_exception (Inl (Security_error (Strong_id 0) (Strong_id 0) (Strong_id 0))))
      else let c = Strong_id (u16_of (msg ! 8) (msg ! 9)); s = Strong_id (u16_of (msg ! 0) (msg ! 1));
               m = Strong_id (u16_of (msg ! 2) (msg ! 3))
           in if is_allowed (enf_policy enf) c s (enf_instance enf) m then Set_value msg
              else Set_error (Upstream_exception (Inl (Security_error c s m)))) \<and>
   enforce_receiver enf (Set_error e) = Some (Set_error e) \<and>
   enforce_receiver enf Set_stopped = Some Set_stopped"
  by (simp add: enforce_receiver_def enforce_set_value_def hdr_client_def hdr_service_def hdr_method_def
      wire_consts read_u16_be_nth Let_def)

text \<open>The enforcer of \<open>enforce (policy)\<close>, with the default instance, ignores every rule that names an
  instance, deny rules included: it decides as if only the rules for any instance were there.\<close>

theorem enforcer_default_instance:
  "enforce_receiver (enforce_default p) sig =
   enforce_receiver (enforce_default (p\<lparr>policy_rules := filter (\<lambda>r. rule_instance r = any_instance) (policy_rules p)\<rparr>)) sig"
  using first_match_any_instance [of "policy_rules p"]
  by (simp add: enforce_receiver_def enforce_set_value_def enforce_default_def is_allowed_def evaluate_def
      split: signal.split)

end
