(* ===== verification/Buffer_Pool.thy ===== *)
theory Buffer_Pool
  imports Prelude
begin

text \<open>
  \<open>io/buffer_pool.hpp\<close>: a pool of equal buffers in one block. A span is its offset in the block and its
  length; the pool never touches the bytes, so of the storage only the size is kept. Dividing by a
  buffer size of 0 and a failing \<open>assert\<close> are \<^term>\<open>None\<close>.
\<close>

record buffer_pool =
  pool_buf_size :: nat
  pool_storage :: nat
  pool_free :: "u32 list"

type_synonym span = "nat \<times> nat"

text \<open>The constructor: the indices \<open>count - 1\<close> down to 0, each cast to 32 bits.\<close>

definition pool_make :: "nat \<Rightarrow> nat \<Rightarrow> buffer_pool" where
  "pool_make count buf_size =
     \<lparr>pool_buf_size = buf_size, pool_storage = count * buf_size, pool_free = map of_nat (rev [0..<count])\<rparr>"

definition pool_acquire :: "buffer_pool \<Rightarrow> buffer_pool \<times> span option" where
  "pool_acquire p =
     (if pool_free p = [] then (p, None)
      else (p\<lparr>pool_free := butlast (pool_free p)\<rparr>,
            Some (unat (last (pool_free p)) * pool_buf_size p, pool_buf_size p)))"

definition pool_release :: "buffer_pool \<Rightarrow> span \<Rightarrow> buffer_pool option" where
  "pool_release p buf =
     (if pool_buf_size p = 0 then None
      else Some (p\<lparr>pool_free := pool_free p @ [of_nat (fst buf div pool_buf_size p)]\<rparr>))"

definition pool_available :: "buffer_pool \<Rightarrow> nat" where
  "pool_available p = length (pool_free p)"

end
