(* ===== verification/Buffer_Pool_Correct.thy ===== *)
theory Buffer_Pool_Correct
  imports Buffer_Pool
begin

text \<open>
  Correctness of the buffer pool under its protocol - a client releases only spans it holds - by an
  invariant over the reachable states: the free indices and the held buffers partition the pool.
\<close>

text \<open>The pool together with the spans its clients hold.\<close>

inductive pool_reachable :: "nat \<Rightarrow> nat \<Rightarrow> buffer_pool \<Rightarrow> span set \<Rightarrow> bool" for count buf_size where
  make: "pool_reachable count buf_size (pool_make count buf_size) {}"
| acquire: "pool_reachable count buf_size p held \<Longrightarrow> pool_acquire p = (p', Some b) \<Longrightarrow>
    pool_reachable count buf_size p' (insert b held)"
| release: "pool_reachable count buf_size p held \<Longrightarrow> b \<in> held \<Longrightarrow> pool_release p b = Some p' \<Longrightarrow>
    pool_reachable count buf_size p' (held - {b})"

definition pool_slot :: "nat \<Rightarrow> nat \<Rightarrow> span" where
  "pool_slot buf_size i = (i * buf_size, buf_size)"

definition pool_inv :: "nat \<Rightarrow> nat \<Rightarrow> buffer_pool \<Rightarrow> span set \<Rightarrow> bool" where
  "pool_inv count buf_size p held \<longleftrightarrow> pool_buf_size p = buf_size \<and> pool_storage p = count * buf_size \<and>
     distinct (map unat (pool_free p)) \<and> unat ` set (pool_free p) \<subseteq> {..<count} \<and>
     held = pool_slot buf_size ` ({..<count} - unat ` set (pool_free p))"

lemma pool_slot_inj: "0 < buf_size \<Longrightarrow> pool_slot buf_size i = pool_slot buf_size j \<longleftrightarrow> i = j"
  by (simp add: pool_slot_def)

lemma pool_make_inv:
  assumes "count \<le> 2 ^ 32"
  shows "pool_inv count buf_size (pool_make count buf_size) {}"
proof -
  have "map unat (map of_nat (rev [0..<count]) :: u32 list) = rev [0..<count]"
    using assms by (auto simp: unat_of_nat_small intro!: map_idI)
  moreover from this have "unat ` set (pool_free (pool_make count buf_size)) = {..<count}"
    by (simp only: pool_make_def buffer_pool.simps list.set_map [symmetric]) auto
  ultimately show ?thesis by (simp add: pool_inv_def pool_make_def del: map_map)
qed

lemma pool_acquire_inv:
  assumes "pool_inv count buf_size p held" "pool_acquire p = (p', Some b)" "0 < buf_size"
  shows "pool_inv count buf_size p' (insert b held) \<and> b \<notin> held"
proof -
  obtain fs i where free: "pool_free p = fs @ [i]"
    using assms(2) by (cases "pool_free p" rule: rev_cases) (auto simp: pool_acquire_def)
  then have p': "p' = p\<lparr>pool_free := fs\<rparr>" and b: "b = pool_slot buf_size (unat i)"
    using assms(1,2) by (auto simp: pool_acquire_def pool_inv_def pool_slot_def)
  have i: "unat i < count" "unat i \<notin> unat ` set fs" and inv: "distinct (map unat fs)" "unat ` set fs \<subseteq> {..<count}"
    using assms(1) free by (auto simp: pool_inv_def)
  have held: "held = pool_slot buf_size ` ({..<count} - insert (unat i) (unat ` set fs))"
    using assms(1) free by (simp add: pool_inv_def)
  have "{..<count} - unat ` set fs = insert (unat i) ({..<count} - insert (unat i) (unat ` set fs))"
    using i by auto
  then have "insert b held = pool_slot buf_size ` ({..<count} - unat ` set fs)"
    using b held by (metis image_insert)
  moreover have "b \<notin> held" using b held assms(3) by (auto simp: pool_slot_inj)
  ultimately show ?thesis
    using assms(1) inv by (simp add: pool_inv_def p')
qed

lemma pool_release_inv:
  assumes "pool_inv count buf_size p held" "b \<in> held" "pool_release p b = Some p'" "0 < buf_size" "count \<le> 2 ^ 32"
  shows "pool_inv count buf_size p' (held - {b})"
proof -
  obtain i where i: "i < count" "i \<notin> unat ` set (pool_free p)" "b = pool_slot buf_size i"
    using assms(1,2) by (auto simp: pool_inv_def)
  have u: "unat (of_nat i :: u32) = i" using i(1) assms(5) by (intro unat_of_nat_small) simp
  have p': "p' = p\<lparr>pool_free := pool_free p @ [of_nat i]\<rparr>"
    using assms(1,3,4) i(3) by (auto simp: pool_release_def pool_inv_def pool_slot_def)
  have "held - {b} = pool_slot buf_size ` ({..<count} - insert i (unat ` set (pool_free p)))"
    using assms(1,4) i by (auto simp: pool_inv_def pool_slot_inj)
  then show ?thesis using assms(1) i u by (auto simp: pool_inv_def p')
qed

lemma pool_reachable_inv:
  assumes "0 < buf_size" "count \<le> 2 ^ 32"
  shows "pool_reachable count buf_size p held \<Longrightarrow> pool_inv count buf_size p held"
  by (induction rule: pool_reachable.induct)
    (use assms pool_make_inv pool_acquire_inv pool_release_inv in blast)+

text \<open>C30. A pool never hands the same memory out twice. Whatever its clients acquire and release, as long as
  they release only what they hold: the held buffers lie inside the storage, have the full size and
  do not overlap each other; an acquired buffer was not held; \<open>available\<close> is the number of buffers
  not held, so \<open>acquire\<close> fails only when all are; and releasing a held buffer succeeds.\<close>

theorem pool_no_double_use:
  assumes "pool_reachable count buf_size p held" and "0 < buf_size" and "count \<le> 2 ^ 32"
  shows "(\<forall>(off, len) \<in> held. len = buf_size \<and> off + len \<le> pool_storage p) \<and>
    (\<forall>a \<in> held. \<forall>b \<in> held. a \<noteq> b \<longrightarrow> fst a + snd a \<le> fst b \<or> fst b + snd b \<le> fst a) \<and>
    card held + pool_available p = count \<and>
    (case pool_acquire p of (_, None) \<Rightarrow> card held = count | (_, Some b) \<Rightarrow> b \<notin> held) \<and>
    (\<forall>b \<in> held. pool_release p b \<noteq> None)"
proof -
  have inv: "pool_inv count buf_size p held" using pool_reachable_inv [OF assms(2,3,1)] .
  have held: "held = pool_slot buf_size ` ({..<count} - unat ` set (pool_free p))" using inv by (simp add: pool_inv_def)
  have fit: "i * buf_size + buf_size \<le> j * buf_size" if "i < j" for i j
    using mult_le_mono1 [of "Suc i" j buf_size] that by simp
  have 1: "\<forall>(off, len) \<in> held. len = buf_size \<and> off + len \<le> pool_storage p"
    using inv fit by (auto simp: pool_inv_def pool_slot_def)
  have 2: "\<forall>a \<in> held. \<forall>b \<in> held. a \<noteq> b \<longrightarrow> fst a + snd a \<le> fst b \<or> fst b + snd b \<le> fst a"
  proof (intro ballI impI)
    fix a b assume "a \<in> held" "b \<in> held" "a \<noteq> b"
    then obtain i j where "a = pool_slot buf_size i" "b = pool_slot buf_size j" "i \<noteq> j" unfolding held by auto
    then show "fst a + snd a \<le> fst b \<or> fst b + snd b \<le> fst a"
      using fit [of i j] fit [of j i] by (cases i j rule: linorder_cases) (auto simp: pool_slot_def)
  qed
  have "card held = card ({..<count} - unat ` set (pool_free p))"
    unfolding held using assms(2) by (intro card_image) (auto simp: inj_on_def pool_slot_inj)
  also have "\<dots> = count - card (set (map unat (pool_free p)))"
    using inv by (subst card_Diff_subset) (auto simp: pool_inv_def)
  also have "card (set (map unat (pool_free p))) = length (pool_free p)"
    using inv distinct_card by (fastforce simp: pool_inv_def)
  finally have "card held = count - length (pool_free p)" .
  moreover have "length (pool_free p) \<le> count"
    using inv card_mono [of "{..<count}" "set (map unat (pool_free p))"] distinct_card [of "map unat (pool_free p)"]
    by (simp add: pool_inv_def)
  ultimately have 3: "card held + pool_available p = count" by (simp add: pool_available_def)
  have 4: "case pool_acquire p of (_, None) \<Rightarrow> card held = count | (_, Some b) \<Rightarrow> b \<notin> held"
    using 3 pool_acquire_inv [OF inv _ assms(2)]
    by (auto simp: pool_available_def split: prod.split option.split) (auto simp: pool_acquire_def split: if_splits)
  have 5: "\<forall>b \<in> held. pool_release p b \<noteq> None"
    using inv assms(2) by (auto simp: pool_inv_def pool_release_def)
  from 1 2 3 4 5 show ?thesis by blast
qed

lemma pool_no_double_use_witness:
  "\<exists>p. pool_reachable 2 8192 p {(0, 8192), (8192, 8192)} \<and> pool_available p = 0"
proof -
  have a: "pool_acquire (pool_make 2 8192) = (\<lparr>pool_buf_size = 8192, pool_storage = 16384, pool_free = [1]\<rparr>, Some (0, 8192))"
    and b: "pool_acquire \<lparr>pool_buf_size = 8192, pool_storage = 16384, pool_free = [1]\<rparr> =
      (\<lparr>pool_buf_size = 8192, pool_storage = 16384, pool_free = []\<rparr>, Some (8192, 8192))"
    by (simp_all add: pool_acquire_def pool_make_def upt_rec)
  from acquire [OF acquire [OF make a] b]
  have r: "pool_reachable 2 8192 \<lparr>pool_buf_size = 8192, pool_storage = 16384, pool_free = []\<rparr> {(8192, 8192), (0, 8192)}" .
  from pool_no_double_use [OF r] r show ?thesis by (auto simp: insert_commute)
qed

end
