(* ===== verification/Wire_Codec.thy ===== *)
theory Wire_Codec
  imports Wire_TP
begin

text \<open>
  \<open>wire/codec.hpp\<close>: the reflection-driven codec. The types it is instantiated with are the universe
  \<open>codec_type\<close> - the primitive types, enumerations over them, byte arrays, resizable byte containers and
  aggregates - and their values \<open>codec_value\<close>. A signed integer is its two's complement word and a floating-point number its
  bit pattern, which is all the code uses of them. The branch for byte arrays also accepts \<open>std::vector\<close> and
  \<open>std::string\<close>, whose values have any size; \<open>T_container n\<close> is such a member, where \<open>n\<close> is the size it has in a
  value-initialised aggregate (0 without a default member initializer). \<open>out\<close> and \<open>in\<close> pointers are offsets into a buffer,
  and \<^term>\<open>None\<close> is an access outside of it. Reflection is iteration over the list of members.
\<close>

datatype codec_type =
    T_bool | T_u8 | T_i8 | T_u16 | T_i16 | T_u32 | T_i32 | T_u64 | T_i64 | T_f32 | T_f64
  | T_enum codec_type
  | T_bytes nat
  | T_container nat
  | T_struct "codec_type list"

datatype codec_value =
    V_bool bool | V_u8 u8 | V_i8 u8 | V_u16 u16 | V_i16 u16 | V_u32 u32 | V_i32 u32 | V_u64 u64 | V_i64 u64
  | V_f32 u32 | V_f64 u64
  | V_enum codec_value
  | V_bytes "byte list"
  | V_struct "codec_value list"

section \<open>Primitives\<close>

definition serialize_u8 :: "byte list \<Rightarrow> nat \<Rightarrow> u8 \<Rightarrow> (byte list \<times> nat) option" where
  "serialize_u8 m out v = do { m \<leftarrow> poke m out v; Some (m, 1) }"

definition serialize_bool :: "byte list \<Rightarrow> nat \<Rightarrow> bool \<Rightarrow> (byte list \<times> nat) option" where
  "serialize_bool m out v = do { m \<leftarrow> poke m out (if v then 1 else 0); Some (m, 1) }"

definition serialize_i8 :: "byte list \<Rightarrow> nat \<Rightarrow> u8 \<Rightarrow> (byte list \<times> nat) option" where
  "serialize_i8 m out v = do { m \<leftarrow> poke m out v; Some (m, 1) }"

definition serialize_u16 :: "byte list \<Rightarrow> nat \<Rightarrow> u16 \<Rightarrow> (byte list \<times> nat) option" where
  "serialize_u16 m out v = do { m \<leftarrow> write_u16_be m out v; Some (m, 2) }"

definition serialize_i16 :: "byte list \<Rightarrow> nat \<Rightarrow> u16 \<Rightarrow> (byte list \<times> nat) option" where
  "serialize_i16 m out v = do { m \<leftarrow> write_u16_be m out v; Some (m, 2) }"

definition serialize_u32 :: "byte list \<Rightarrow> nat \<Rightarrow> u32 \<Rightarrow> (byte list \<times> nat) option" where
  "serialize_u32 m out v = do { m \<leftarrow> write_u32_be m out v; Some (m, 4) }"

definition serialize_i32 :: "byte list \<Rightarrow> nat \<Rightarrow> u32 \<Rightarrow> (byte list \<times> nat) option" where
  "serialize_i32 m out v = do { m \<leftarrow> write_u32_be m out v; Some (m, 4) }"

definition serialize_u64 :: "byte list \<Rightarrow> nat \<Rightarrow> u64 \<Rightarrow> (byte list \<times> nat) option" where
  "serialize_u64 m out v = do {
     m \<leftarrow> write_u32_be m out (ucast (drop_bit 32 v));
     m \<leftarrow> write_u32_be m (out + 4) (ucast v);
     Some (m, 8)
   }"

definition serialize_i64 :: "byte list \<Rightarrow> nat \<Rightarrow> u64 \<Rightarrow> (byte list \<times> nat) option" where
  "serialize_i64 m out v = serialize_u64 m out v"

definition serialize_f32 :: "byte list \<Rightarrow> nat \<Rightarrow> u32 \<Rightarrow> (byte list \<times> nat) option" where
  "serialize_f32 m out bits = do { m \<leftarrow> write_u32_be m out bits; Some (m, 4) }"

definition serialize_f64 :: "byte list \<Rightarrow> nat \<Rightarrow> u64 \<Rightarrow> (byte list \<times> nat) option" where
  "serialize_f64 m out bits = serialize_u64 m out bits"

definition deserialize_u8 :: "byte list \<Rightarrow> nat \<Rightarrow> u8 option" where
  "deserialize_u8 m p = peek m p"

definition deserialize_i8 :: "byte list \<Rightarrow> nat \<Rightarrow> u8 option" where
  "deserialize_i8 m p = peek m p"

definition deserialize_bool :: "byte list \<Rightarrow> nat \<Rightarrow> bool option" where
  "deserialize_bool m p = do { b \<leftarrow> peek m p; Some (b \<noteq> 0) }"

definition deserialize_u16 :: "byte list \<Rightarrow> nat \<Rightarrow> u16 option" where
  "deserialize_u16 m p = read_u16_be m p"

definition deserialize_i16 :: "byte list \<Rightarrow> nat \<Rightarrow> u16 option" where
  "deserialize_i16 m p = read_u16_be m p"

definition deserialize_u32 :: "byte list \<Rightarrow> nat \<Rightarrow> u32 option" where
  "deserialize_u32 m p = read_u32_be m p"

definition deserialize_i32 :: "byte list \<Rightarrow> nat \<Rightarrow> u32 option" where
  "deserialize_i32 m p = read_u32_be m p"

definition deserialize_u64 :: "byte list \<Rightarrow> nat \<Rightarrow> u64 option" where
  "deserialize_u64 m p = do {
     hi \<leftarrow> read_u32_be m p;
     lo \<leftarrow> read_u32_be m (p + 4);
     Some (push_bit 32 (ucast hi) OR ucast lo)
   }"

definition deserialize_i64 :: "byte list \<Rightarrow> nat \<Rightarrow> u64 option" where
  "deserialize_i64 m p = deserialize_u64 m p"

definition deserialize_f32 :: "byte list \<Rightarrow> nat \<Rightarrow> u32 option" where
  "deserialize_f32 m p = read_u32_be m p"

definition deserialize_f64 :: "byte list \<Rightarrow> nat \<Rightarrow> u64 option" where
  "deserialize_f64 m p = deserialize_u64 m p"

section \<open>Fields and members\<close>

fun serialize_field :: "byte list \<Rightarrow> nat \<Rightarrow> codec_value \<Rightarrow> (byte list \<times> nat) option"
  and serialize_members :: "byte list \<Rightarrow> nat \<Rightarrow> nat \<Rightarrow> codec_value list \<Rightarrow> (byte list \<times> nat) option" where
  "serialize_field m out (V_enum v) = serialize_field m out v"
| "serialize_field m out (V_bool v) = serialize_bool m out v"
| "serialize_field m out (V_u8 v) = serialize_u8 m out v"
| "serialize_field m out (V_i8 v) = serialize_i8 m out v"
| "serialize_field m out (V_u16 v) = serialize_u16 m out v"
| "serialize_field m out (V_i16 v) = serialize_i16 m out v"
| "serialize_field m out (V_u32 v) = serialize_u32 m out v"
| "serialize_field m out (V_i32 v) = serialize_i32 m out v"
| "serialize_field m out (V_u64 v) = serialize_u64 m out v"
| "serialize_field m out (V_i64 v) = serialize_i64 m out v"
| "serialize_field m out (V_f32 v) = serialize_f32 m out v"
| "serialize_field m out (V_f64 v) = serialize_f64 m out v"
| "serialize_field m out (V_bytes bs) = do { m \<leftarrow> store m out bs; Some (m, length bs) }"
| "serialize_field m out (V_struct vs) = serialize_members m out 0 vs"
| "serialize_members m out offset [] = Some (m, offset)"
| "serialize_members m out offset (v # vs) = do {
     (m, n) \<leftarrow> serialize_field m (out + offset) v;
     serialize_members m out (offset + n) vs
   }"

fun deserialize_field :: "byte list \<Rightarrow> nat \<Rightarrow> codec_type \<Rightarrow> (codec_value \<times> nat) option"
  and deserialize_members :: "byte list \<Rightarrow> nat \<Rightarrow> nat \<Rightarrow> codec_type list \<Rightarrow> (codec_value list \<times> nat) option" where
  "deserialize_field m p (T_enum t) = do { (tmp, n) \<leftarrow> deserialize_field m p t; Some (V_enum tmp, n) }"
| "deserialize_field m p T_bool = do { v \<leftarrow> deserialize_bool m p; Some (V_bool v, 1) }"
| "deserialize_field m p T_u8 = do { v \<leftarrow> deserialize_u8 m p; Some (V_u8 v, 1) }"
| "deserialize_field m p T_i8 = do { v \<leftarrow> deserialize_i8 m p; Some (V_i8 v, 1) }"
| "deserialize_field m p T_u16 = do { v \<leftarrow> deserialize_u16 m p; Some (V_u16 v, 2) }"
| "deserialize_field m p T_i16 = do { v \<leftarrow> deserialize_i16 m p; Some (V_i16 v, 2) }"
| "deserialize_field m p T_u32 = do { v \<leftarrow> deserialize_u32 m p; Some (V_u32 v, 4) }"
| "deserialize_field m p T_i32 = do { v \<leftarrow> deserialize_i32 m p; Some (V_i32 v, 4) }"
| "deserialize_field m p T_u64 = do { v \<leftarrow> deserialize_u64 m p; Some (V_u64 v, 8) }"
| "deserialize_field m p T_i64 = do { v \<leftarrow> deserialize_i64 m p; Some (V_i64 v, 8) }"
| "deserialize_field m p T_f32 = do { v \<leftarrow> deserialize_f32 m p; Some (V_f32 v, 4) }"
| "deserialize_field m p T_f64 = do { v \<leftarrow> deserialize_f64 m p; Some (V_f64 v, 8) }"
| "deserialize_field m p (T_bytes n) = do { bs \<leftarrow> subspan m p n; Some (V_bytes bs, n) }"
| "deserialize_field m p (T_container n) = do { bs \<leftarrow> subspan m p n; Some (V_bytes bs, n) }"
| "deserialize_field m p (T_struct ts) = do { (vs, n) \<leftarrow> deserialize_members m p 0 ts; Some (V_struct vs, n) }"
| "deserialize_members m p offset [] = Some ([], offset)"
| "deserialize_members m p offset (t # ts) = do {
     (v, n) \<leftarrow> deserialize_field m (p + offset) t;
     (vs, offset) \<leftarrow> deserialize_members m p (offset + n) ts;
     Some (v # vs, offset)
   }"

section \<open>Public functions\<close>

text \<open>An aggregate at the top level is the list of its members. The bound is checked after each member
  has been written.\<close>

fun serialize_checked :: "byte list \<Rightarrow> nat \<Rightarrow> codec_value list \<Rightarrow> (byte list \<times> (codec_error + nat)) option" where
  "serialize_checked buf offset [] = Some (buf, Inr offset)"
| "serialize_checked buf offset (v # vs) = do {
     (buf, n) \<leftarrow> serialize_field buf offset v;
     let offset = offset + n;
     if length buf < offset then Some (buf, Inl Buffer_too_small)
     else serialize_checked buf offset vs
   }"

definition serialize :: "byte list \<Rightarrow> codec_value list \<Rightarrow> (byte list \<times> (codec_error + nat)) option" where
  "serialize buf value = serialize_checked buf 0 value"

text \<open>When reading, only the start of a member is checked.\<close>

fun deserialize_checked :: "byte list \<Rightarrow> nat \<Rightarrow> codec_type list \<Rightarrow> (codec_error + codec_value list) option" where
  "deserialize_checked buf offset [] = Some (Inr [])"
| "deserialize_checked buf offset (t # ts) =
     (if length buf \<le> offset then Some (Inl Buffer_too_small)
      else do {
        (v, n) \<leftarrow> deserialize_field buf offset t;
        rest \<leftarrow> deserialize_checked buf (offset + n) ts;
        Some (case rest of Inl err \<Rightarrow> Inl err | Inr vs \<Rightarrow> Inr (v # vs))
      })"

definition deserialize :: "byte list \<Rightarrow> codec_type list \<Rightarrow> (codec_error + codec_value list) option" where
  "deserialize buf ts = deserialize_checked buf 0 ts"

text \<open>A \<open>header\<close> is its 16 bytes.\<close>

definition serialize_message ::
    "byte list \<Rightarrow> byte list \<Rightarrow> codec_value list \<Rightarrow> (byte list \<times> (codec_error + nat)) option" where
  "serialize_message buf hdr payload =
     (if length buf < header_size then Some (buf, Inl Buffer_too_small)
      else do {
        buf \<leftarrow> store buf 0 hdr;
        s \<leftarrow> subspan_from buf header_size;
        (s, result) \<leftarrow> serialize s payload;
        buf \<leftarrow> store buf header_size s;
        case result of
          Inl err \<Rightarrow> Some (buf, Inl err)
        | Inr n \<Rightarrow> do {
            buf \<leftarrow> set_payload_length buf (of_nat n);
            Some (buf, Inr (header_size + n))
          }
      })"

definition deserialize_payload :: "byte list \<Rightarrow> codec_type list \<Rightarrow> (codec_error + codec_value list) option" where
  "deserialize_payload payload_buf ts = deserialize payload_buf ts"

end
