(* ===== verification/Wire_Codec_Correct.thy ===== *)
theory Wire_Codec_Correct
  imports Wire_Codec
begin

text \<open>
  Correctness of the codec: serialisation writes the big-endian encoding of a value, deserialisation
  inverts it for every type of the universe, and what happens when the buffer is too small.
\<close>

section \<open>Encodings\<close>

fun encode :: "codec_value \<Rightarrow> byte list" where
  "encode (V_bool v) = [if v then 1 else 0]"
| "encode (V_u8 v) = [v]"
| "encode (V_i8 v) = [v]"
| "encode (V_u16 v) = be16 v"
| "encode (V_i16 v) = be16 v"
| "encode (V_u32 v) = be32 v"
| "encode (V_i32 v) = be32 v"
| "encode (V_u64 v) = be64 v"
| "encode (V_i64 v) = be64 v"
| "encode (V_f32 v) = be32 v"
| "encode (V_f64 v) = be64 v"
| "encode (V_enum v) = encode v"
| "encode (V_bytes bs) = bs"
| "encode (V_struct vs) = concat (map encode vs)"

fun wire_size :: "codec_type \<Rightarrow> nat" where
  "wire_size T_bool = 1"
| "wire_size T_u8 = 1"
| "wire_size T_i8 = 1"
| "wire_size T_u16 = 2"
| "wire_size T_i16 = 2"
| "wire_size T_u32 = 4"
| "wire_size T_i32 = 4"
| "wire_size T_u64 = 8"
| "wire_size T_i64 = 8"
| "wire_size T_f32 = 4"
| "wire_size T_f64 = 8"
| "wire_size (T_enum t) = wire_size t"
| "wire_size (T_bytes n) = n"
| "wire_size (T_container n) = n"
| "wire_size (T_struct ts) = sum_list (map wire_size ts)"

text \<open>The values of a type whose containers have the size deserialisation expects, and all values of a type.\<close>

fun has_type :: "codec_value \<Rightarrow> codec_type \<Rightarrow> bool" where
  "has_type (V_bool v) t = (t = T_bool)"
| "has_type (V_u8 v) t = (t = T_u8)"
| "has_type (V_i8 v) t = (t = T_i8)"
| "has_type (V_u16 v) t = (t = T_u16)"
| "has_type (V_i16 v) t = (t = T_i16)"
| "has_type (V_u32 v) t = (t = T_u32)"
| "has_type (V_i32 v) t = (t = T_i32)"
| "has_type (V_u64 v) t = (t = T_u64)"
| "has_type (V_i64 v) t = (t = T_i64)"
| "has_type (V_f32 v) t = (t = T_f32)"
| "has_type (V_f64 v) t = (t = T_f64)"
| "has_type (V_enum v) t = (\<exists>u. t = T_enum u \<and> has_type v u)"
| "has_type (V_bytes bs) t = (t = T_bytes (length bs) \<or> t = T_container (length bs))"
| "has_type (V_struct vs) t = (\<exists>ts. t = T_struct ts \<and> list_all2 has_type vs ts)"

fun inhabits :: "codec_value \<Rightarrow> codec_type \<Rightarrow> bool" where
  "inhabits (V_bytes bs) t = (t = T_bytes (length bs) \<or> (\<exists>n. t = T_container n))"
| "inhabits (V_enum v) t = (\<exists>u. t = T_enum u \<and> inhabits v u)"
| "inhabits (V_struct vs) t = (\<exists>ts. t = T_struct ts \<and> list_all2 inhabits vs ts)"
| "inhabits v t = has_type v t"

definition types :: "codec_value list \<Rightarrow> codec_type list \<Rightarrow> bool" where
  "types vs ts \<longleftrightarrow> list_all2 has_type vs ts"

definition encode_all :: "codec_value list \<Rightarrow> byte list" where
  "encode_all vs = concat (map encode vs)"

definition total_size :: "codec_type list \<Rightarrow> nat" where
  "total_size ts = sum_list (map wire_size ts)"

lemma encode_all_simps [simp]: "encode_all [] = []" "encode_all (v # vs) = encode v @ encode_all vs"
  by (simp_all add: encode_all_def)

lemma total_size_simps [simp]: "total_size [] = 0" "total_size (t # ts) = wire_size t + total_size ts"
  by (simp_all add: total_size_def)

lemma types_simps [simp]:
  "types [] ts \<longleftrightarrow> ts = []" "types vs [] \<longleftrightarrow> vs = []" "types (v # vs) (t # ts) \<longleftrightarrow> has_type v t \<and> types vs ts"
  by (auto simp: types_def)

lemma encode_struct: "encode (V_struct vs) = encode_all vs" "wire_size (T_struct ts) = total_size ts"
  "has_type (V_struct vs) (T_struct ts) = types vs ts"
  by (simp_all add: encode_all_def total_size_def types_def)

lemma has_type_enum: "has_type (V_enum v) (T_enum t) = has_type v t"
  by simp

lemmas primitive_defs =
  serialize_u8_def serialize_bool_def serialize_i8_def serialize_u16_def serialize_i16_def serialize_u32_def
  serialize_i32_def serialize_u64_def serialize_i64_def serialize_f32_def serialize_f64_def
  deserialize_u8_def deserialize_i8_def deserialize_bool_def deserialize_u16_def deserialize_i16_def
  deserialize_u32_def deserialize_i32_def deserialize_i64_def deserialize_f32_def
  deserialize_f64_def

section \<open>Serialisation\<close>

text \<open>Serialising a field is storing its encoding.\<close>

lemma serialize_field_store:
  "serialize_field m out v = do { m' \<leftarrow> store m out (encode v); Some (m', length (encode v)) }"
  "serialize_members m out off vs = do { m' \<leftarrow> store m (out + off) (encode_all vs); Some (m', off + length (encode_all vs)) }"
proof (induction m out v and m out off vs rule: serialize_field_serialize_members.induct)
  case (16 m out offset v vs)
  then show ?case
    by (cases "store m (out + offset) (encode v)") (simp_all add: store_append add.assoc)
qed (auto simp: primitive_defs write_u16_be_store write_u32_be_store be64_def store_append encode_struct bind_assoc
    simp del: encode.simps(14) split: Option.bind_splits)

lemma store_overwrite_iff:
  "p \<le> length m \<Longrightarrow> store m p xs = (if p + length xs \<le> length m then Some (overwrite m p xs) else None)"
  by (cases "xs = []") (auto simp: store_overwrite store_None overwrite_def)

lemma serialize_checked_store:
  "offset \<le> length buf \<Longrightarrow> serialize_checked buf offset vs =
     (if offset + length (encode_all vs) \<le> length buf
      then Some (overwrite buf offset (encode_all vs), Inr (offset + length (encode_all vs))) else None)"
proof (induction vs arbitrary: buf offset)
  case (Cons v vs)
  show ?case
  proof (cases "offset + length (encode v) \<le> length buf")
    case True
    then show ?thesis
      using Cons.IH [of "offset + length (encode v)" "overwrite buf offset (encode v)"] Cons.prems
        overwrite_overwrite_adjacent [of offset "encode v" "encode_all vs" buf]
      by (simp add: serialize_field_store store_overwrite_iff Let_def add.assoc)
  next
    case False
    then show ?thesis using Cons.prems by (simp add: serialize_field_store store_overwrite_iff)
  qed
qed (simp add: overwrite_def)

section \<open>Deserialisation\<close>

lemma read_u64_at:
  "length xs = p \<Longrightarrow> deserialize_u64 (xs @ be64 v @ ys) p = Some v"
proof -
  assume p: "length xs = p"
  then have "read_u32_be (xs @ be64 v @ ys) p = Some (ucast (drop_bit 32 v))"
    "read_u32_be (xs @ be64 v @ ys) (p + 4) = Some (ucast v)"
    using read_u32_be_at [of xs p] read_u32_be_at [of "xs @ be32 (ucast (drop_bit 32 v))" "p + 4"]
    by (simp_all add: be64_def)
  then show ?thesis using u64_of_be64 [of v] by (simp add: deserialize_u64_def u64_of_def)
qed

lemma peek_at: "length xs = p \<Longrightarrow> peek (xs @ b # ys) p = Some b"
  by (simp add: peek_def nth_append)

lemma has_type_size: "has_type v t \<Longrightarrow> length (encode v) = wire_size t"
proof (induction v arbitrary: t)
  case (V_struct vs)
  then obtain ts where t: "t = T_struct ts" "list_all2 has_type vs ts" by auto
  from t(2) V_struct.IH have "length (concat (map encode vs)) = sum_list (map wire_size ts)"
    by (induction rule: list_all2_induct) auto
  then show ?case by (simp add: t(1))
qed auto

lemma types_size: "types vs ts \<Longrightarrow> length (encode_all vs) = total_size ts"
  using has_type_size [of "V_struct vs" "T_struct ts"] by (simp only: encode_struct)

text \<open>Reading inverts writing, first for the members of an aggregate.\<close>

lemma deserialize_members_encode:
  assumes "\<And>v t xs p ys. v \<in> set vs \<Longrightarrow> has_type v t \<Longrightarrow> length xs = p \<Longrightarrow>
      deserialize_field (xs @ encode v @ ys) p t = Some (v, length (encode v))"
    and "types vs ts" and "length xs = p + off"
  shows "deserialize_members (xs @ encode_all vs @ ys) p off ts = Some (vs, off + length (encode_all vs))"
  using assms
proof (induction vs arbitrary: ts xs off)
  case (Cons v vs)
  then obtain u us where ts: "ts = u # us" "has_type v u" "types vs us" by (cases ts) auto
  have "deserialize_members ((xs @ encode v) @ encode_all vs @ ys) p (off + length (encode v)) us =
      Some (vs, off + length (encode v) + length (encode_all vs))"
    using Cons.prems ts by (intro Cons.IH) auto
  moreover have "deserialize_field (xs @ encode v @ encode_all vs @ ys) (p + off) u = Some (v, length (encode v))"
    using Cons.prems(1) [of v u xs "p + off"] Cons.prems(3) ts by simp
  ultimately show ?case using ts by (simp add: add.assoc)
qed simp

lemma deserialize_encode:
  "has_type v t \<Longrightarrow> length xs = p \<Longrightarrow> deserialize_field (xs @ encode v @ ys) p t = Some (v, length (encode v))"
proof (induction v arbitrary: t xs p ys)
  case (V_struct vs)
  then obtain ts where t: "t = T_struct ts" and ty: "types vs ts" by (auto simp: types_def)
  show ?case
    using deserialize_members_encode [OF V_struct.IH ty, of xs p 0 ys] V_struct.prems(2)
    by (simp add: t encode_all_def)
qed (auto simp: primitive_defs read_u16_be_at read_u32_be_at read_u64_at peek_at subspan_def)

lemma reads_if:
  "read_u16_be m p = (if p + 2 \<le> length m then Some (u16_of (m ! p) (m ! (p + 1))) else None)"
  "read_u32_be m p = (if p + 4 \<le> length m
    then Some (u32_of (m ! p) (m ! (p + 1)) (m ! (p + 2)) (m ! (p + 3))) else None)"
  using read_u16_be_Some_iff [of m p] read_u32_be_Some_iff [of m p]
  by (auto simp: read_u16_be_nth read_u32_be_nth simp del: not_Some_eq)

lemma read_u64_if:
  "deserialize_u64 m p = (if p + 8 \<le> length m
    then Some (u64_of (u32_of (m ! p) (m ! (p + 1)) (m ! (p + 2)) (m ! (p + 3)))
      (u32_of (m ! (p + 4)) (m ! (p + 5)) (m ! (p + 6)) (m ! (p + 7)))) else None)"
  by (auto simp: deserialize_u64_def reads_if u64_of_def) (simp_all add: add.commute)

text \<open>A field that fits is read, one that does not fit is read past the end of the buffer.\<close>

lemma deserialize_field_exact:
  "p \<le> length m \<Longrightarrow> (if p + wire_size t \<le> length m then \<exists>v. deserialize_field m p t = Some (v, wire_size t) \<and> has_type v t
    else deserialize_field m p t = None)"
  "p + off \<le> length m \<Longrightarrow> (if p + off + total_size ts \<le> length m
    then \<exists>vs. deserialize_members m p off ts = Some (vs, off + total_size ts) \<and> types vs ts
    else deserialize_members m p off ts = None)"
proof (induction m p t and m p off ts rule: deserialize_field_deserialize_members.induct)
  case (17 m p offset t ts)
  show ?case
  proof (cases "p + offset + wire_size t \<le> length m")
    case True
    then obtain v where v: "deserialize_field m (p + offset) t = Some (v, wire_size t)" "has_type v t"
      using 17(1,3) by auto
    from 17(2) [OF v(1) refl] True v show ?thesis by (auto simp: add.assoc split: if_splits)
  next
    case False
    with 17(1,3) show ?thesis by auto
  qed
next
  case (1 m p t)
  then show ?case by (auto split: if_splits)
next
  case (15 m p ts)
  then show ?case by (auto simp: encode_struct types_def simp del: wire_size.simps(15) split: if_splits)
qed (auto simp: primitive_defs peek_def reads_if read_u64_if subspan_def)

lemma deserialize_checked_exact:
  assumes "\<forall>t \<in> set ts. 0 < wire_size t" and "offset \<le> length buf"
  shows "if offset + total_size ts \<le> length buf
    then \<exists>vs. deserialize_checked buf offset ts = Some (Inr vs) \<and> types vs ts
    else deserialize_checked buf offset ts =
      (if \<exists>k < length ts. length buf = offset + total_size (take k ts) then Some (Inl Buffer_too_small) else None)"
  using assms
proof (induction ts arbitrary: offset)
  case (Cons t ts)
  have pos: "0 < wire_size t" using Cons.prems by simp
  show ?case
  proof (cases "offset + wire_size t \<le> length buf")
    case True
    with pos have lt: "\<not> length buf \<le> offset" by linarith
    obtain v where v: "deserialize_field buf offset t = Some (v, wire_size t)" "has_type v t"
      using deserialize_field_exact(1) [OF Cons.prems(2), of t] True by auto
    have "(\<exists>k < length (t # ts). length buf = offset + total_size (take k (t # ts))) \<longleftrightarrow>
        (\<exists>k < length ts. length buf = offset + wire_size t + total_size (take k ts))"
      using lt by (subst Ex_less_Suc2 [of "length ts", folded length_Cons [of t]]) (simp add: add.assoc)
    then show ?thesis
      using Cons.IH [of "offset + wire_size t"] Cons.prems True lt v by (auto simp: add.assoc split: if_splits)
  next
    case False
    then have "deserialize_field buf offset t = None"
      using deserialize_field_exact(1) [OF Cons.prems(2), of t] by simp
    moreover have "(\<exists>k < length (t # ts). length buf = offset + total_size (take k (t # ts))) \<longleftrightarrow> length buf = offset"
      using False by (subst Ex_less_Suc2 [of "length ts", folded length_Cons [of t]]) auto
    ultimately show ?thesis using False Cons.prems(2) by auto
  qed
qed simp

lemma deserialize_checked_typed:
  "deserialize_checked buf offset ts = Some (Inr vs) \<Longrightarrow> types vs ts"
proof (induction ts arbitrary: offset vs)
  case (Cons t ts)
  then have "offset \<le> length buf" by (auto split: if_splits)
  with Cons.prems obtain v ws where v: "deserialize_field buf offset t = Some (v, wire_size t)" "has_type v t"
    and ws: "deserialize_checked buf (offset + wire_size t) ts = Some (Inr ws)" and vs: "vs = v # ws"
    using deserialize_field_exact(1) [of offset buf t]
    by (auto simp: bind_eq_Some_conv split: if_splits sum.splits)
  from v(2) Cons.IH [OF ws] show ?case by (simp add: vs)
qed simp

lemma deserialize_typed: "deserialize buf ts = Some (Inr vs) \<Longrightarrow> types vs ts"
  unfolding deserialize_def by (rule deserialize_checked_typed)

lemma deserialize_checked_encode:
  "types vs ts \<Longrightarrow> (\<forall>t \<in> set ts. 0 < wire_size t) \<Longrightarrow> length xs = offset \<Longrightarrow>
   deserialize_checked (xs @ encode_all vs @ ys) offset ts = Some (Inr vs)"
proof (induction vs arbitrary: ts xs offset)
  case (Cons v vs)
  then obtain u us where ts: "ts = u # us" "has_type v u" "types vs us" by (cases ts) auto
  have "deserialize_checked ((xs @ encode v) @ encode_all vs @ ys) (offset + length (encode v)) us = Some (Inr vs)"
    using Cons.prems ts by (intro Cons.IH) auto
  moreover have "deserialize_field (xs @ encode v @ encode_all vs @ ys) offset u = Some (v, length (encode v))"
    using deserialize_encode [OF ts(2) Cons.prems(3)] .
  moreover have "0 < length (encode v)" using Cons.prems(2) ts has_type_size [OF ts(2)] by simp
  ultimately show ?case using ts Cons.prems(3) by simp
qed (auto simp: types_def)

text \<open>Reading back an encoding: the only failure is a member that starts at the end of the buffer.\<close>

lemma deserialize_checked_encode_exact:
  "types vs ts \<Longrightarrow> length xs = offset \<Longrightarrow> deserialize_checked (xs @ encode_all vs @ ys) offset ts =
     Some (if \<forall>k < length ts. total_size (take k ts) < length (encode_all vs @ ys) then Inr vs else Inl Buffer_too_small)"
proof (induction vs arbitrary: ts xs offset)
  case (Cons v vs)
  then obtain u us where ts: "ts = u # us" "has_type v u" "types vs us" by (cases ts) auto
  let ?buf = "xs @ encode v @ encode_all vs @ ys"
  note size = has_type_size [OF ts(2)]
  have all: "(\<forall>k < length ts. total_size (take k ts) < length (encode_all (v # vs) @ ys)) \<longleftrightarrow>
      0 < length (encode v @ encode_all vs @ ys) \<and> (\<forall>k < length us. total_size (take k us) < length (encode_all vs @ ys))"
    unfolding ts(1) by (subst All_less_Suc2 [of "length us", folded length_Cons [of u]]) (simp add: size)
  show ?case
  proof (cases "length ?buf \<le> offset")
    case True
    then show ?thesis using Cons.prems(2) unfolding all by (simp add: ts(1))
  next
    case False
    have "deserialize_checked ((xs @ encode v) @ encode_all vs @ ys) (offset + length (encode v)) us =
        Some (if \<forall>k < length us. total_size (take k us) < length (encode_all vs @ ys) then Inr vs else Inl Buffer_too_small)"
      using Cons.prems ts by (intro Cons.IH) auto
    moreover have "deserialize_field ?buf offset u = Some (v, length (encode v))"
      using deserialize_encode [OF ts(2) Cons.prems(2)] .
    ultimately show ?thesis using False Cons.prems(2) unfolding all by (simp add: ts(1))
  qed
qed (auto simp: types_def)

lemma has_type_inhabits: "has_type v t \<Longrightarrow> inhabits v t"
proof (induction v arbitrary: t)
  case (V_struct vs)
  then show ?case by (auto simp: list_all2_conv_all_nth)
qed auto

section \<open>Properties\<close>

text \<open>C31. The codec round trip and its exact limits. Every value of every aggregate of the supported types is
  serialised, into a buffer with room for it, as exactly its big-endian encoding, with its size reported and the rest
  of the buffer left alone. Deserialising what was written, whatever follows it, gives the value back if and only if
  two conditions hold: every resizable container in it has the size that container has in a value-initialised aggregate
  (a non-empty \<open>std::vector\<close> is written but never read back), and no member starts at the end of the buffer (as a
  trailing empty array does when nothing follows). In particular it is given back whenever the containers have that
  size and no member is empty.\<close>

theorem codec_roundtrip:
  assumes "list_all2 inhabits vs ts" and "length (encode_all vs) \<le> length buf"
  shows "serialize buf vs = Some (encode_all vs @ drop (length (encode_all vs)) buf, Inr (length (encode_all vs))) \<and>
    (deserialize (encode_all vs @ ys) ts = Some (Inr vs) \<longleftrightarrow>
      types vs ts \<and> (\<forall>k < length ts. total_size (take k ts) < length (encode_all vs @ ys))) \<and>
    (types vs ts \<and> (\<forall>t \<in> set ts. 0 < wire_size t) \<longrightarrow> deserialize (encode_all vs @ ys) ts = Some (Inr vs))"
proof (intro conjI)
  show "serialize buf vs = Some (encode_all vs @ drop (length (encode_all vs)) buf, Inr (length (encode_all vs)))"
    using assms(2) by (simp add: serialize_def serialize_checked_store overwrite_def)
  show "deserialize (encode_all vs @ ys) ts = Some (Inr vs) \<longleftrightarrow>
      types vs ts \<and> (\<forall>k < length ts. total_size (take k ts) < length (encode_all vs @ ys))"
    using deserialize_typed [of "encode_all vs @ ys" ts vs] deserialize_checked_encode_exact [of vs ts "[]" 0 ys]
    by (auto simp: deserialize_def split: if_splits)
  show "types vs ts \<and> (\<forall>t \<in> set ts. 0 < wire_size t) \<longrightarrow> deserialize (encode_all vs @ ys) ts = Some (Inr vs)"
    using deserialize_checked_encode [of vs ts "[]" 0 ys] by (simp add: deserialize_def)
qed

definition example_type :: "codec_type list" where
  "example_type = [T_u16, T_enum T_u8, T_struct [T_f32, T_bool], T_bytes 3, T_i64]"

definition example_value :: "codec_value list" where
  "example_value = [V_u16 0x1234, V_enum (V_u8 2), V_struct [V_f32 0x3F800000, V_bool True], V_bytes [7, 8, 9], V_i64 (- 2)]"

lemma codec_roundtrip_witness:
  "deserialize (encode_all example_value @ [0, 0]) example_type = Some (Inr example_value) \<and>
   serialize (replicate 19 5) example_value = Some (encode_all example_value, Inr 19) \<and>
   deserialize (encode_all [V_u16 1, V_bytes [2, 3]] @ [0, 0]) [T_u16, T_container 0] \<noteq> Some (Inr [V_u16 1, V_bytes [2, 3]]) \<and>
   deserialize (encode_all [V_u16 1, V_bytes []] @ []) [T_u16, T_bytes 0] \<noteq> Some (Inr [V_u16 1, V_bytes []])"
proof -
  have ty: "types example_value example_type" "list_all2 inhabits example_value example_type"
    by (simp_all add: example_value_def example_type_def types_def)
  have pos: "\<forall>t \<in> set example_type. 0 < wire_size t" by (simp add: example_type_def)
  have size: "length (encode_all example_value) = 19" by (simp add: example_value_def)
  show ?thesis
    using codec_roundtrip [OF ty(2), of "replicate 19 5" "[0, 0]"] ty(1) pos
      codec_roundtrip [of "[V_u16 1, V_bytes [2, 3]]" "[T_u16, T_container 0]" "replicate 4 0" "[0, 0]"]
      codec_roundtrip [of "[V_u16 1, V_bytes []]" "[T_u16, T_bytes 0]" "replicate 4 0" "[]"]
    by (auto simp: size)
qed

text \<open>C32. The bound check of serialisation comes too late: into a buffer without room for the value,
  \<open>serialize\<close> writes past the end instead of reporting an error, so it never returns
  \<open>buffer_too_small\<close>; it is defined exactly when the value fits.\<close>

theorem codec_serialize_bounds:
  "serialize buf vs = (if length (encode_all vs) \<le> length buf
     then Some (encode_all vs @ drop (length (encode_all vs)) buf, Inr (length (encode_all vs))) else None)"
  by (simp add: serialize_def serialize_checked_store overwrite_def)

text \<open>What deserialisation does with every buffer: long enough, it returns a value of the type; cut
  exactly between two members, it reports \<open>buffer_too_small\<close>; cut inside a member, it reads past
  the end of the buffer.\<close>

theorem codec_deserialize_bounds:
  assumes "\<forall>t \<in> set ts. 0 < wire_size t"
  shows "(total_size ts \<le> length buf \<longrightarrow> (\<exists>vs. deserialize buf ts = Some (Inr vs) \<and> types vs ts)) \<and>
    (length buf < total_size ts \<longrightarrow> deserialize buf ts =
      (if \<exists>k < length ts. length buf = total_size (take k ts) then Some (Inl Buffer_too_small) else None))"
  using deserialize_checked_exact [OF assms, of 0 buf] by (simp add: deserialize_def split: if_splits)

lemma codec_deserialize_bounds_witness:
  "deserialize [1, 2] [T_u16, T_u32] = Some (Inl Buffer_too_small) \<and> deserialize [1, 2, 3] [T_u16, T_u32] = None \<and>
   (\<exists>vs. deserialize [1, 2, 3, 4, 5, 6, 7] [T_u16, T_u32] = Some (Inr vs))"
proof -
  let ?t = "[T_u16, T_u32]"
  have k: "k < length ?t \<longleftrightarrow> k = 0 \<or> k = 1" for k by (simp add: less_Suc_eq)
  have 2: "\<exists>k < length ?t. length [1 :: byte, 2] = total_size (take k ?t)" by (intro exI [of _ 1]) simp
  have 3: "\<not> (\<exists>k < length ?t. length [1 :: byte, 2, 3] = total_size (take k ?t))" unfolding k by (intro notI, elim exE conjE disjE) simp_all
  have pos: "\<forall>t \<in> set ?t. 0 < wire_size t" by simp
  show ?thesis
    using codec_deserialize_bounds [OF pos, of "[1, 2]"] codec_deserialize_bounds [OF pos, of "[1, 2, 3]"]
      codec_deserialize_bounds [OF pos, of "[1, 2, 3, 4, 5, 6, 7]"] 2 3 by (simp, blast)
qed

text \<open>A complete message: into a buffer with room, \<open>serialize_message\<close> writes the header with the
  length of the payload filled in and then the encoded payload, and reports the size of both; a
  receiver reading the header and the payload gets the payload length and the value back.\<close>

theorem codec_message:
  assumes "types vs ts" and "\<forall>t \<in> set ts. 0 < wire_size t" and "16 + total_size ts \<le> length buf"
    and "total_size ts + 8 < 2 ^ 32"
  shows "\<exists>m. serialize_message buf (header_bytes h) vs = Some (m, Inr (16 + total_size ts)) \<and>
    m = header_bytes (h\<lparr>f_length := of_nat (total_size ts) + 8\<rparr>) @ encode_all vs @ drop (16 + total_size ts) buf \<and>
    hdr_payload_length m = Some (of_nat (total_size ts)) \<and>
    deserialize_payload (take (total_size ts) (drop 16 m)) ts = Some (Inr vs)"
proof -
  let ?m = "header_bytes (h\<lparr>f_length := of_nat (total_size ts) + 8\<rparr>) @ encode_all vs @ drop (16 + total_size ts) buf"
  have st: "store buf 0 (header_bytes h) = Some (header_bytes h @ drop 16 buf)"
    using assms(3) by (simp add: store_overwrite overwrite_def)
  have ser: "serialize (drop 16 buf) vs = Some (encode_all vs @ drop (16 + total_size ts) buf, Inr (total_size ts))"
    using types_size [OF assms(1)] assms(3)
    by (simp add: serialize_def serialize_checked_store overwrite_def add.commute)
  have back_in: "store (header_bytes h @ drop 16 buf) 16 (encode_all vs @ drop (16 + total_size ts) buf) =
      Some (header_bytes h @ encode_all vs @ drop (16 + total_size ts) buf)"
    using assms(3) types_size [OF assms(1)] by (simp add: store_overwrite overwrite_def)
  have "serialize_message buf (header_bytes h) vs = Some (?m, Inr (16 + total_size ts))"
    using assms(3) by (simp add: serialize_message_def wire_consts st subspan_from_Some ser back_in hdr_setters)
  moreover have "unat (of_nat (total_size ts) + 8 :: u32) = total_size ts + 8"
    using assms(4) unat_of_nat_small [of "total_size ts + 8", where 'a = 32] by simp
  then have "hdr_payload_length ?m = Some (of_nat (total_size ts))"
    by (simp add: hdr_getters word_le_nat_alt)
  moreover have "deserialize_payload (take (total_size ts) (drop 16 ?m)) ts = Some (Inr vs)"
    using deserialize_checked_encode [OF assms(1,2), of "[]" 0 "[]"] types_size [OF assms(1)]
    by (simp add: deserialize_payload_def deserialize_def)
  ultimately show ?thesis by blast
qed

lemma codec_message_witness:
  "\<exists>m. serialize_message (replicate 40 0) header_default example_value = Some (m, Inr 35) \<and>
     deserialize_payload (take 19 (drop 16 m)) example_type = Some (Inr example_value)"
proof -
  have ty: "types example_value example_type" by (simp add: example_value_def example_type_def types_def)
  have pos: "\<forall>t \<in> set example_type. 0 < wire_size t" by (simp add: example_type_def)
  have size: "total_size example_type = 19" by (simp add: example_type_def)
  obtain h where h: "header_default = header_bytes h" using header_default_bytes unfolding append_Nil2 by (rule that)
  have "16 + total_size example_type \<le> length (replicate 40 (0 :: byte))" "total_size example_type + 8 < 2 ^ 32"
    by (simp_all add: size)
  from codec_message [OF ty pos this, of h] obtain m where
    "serialize_message (replicate 40 0) (header_bytes h) example_value = Some (m, Inr (16 + total_size example_type))"
    "deserialize_payload (take (total_size example_type) (drop 16 m)) example_type = Some (Inr example_value)"
    by (elim exE conjE) (rule that)
  then show ?thesis unfolding size h by (intro exI [of _ m] conjI) simp_all
qed

end
