(* ===== verification/Api_Application.thy ===== *)
theory Api_Application
  imports Route_Manager Sd_Discovery Wire_Codec
begin

text \<open>
  \<open>api/application.hpp\<close>: messages and the application. Handlers run inside \<open>route\<close> and may route
  further messages, so the application is modelled with them: a callable is one of the closures the
  library registers, or a user's handler. \<open>'w\<close> is the state of the objects
  the handlers work on, \<open>'a\<close> the type of availability listeners.

  \<open>route\<close> and the handlers call each other without a bound on the depth. \<open>app_route\<close> therefore takes
  fuel: \<open>Done\<close> is a return, \<open>Undefined\<close> undefined behaviour, and \<open>Running\<close> that the fuel, a bound on
  the nesting of \<open>route\<close> calls, did not suffice.
\<close>

datatype 'r run = Done 'r | Undefined | Running

definition bind_run :: "'r run \<Rightarrow> ('r \<Rightarrow> 's run) \<Rightarrow> 's run" where
  "bind_run x f = (case x of Done r \<Rightarrow> f r | Undefined \<Rightarrow> Undefined | Running \<Rightarrow> Running)"

text \<open>An operation on memory inside a run.\<close>

definition mem_run :: "'r option \<Rightarrow> ('r \<Rightarrow> 's run) \<Rightarrow> 's run" where
  "mem_run x f = (case x of Some r \<Rightarrow> f r | None \<Rightarrow> Undefined)"

section \<open>message\<close>

text \<open>A \<open>message\<close> is its vector \<open>data\<close>. \<open>payload\<close> is the view after the header, empty for short messages.\<close>

definition message_payload :: "byte list \<Rightarrow> byte list" where
  "message_payload data = (if length data \<le> header_size then [] else drop header_size data)"

definition message_create :: "nat \<Rightarrow> byte list option" where
  "message_create payload_size = do {
     let data = replicate (header_size + payload_size) 0;
     data \<leftarrow> set_protocol_ver data protocol_version;
     set_payload_length data (of_nat payload_size)
   }"

definition create_response :: "byte list \<Rightarrow> nat \<Rightarrow> byte list option" where
  "create_response req payload_size = do {
     m \<leftarrow> message_create payload_size;
     service \<leftarrow> hdr_service req;
     m \<leftarrow> set_service m service;
     mth \<leftarrow> hdr_method req;
     m \<leftarrow> set_method m mth;
     client \<leftarrow> hdr_client req;
     m \<leftarrow> set_client m client;
     session \<leftarrow> hdr_session req;
     m \<leftarrow> set_session m session;
     iface \<leftarrow> hdr_interface_ver req;
     m \<leftarrow> set_interface_ver m iface;
     m \<leftarrow> set_msg_type m mt_response;
     set_ret_code m e_ok
   }"

definition create_notification :: "service_id \<Rightarrow> method_id \<Rightarrow> nat \<Rightarrow> byte list option" where
  "create_notification service event payload_size = do {
     m \<leftarrow> message_create payload_size;
     m \<leftarrow> set_service m service;
     m \<leftarrow> set_method m event;
     m \<leftarrow> set_msg_type m mt_notification;
     set_ret_code m e_ok
   }"

definition create_request :: "service_id \<Rightarrow> method_id \<Rightarrow> client_id \<Rightarrow> session_id \<Rightarrow> nat \<Rightarrow> byte list option" where
  "create_request service mth client session payload_size = do {
     m \<leftarrow> message_create payload_size;
     m \<leftarrow> set_service m service;
     m \<leftarrow> set_method m mth;
     m \<leftarrow> set_client m client;
     m \<leftarrow> set_session m session;
     m \<leftarrow> set_msg_type m mt_request;
     set_ret_code m e_ok
   }"

text \<open>\<open>serialize (msg.payload (), value)\<close>: the payload is a view of \<open>data\<close>.\<close>

definition serialize_payload :: "byte list \<Rightarrow> codec_value list \<Rightarrow> (byte list \<times> (codec_error + nat)) option" where
  "serialize_payload data value = do {
     (payload, result) \<leftarrow> serialize (message_payload data) value;
     data \<leftarrow> store data header_size payload;
     Some (data, result)
   }"

text \<open>\<open>std::vector::resize\<close>\<close>

definition vec_resize :: "'v \<Rightarrow> 'v list \<Rightarrow> nat \<Rightarrow> 'v list" where
  "vec_resize fill v n = take n v @ replicate (n - length v) fill"

text \<open>The end of every builder: the payload length is set and the message cut to its size.\<close>

definition finish_message :: "byte list \<Rightarrow> nat \<Rightarrow> byte list option" where
  "finish_message data n = do {
     data \<leftarrow> set_payload_length data (of_nat n);
     Some (vec_resize 0 data (header_size + n))
   }"

section \<open>Callables and pending responses\<close>

text \<open>\<open>Serve\<close> is the closure of \<open>skeleton::serve\<close> with the request type, \<open>sizeof (Resp)\<close> and the user's
  function, which may route messages before it returns its response; \<open>Serve_oneway\<close> and
  \<open>On_response\<close> are the closures of \<open>skeleton::serve_oneway\<close> and \<open>proxy::on_response\<close>, \<open>On_event\<close> those of
  the event subscriptions in \<open>comm/\<close>.\<close>

datatype 'w callable =
    Serve "codec_type list" nat "'w \<Rightarrow> codec_value list \<Rightarrow> ('w \<times> byte list list \<times> codec_value list) option"
  | Serve_oneway "codec_type list" "'w \<Rightarrow> codec_value list \<Rightarrow> 'w"
  | On_response "codec_type list" "'w \<Rightarrow> codec_error + codec_value list \<Rightarrow> 'w"
  | On_event "codec_type list" "'w \<Rightarrow> codec_value list \<Rightarrow> 'w"
  | User_handler "'w \<Rightarrow> message_view \<Rightarrow> 'w \<times> byte list list"

text \<open>A pending entry is a context and a function; the pair the library registers is an operation state
  of \<open>call_sender\<close> with its \<open>on_response\<close>: the call it belongs to and its response type.\<close>

record call_op =
  op_id :: nat
  op_resp :: "codec_type list"

text \<open>How a receiver is completed.\<close>

datatype completion = Value "codec_value list" | Error_response | Error_deserialize

section \<open>application\<close>

record app_config =
  app_name :: string
  app_client :: client_id
  app_sd :: sd_config

definition app_config_default :: app_config where
  "app_config_default = \<lparr>app_name = ''bsomeip'', app_client = Strong_id 1, app_sd = sd_config_default\<rparr>"

record ('w, 'a) application =
  app_cfg :: app_config
  app_router :: "('w callable, 'a) routing_manager"
  app_discovery :: discovery
  session_counter :: u16
  app_pending :: "call_op option list"
  app_world :: 'w
  app_completions :: "(nat \<times> completion) list"

definition application_init :: "app_config \<Rightarrow> 'w \<Rightarrow> ('w, 'a) application" where
  "application_init config w =
     \<lparr>app_cfg = config, app_router = manager_empty, app_discovery = discovery_init (app_sd config),
      session_counter = 1, app_pending = replicate 256 None, app_world = w, app_completions = []\<rparr>"

definition app_offer_service ::
    "('w, 'a) application \<Rightarrow> service_id \<Rightarrow> instance_id \<Rightarrow> u8 \<Rightarrow> u32 \<Rightarrow> int \<Rightarrow>
     ('w, 'a) application \<times> ('a \<times> service_id \<times> instance_id \<times> bool) list" where
  "app_offer_service app service inst major minor now =
     (case manager_offer_service (app_router app) service inst major minor of (r, calls) \<Rightarrow>
        (app\<lparr>app_router := r, app_discovery := start_offer (app_discovery app) service inst major minor [] now\<rparr>, calls))"

definition app_stop_offer_service ::
    "('w, 'a) application \<Rightarrow> service_id \<Rightarrow> instance_id \<Rightarrow>
     ('w, 'a) application \<times> ('a \<times> service_id \<times> instance_id \<times> bool) list" where
  "app_stop_offer_service app service inst =
     (case manager_stop_offer_service (app_router app) service inst of (r, calls) \<Rightarrow>
        (app\<lparr>app_router := r, app_discovery := stop_offer (app_discovery app) service inst\<rparr>, calls))"

definition app_request_service ::
    "('w, 'a) application \<Rightarrow> service_id \<Rightarrow> instance_id \<Rightarrow> u8 \<Rightarrow> u32 \<Rightarrow> int \<Rightarrow> ('w, 'a) application" where
  "app_request_service app service inst major minor now =
     app\<lparr>app_discovery := start_find (app_discovery app) service inst major minor now\<rparr>"

definition app_release_service :: "('w, 'a) application \<Rightarrow> service_id \<Rightarrow> instance_id \<Rightarrow> ('w, 'a) application" where
  "app_release_service app service inst = app\<lparr>app_discovery := stop_find (app_discovery app) service inst\<rparr>"

definition with_dispatcher ::
    "('w, 'a) application \<Rightarrow> (('w callable, 'a) dispatcher \<Rightarrow> ('w callable, 'a) dispatcher) \<Rightarrow> ('w, 'a) application" where
  "with_dispatcher app f = app\<lparr>app_router := (app_router app)\<lparr>rm_dispatcher := f (rm_dispatcher (app_router app))\<rparr>\<rparr>"

text \<open>A handler holding a callable: what the converting constructor of \<open>message_handler_t\<close> builds.\<close>

definition handler_of :: "'f \<Rightarrow> 'f inplace_handler" where
  "handler_of f = \<lparr>ih_storage = Some f, ih_invoke = True, ih_destroy = True\<rparr>"

definition register_message_handler ::
    "('w, 'a) application \<Rightarrow> service_id \<Rightarrow> method_id \<Rightarrow> 'w callable inplace_handler \<Rightarrow> ('w, 'a) application" where
  "register_message_handler app service mth handler =
     with_dispatcher app (\<lambda>d. register_handler d service mth handler)"

definition unregister_message_handler ::
    "('w, 'a) application \<Rightarrow> service_id \<Rightarrow> method_id \<Rightarrow> ('w, 'a) application" where
  "unregister_message_handler app service mth = with_dispatcher app (\<lambda>d. unregister_handler d service mth)"

definition register_availability_handler ::
    "('w, 'a) application \<Rightarrow> service_id \<Rightarrow> 'a \<Rightarrow> ('w, 'a) application" where
  "register_availability_handler app service handler = with_dispatcher app (\<lambda>d. on_availability d service handler)"

definition app_subscribe ::
    "('w, 'a) application \<Rightarrow> service_id \<Rightarrow> eventgroup_id \<Rightarrow> 'w callable inplace_handler \<Rightarrow> ('w, 'a) application" where
  "app_subscribe app service eg handler = with_dispatcher app (\<lambda>d. subscribe d service eg handler)"

definition app_unsubscribe :: "('w, 'a) application \<Rightarrow> service_id \<Rightarrow> eventgroup_id \<Rightarrow> ('w, 'a) application" where
  "app_unsubscribe app service eg = with_dispatcher app (\<lambda>d. unsubscribe d service eg)"

definition register_pending :: "('w, 'a) application \<Rightarrow> session_id \<Rightarrow> call_op \<Rightarrow> ('w, 'a) application" where
  "register_pending app session oper =
     (let idx = unat (id_value session);
          p = (if length (app_pending app) \<le> idx then vec_resize None (app_pending app) (idx + 1) else app_pending app)
      in app\<lparr>app_pending := p[idx := Some oper]\<rparr>)"

text \<open>\<open>call_sender::op_state::on_response\<close>\<close>

definition call_on_response ::
    "('w, 'a) application \<Rightarrow> call_op \<Rightarrow> byte list \<Rightarrow> return_code \<Rightarrow> ('w, 'a) application run" where
  "call_on_response app oper payload rc =
     (let complete = (\<lambda>c. app\<lparr>app_completions := app_completions app @ [(op_id oper, c)]\<rparr>)
      in if rc \<noteq> e_ok then Done (complete Error_response)
         else mem_run (deserialize payload (op_resp oper)) (\<lambda>result.
           Done (complete (case result of Inr v \<Rightarrow> Value v | Inl err \<Rightarrow> Error_deserialize))))"

text \<open>Routing the messages a handler sends, in order.\<close>

fun route_each ::
    "(('w, 'a) application \<Rightarrow> byte list \<Rightarrow> (('w, 'a) application \<times> bool) run) \<Rightarrow>
     ('w, 'a) application \<Rightarrow> byte list list \<Rightarrow> ('w, 'a) application run" where
  "route_each route app [] = Done app"
| "route_each route app (msg # msgs) = bind_run (route app msg) (\<lambda>(app, _). route_each route app msgs)"

text \<open>Calling a handler, given \<open>route\<close>.\<close>

definition call_callable ::
    "(('w, 'a) application \<Rightarrow> byte list \<Rightarrow> (('w, 'a) application \<times> bool) run) \<Rightarrow>
     ('w, 'a) application \<Rightarrow> 'w callable \<Rightarrow> message_view \<Rightarrow> ('w, 'a) application run" where
  "call_callable route app f view =
     (case f of
        Serve req size_resp handler \<Rightarrow>
          mem_run (deserialize (view_payload view) req) (\<lambda>req_result.
            case req_result of
              Inl err \<Rightarrow> Done app
            | Inr r \<Rightarrow> mem_run (handler (app_world app) r) (\<lambda>(w, sent, resp).
                bind_run (route_each route (app\<lparr>app_world := w\<rparr>) sent) (\<lambda>app.
                  mem_run (create_response (view_header view) size_resp) (\<lambda>msg.
                    mem_run (serialize_payload msg resp) (\<lambda>(msg, ser_result).
                      case ser_result of
                        Inl err \<Rightarrow> Done app
                      | Inr n \<Rightarrow> mem_run (finish_message msg n) (\<lambda>msg.
                          bind_run (route app msg) (\<lambda>(app, _). Done app)))))))
      | Serve_oneway req handler \<Rightarrow>
          mem_run (deserialize (view_payload view) req) (\<lambda>req_result.
            case req_result of
              Inl err \<Rightarrow> Done app
            | Inr r \<Rightarrow> Done (app\<lparr>app_world := handler (app_world app) r\<rparr>))
      | On_response resp handler \<Rightarrow>
          mem_run (hdr_msg_type (view_header view)) (\<lambda>mtype.
            if \<not> is_response mtype then Done app
            else mem_run (deserialize (view_payload view) resp) (\<lambda>result.
              Done (app\<lparr>app_world := handler (app_world app) result\<rparr>)))
      | On_event ty handler \<Rightarrow>
          mem_run (deserialize (view_payload view) ty) (\<lambda>result.
            case result of
              Inl err \<Rightarrow> Done app
            | Inr v \<Rightarrow> Done (app\<lparr>app_world := handler (app_world app) v\<rparr>))
      | User_handler handler \<Rightarrow>
          (case handler (app_world app) view of (w, sent) \<Rightarrow> route_each route (app\<lparr>app_world := w\<rparr>) sent))"

fun call_each ::
    "(('w, 'a) application \<Rightarrow> byte list \<Rightarrow> (('w, 'a) application \<times> bool) run) \<Rightarrow>
     ('w, 'a) application \<Rightarrow> ('w callable \<times> message_view) list \<Rightarrow> ('w, 'a) application run" where
  "call_each route app [] = Done app"
| "call_each route app ((f, view) # cs) = bind_run (call_callable route app f view) (\<lambda>app. call_each route app cs)"

text \<open>The lookup of \<open>route\<close>: the pending call a message answers.\<close>

definition pending_for :: "('w, 'a) application \<Rightarrow> session_id \<Rightarrow> call_op option" where
  "pending_for app session =
     (let idx = unat (id_value session)
      in if idx < length (app_pending app) then app_pending app ! idx else None)"

fun app_route :: "nat \<Rightarrow> ('w, 'a) application \<Rightarrow> byte list \<Rightarrow> (('w, 'a) application \<times> bool) run" where
  "app_route 0 app raw = Running"
| "app_route (Suc fuel) app raw =
     (if length raw < header_size then Done (app, False)
      else mem_run (hdr_msg_type raw) (\<lambda>mtype.
        mem_run (hdr_session raw) (\<lambda>session.
          case (if is_response mtype then pending_for app session else None) of
            Some entry \<Rightarrow>
              (let app = app\<lparr>app_pending := (app_pending app)[unat (id_value session) := None]\<rparr>
               in mem_run (subspan_from raw header_size) (\<lambda>payload.
                 mem_run (hdr_payload_length raw) (\<lambda>plen.
                   let payload = (if unat plen < length payload then take (unat plen) payload else payload)
                   in mem_run (hdr_ret_code raw) (\<lambda>rc.
                     bind_run (call_on_response app entry payload rc) (\<lambda>app. Done (app, True))))))
          | None \<Rightarrow>
              mem_run (route_message (app_router app) raw) (\<lambda>(handled, calls).
                bind_run (call_each (app_route fuel) app calls) (\<lambda>app. Done (app, handled))))))"

text \<open>\<open>session_counter_++\<close>, and once more when the value was 0.\<close>

definition next_session :: "('w, 'a) application \<Rightarrow> ('w, 'a) application \<times> session_id" where
  "next_session app =
     (let s = session_counter app; app = app\<lparr>session_counter := s + 1\<rparr>
      in if s = 0
         then (let s = session_counter app in (app\<lparr>session_counter := s + 1\<rparr>, Strong_id s))
         else (app, Strong_id s))"

end
