(* ===== verification/Api_Service.thy ===== *)
theory Api_Service
  imports Api_Application
begin

text \<open>
  \<open>api/proxy.hpp\<close>, \<open>api/skeleton.hpp\<close> and \<open>comm/\<close>: the client and server sides of a service. Proxies and
  skeletons hold a reference to the application, which their operations take and return. \<open>sizeof\<close> of
  a request or response type is a parameter: its layout is the compiler's.
\<close>

section \<open>Proxy\<close>

record proxy =
  prx_service :: service_id
  prx_instance :: instance_id

definition proxy_make :: proxy where
  "proxy_make = \<lparr>prx_service = Strong_id 0, prx_instance = Strong_id 0\<rparr>"

definition proxy_target :: "proxy \<Rightarrow> service_id \<Rightarrow> instance_id \<Rightarrow> proxy" where
  "proxy_target p service inst = p\<lparr>prx_service := service, prx_instance := inst\<rparr>"

definition proxy_request_service ::
    "('w, 'a) application \<Rightarrow> proxy \<Rightarrow> u8 \<Rightarrow> u32 \<Rightarrow> int \<Rightarrow> ('w, 'a) application" where
  "proxy_request_service app p major minor now =
     app_request_service app (prx_service p) (prx_instance p) major minor now"

definition proxy_release_service :: "('w, 'a) application \<Rightarrow> proxy \<Rightarrow> ('w, 'a) application" where
  "proxy_release_service app p = app_release_service app (prx_service p) (prx_instance p)"

definition proxy_on_availability :: "('w, 'a) application \<Rightarrow> proxy \<Rightarrow> 'a \<Rightarrow> ('w, 'a) application" where
  "proxy_on_availability app p handler = register_availability_handler app (prx_service p) handler"

definition proxy_subscribe ::
    "('w, 'a) application \<Rightarrow> proxy \<Rightarrow> eventgroup_id \<Rightarrow> 'w callable inplace_handler \<Rightarrow> ('w, 'a) application" where
  "proxy_subscribe app p eg handler = app_subscribe app (prx_service p) eg handler"

definition build_request_impl ::
    "('w, 'a) application \<Rightarrow> proxy \<Rightarrow> method_id \<Rightarrow> nat \<Rightarrow> codec_value list \<Rightarrow>
     (('w, 'a) application \<times> byte list) option" where
  "build_request_impl app p mth sizeof_req payload =
     (case next_session app of (app, session) \<Rightarrow> do {
        msg \<leftarrow> create_request (prx_service p) mth (app_client (app_cfg app)) session sizeof_req;
        (msg, result) \<leftarrow> serialize_payload msg payload;
        case result of
          Inl err \<Rightarrow> do {
            let msg = vec_resize 0 msg header_size;
            msg \<leftarrow> set_payload_length msg 0;
            Some (app, msg)
          }
        | Inr n \<Rightarrow> do { msg \<leftarrow> finish_message msg n; Some (app, msg) }
      })"

text \<open>\<open>call_sender\<close>: the request, and the response type; \<open>start\<close> on the operation state \<open>op_id\<close>.\<close>

record call_sender =
  req_msg :: "byte list"
  resp_type :: "codec_type list"

definition async_call ::
    "('w, 'a) application \<Rightarrow> proxy \<Rightarrow> method_id \<Rightarrow> nat \<Rightarrow> codec_value list \<Rightarrow> codec_type list \<Rightarrow>
     (('w, 'a) application \<times> call_sender) option" where
  "async_call app p mth sizeof_req payload resp = do {
     (app, msg) \<leftarrow> build_request_impl app p mth sizeof_req payload;
     Some (app, \<lparr>req_msg = msg, resp_type = resp\<rparr>)
   }"

definition call_start ::
    "nat \<Rightarrow> ('w, 'a) application \<Rightarrow> call_sender \<Rightarrow> nat \<Rightarrow> ('w, 'a) application run" where
  "call_start fuel app c oper_id =
     mem_run (hdr_session (req_msg c)) (\<lambda>session.
       let app = register_pending app session \<lparr>op_id = oper_id, op_resp = resp_type c\<rparr>
       in bind_run (app_route fuel app (req_msg c)) (\<lambda>(app, _). Done app))"

definition build_request ::
    "('w, 'a) application \<Rightarrow> proxy \<Rightarrow> method_id \<Rightarrow> codec_value list \<Rightarrow>
     (('w, 'a) application \<times> (codec_error + byte list)) option" where
  "build_request app p mth payload =
     (case next_session app of (app, session) \<Rightarrow> do {
        msg \<leftarrow> create_request (prx_service p) mth (app_client (app_cfg app)) session 256;
        (msg, result) \<leftarrow> serialize_payload msg payload;
        case result of
          Inl err \<Rightarrow> Some (app, Inl err)
        | Inr n \<Rightarrow> do { msg \<leftarrow> finish_message msg n; Some (app, Inr msg) }
      })"

definition parse_response :: "byte list \<Rightarrow> codec_type list \<Rightarrow> (codec_error + codec_value list) option" where
  "parse_response payload resp = deserialize payload resp"

definition proxy_on_response ::
    "('w, 'a) application \<Rightarrow> proxy \<Rightarrow> method_id \<Rightarrow> codec_type list \<Rightarrow>
     ('w \<Rightarrow> codec_error + codec_value list \<Rightarrow> 'w) \<Rightarrow> ('w, 'a) application" where
  "proxy_on_response app p mth resp handler =
     register_message_handler app (prx_service p) mth (handler_of (On_response resp handler))"

section \<open>Skeleton\<close>

record skeleton =
  skel_service :: service_id
  skel_instance :: instance_id

definition skeleton_make :: skeleton where
  "skeleton_make = \<lparr>skel_service = Strong_id 0, skel_instance = Strong_id 0\<rparr>"

definition serve ::
    "('w, 'a) application \<Rightarrow> skeleton \<Rightarrow> method_id \<Rightarrow> codec_type list \<Rightarrow> nat \<Rightarrow>
     ('w \<Rightarrow> codec_value list \<Rightarrow> ('w \<times> byte list list \<times> codec_value list) option) \<Rightarrow> ('w, 'a) application" where
  "serve app s mth req sizeof_resp handler =
     register_message_handler app (skel_service s) mth (handler_of (Serve req sizeof_resp handler))"

definition serve_oneway ::
    "('w, 'a) application \<Rightarrow> skeleton \<Rightarrow> method_id \<Rightarrow> codec_type list \<Rightarrow>
     ('w \<Rightarrow> codec_value list \<Rightarrow> 'w) \<Rightarrow> ('w, 'a) application" where
  "serve_oneway app s mth req handler =
     register_message_handler app (skel_service s) mth (handler_of (Serve_oneway req handler))"

definition skeleton_offer ::
    "('w, 'a) application \<Rightarrow> skeleton \<Rightarrow> service_id \<Rightarrow> instance_id \<Rightarrow> u8 \<Rightarrow> u32 \<Rightarrow> int \<Rightarrow>
     (('w, 'a) application \<times> ('a \<times> service_id \<times> instance_id \<times> bool) list) \<times> skeleton" where
  "skeleton_offer app s service inst major minor now =
     (app_offer_service app service inst major minor now, s\<lparr>skel_service := service, skel_instance := inst\<rparr>)"

definition skeleton_stop ::
    "('w, 'a) application \<Rightarrow> skeleton \<Rightarrow>
     ('w, 'a) application \<times> ('a \<times> service_id \<times> instance_id \<times> bool) list" where
  "skeleton_stop app s = app_stop_offer_service app (skel_service s) (skel_instance s)"

text \<open>The message of \<open>notify\<close>; \<open>Inl\<close> when serialisation fails and nothing is sent.\<close>

definition notify_message :: "skeleton \<Rightarrow> method_id \<Rightarrow> codec_value list \<Rightarrow> (codec_error + byte list) option" where
  "notify_message s event payload = do {
     msg \<leftarrow> create_notification (skel_service s) event 256;
     (msg, result) \<leftarrow> serialize_payload msg payload;
     case result of
       Inl err \<Rightarrow> Some (Inl err)
     | Inr n \<Rightarrow> do { msg \<leftarrow> finish_message msg n; Some (Inr msg) }
   }"

definition skeleton_notify ::
    "nat \<Rightarrow> ('w, 'a) application \<Rightarrow> skeleton \<Rightarrow> method_id \<Rightarrow> codec_value list \<Rightarrow> ('w, 'a) application run" where
  "skeleton_notify fuel app s event payload =
     mem_run (notify_message s event payload) (\<lambda>m.
       case m of
         Inl err \<Rightarrow> Done app
       | Inr msg \<Rightarrow> bind_run (app_route fuel app msg) (\<lambda>(app, _). Done app))"

definition register_method ::
    "('w, 'a) application \<Rightarrow> skeleton \<Rightarrow> method_id \<Rightarrow> codec_type list \<Rightarrow> nat \<Rightarrow>
     ('w \<Rightarrow> codec_value list \<Rightarrow> ('w \<times> byte list list \<times> codec_value list) option) \<Rightarrow> ('w, 'a) application" where
  "register_method app s mth req sizeof_resp handler = serve app s mth req sizeof_resp handler"

section \<open>Attributes, broadcasts and calls\<close>

text \<open>\<open>comm/attribute.hpp\<close>. The value lives in the state of the handlers, which the lens \<open>get_v\<close>, \<open>set_v\<close>
  selects; \<open>repr\<close> is the object representation \<open>memcmp\<close> compares. \<open>attribute_set\<close> returns the
  messages to route, which is nothing or the notification.\<close>

record 'w attribute =
  attr_skel :: skeleton
  attr_event :: method_id
  attr_get :: "'w \<Rightarrow> codec_value list"
  attr_put :: "codec_value list \<Rightarrow> 'w \<Rightarrow> 'w"

definition attribute_notify :: "'w attribute \<Rightarrow> 'w \<Rightarrow> byte list list option" where
  "attribute_notify a w = do {
     m \<leftarrow> notify_message (attr_skel a) (attr_event a) (attr_get a w);
     Some (case m of Inl err \<Rightarrow> [] | Inr msg \<Rightarrow> [msg])
   }"

definition attribute_set ::
    "(codec_value list \<Rightarrow> byte list) \<Rightarrow> 'w attribute \<Rightarrow> 'w \<Rightarrow> codec_value list \<Rightarrow> ('w \<times> byte list list) option" where
  "attribute_set repr a w new_val =
     (let changed = (repr (attr_get a w) \<noteq> repr new_val);
          w = attr_put a new_val w
      in if changed then do { sent \<leftarrow> attribute_notify a w; Some (w, sent) } else Some (w, []))"

text \<open>The constructor registers the getter and the setter; the empty structs are one padding byte.\<close>

definition attribute_make ::
    "('w, 'a) application \<Rightarrow> (codec_value list \<Rightarrow> byte list) \<Rightarrow> 'w attribute \<Rightarrow> method_id \<Rightarrow> method_id \<Rightarrow>
     codec_type list \<Rightarrow> nat \<Rightarrow> ('w, 'a) application" where
  "attribute_make app repr a getter setter ty sizeof_t =
     (let app = serve app (attr_skel a) getter [T_u8] sizeof_t (\<lambda>w _. Some (w, [], attr_get a w))
      in serve app (attr_skel a) setter ty 1 (\<lambda>w new_val. do {
           (w, sent) \<leftarrow> attribute_set repr a w new_val;
           Some (w, sent, [V_u8 0])
         }))"

definition attribute_proxy_get ::
    "('w, 'a) application \<Rightarrow> proxy \<Rightarrow> method_id \<Rightarrow> codec_type list \<Rightarrow> (('w, 'a) application \<times> call_sender) option" where
  "attribute_proxy_get app p getter ty = async_call app p getter 1 [V_u8 0] ty"

definition attribute_proxy_set ::
    "('w, 'a) application \<Rightarrow> proxy \<Rightarrow> method_id \<Rightarrow> nat \<Rightarrow> codec_value list \<Rightarrow>
     (('w, 'a) application \<times> call_sender) option" where
  "attribute_proxy_set app p setter sizeof_t v = async_call app p setter sizeof_t v [T_u8]"

definition attribute_on_change ::
    "('w, 'a) application \<Rightarrow> proxy \<Rightarrow> method_id \<Rightarrow> codec_type list \<Rightarrow> ('w \<Rightarrow> codec_value list \<Rightarrow> 'w) \<Rightarrow> ('w, 'a) application" where
  "attribute_on_change app p event ty handler =
     proxy_subscribe app p (Strong_id (id_value event)) (handler_of (On_event ty handler))"

text \<open>\<open>comm/broadcast.hpp\<close> and \<open>comm/rpc.hpp\<close>\<close>

definition broadcast_fire ::
    "nat \<Rightarrow> ('w, 'a) application \<Rightarrow> skeleton \<Rightarrow> method_id \<Rightarrow> codec_value list \<Rightarrow> ('w, 'a) application run" where
  "broadcast_fire fuel app s event payload = skeleton_notify fuel app s event payload"

definition broadcast_subscribe ::
    "('w, 'a) application \<Rightarrow> proxy \<Rightarrow> method_id \<Rightarrow> codec_type list \<Rightarrow> ('w \<Rightarrow> codec_value list \<Rightarrow> 'w) \<Rightarrow> ('w, 'a) application" where
  "broadcast_subscribe app p event ty handler =
     proxy_subscribe app p (Strong_id (id_value event)) (handler_of (On_event ty handler))"

definition rpc_call ::
    "('w, 'a) application \<Rightarrow> proxy \<Rightarrow> method_id \<Rightarrow> nat \<Rightarrow> codec_value list \<Rightarrow> codec_type list \<Rightarrow>
     (('w, 'a) application \<times> call_sender) option" where
  "rpc_call app p mth sizeof_req request resp = async_call app p mth sizeof_req request resp"

end
