(* ===== verification/Api_Correct.thy ===== *)
theory Api_Correct
  imports Api_Service Route_Correct Wire_Codec_Correct
begin

text \<open>
  Correctness of the application, the proxies and the skeletons: the messages they build, session
  numbers, a call end to end, and three ways in which the in-process design fails - calls nobody
  serves, responses nobody waits for, and notifications.
\<close>

section \<open>Runs\<close>

lemma run_simps [simp]:
  "bind_run (Done r) f = f r" "bind_run Undefined f = Undefined" "bind_run Running f = Running"
  "mem_run (Some v) g = g v" "mem_run None g = Undefined"
  by (simp_all add: bind_run_def mem_run_def)

section \<open>Messages\<close>

text \<open>A complete message with header \<open>h\<close>, its length filled in, and an encoded value.\<close>

definition message_of :: "header_fields \<Rightarrow> codec_value list \<Rightarrow> byte list" where
  "message_of h vs = header_bytes (h\<lparr>f_length := of_nat (length (encode_all vs)) + 8\<rparr>) @ encode_all vs"

definition request_header :: "service_id \<Rightarrow> method_id \<Rightarrow> client_id \<Rightarrow> session_id \<Rightarrow> header_fields" where
  "request_header svc mth cl ss = \<lparr>f_service = svc, f_method = mth, f_length = 0, f_client = cl, f_session = ss,
     f_protocol = 1, f_interface = 0, f_type = mt_request, f_rcode = e_ok\<rparr>"

definition response_header :: "header_fields \<Rightarrow> header_fields" where
  "response_header h = h\<lparr>f_protocol := 1, f_type := mt_response, f_rcode := e_ok\<rparr>"

definition notification_header :: "service_id \<Rightarrow> method_id \<Rightarrow> header_fields" where
  "notification_header svc ev = \<lparr>f_service = svc, f_method = ev, f_length = 0, f_client = Strong_id 0,
     f_session = Strong_id 0, f_protocol = 1, f_interface = 0, f_type = mt_notification, f_rcode = e_ok\<rparr>"

lemma message_create_bytes:
  "message_create n = Some (header_bytes \<lparr>f_service = Strong_id 0, f_method = Strong_id 0, f_length = of_nat n + 8,
     f_client = Strong_id 0, f_session = Strong_id 0, f_protocol = 1, f_interface = 0,
     f_type = Message_type 0, f_rcode = Return_code 0\<rparr> @ replicate n 0)"
proof -
  have "replicate (header_size + n) (0 :: byte) = header_default @ replicate n 0"
    by (simp add: header_default_def replicate_add)
  then show ?thesis
    unfolding message_create_def header_default_bytes append_Nil2 Let_def
    by (simp only: hdr_setters Option.bind.bind_lunit append_assoc append_Nil2) (simp add: hdr_setters wire_consts)
qed

lemma create_bytes:
  "create_request svc mth cl ss n = Some (header_bytes ((request_header svc mth cl ss)\<lparr>f_length := of_nat n + 8\<rparr>) @ replicate n 0)"
  "create_notification svc ev n = Some (header_bytes ((notification_header svc ev)\<lparr>f_length := of_nat n + 8\<rparr>) @ replicate n 0)"
  "create_response (header_bytes h @ r) n = Some (header_bytes ((response_header h)\<lparr>f_length := of_nat n + 8\<rparr>) @ replicate n 0)"
  by (cases h; simp add: create_request_def create_notification_def create_response_def message_create_bytes hdr_setters
      hdr_getters request_header_def notification_header_def response_header_def)+

lemma serialize_payload_bytes:
  "serialize_payload (header_bytes h @ replicate n 0) vs =
     (if length (encode_all vs) \<le> n
      then Some (header_bytes h @ encode_all vs @ replicate (n - length (encode_all vs)) 0, Inr (length (encode_all vs)))
      else None)"
  by (auto simp: serialize_payload_def message_payload_def serialize_def serialize_checked_store overwrite_def
      wire_consts store_overwrite)

lemma finish_message_bytes:
  "finish_message (header_bytes h @ encode_all vs @ r) (length (encode_all vs)) = Some (message_of h vs)"
  by (simp add: finish_message_def hdr_setters vec_resize_def wire_consts message_of_def)

lemma message_of_length_field [simp]: "message_of (h\<lparr>f_length := l\<rparr>) vs = message_of h vs"
  by (simp add: message_of_def)

section \<open>Sessions\<close>

definition session_app :: "('w, 'a) application \<Rightarrow> nat \<Rightarrow> ('w, 'a) application" where
  "session_app app k = ((fst \<circ> next_session) ^^ k) app"

lemma next_session_step:
  assumes "session_counter app = of_nat (Suc (j mod 65535))"
  shows "snd (next_session app) = Strong_id (of_nat (Suc (j mod 65535)))"
    and "session_counter (fst (next_session app)) = of_nat (Suc (j mod 65535)) + 1"
proof -
  have "j mod 65535 < 65535" by simp
  then have "unat (of_nat (Suc (j mod 65535)) :: u16) = Suc (j mod 65535)" by (intro unat_of_nat_small) simp
  then have "of_nat (Suc (j mod 65535)) \<noteq> (0 :: u16)" by (metis Zero_not_Suc unsigned_0)
  then show "snd (next_session app) = Strong_id (of_nat (Suc (j mod 65535)))"
    "session_counter (fst (next_session app)) = of_nat (Suc (j mod 65535)) + 1"
    using assms by (simp_all add: next_session_def Let_def del: of_nat_Suc)
qed

lemma next_session_skip:
  assumes "session_counter app = of_nat (Suc (j mod 65535)) + 1"
  shows "snd (next_session app) = Strong_id (of_nat (Suc (Suc j mod 65535)))"
    and "session_counter (fst (next_session app)) = of_nat (Suc (Suc j mod 65535)) + 1"
proof -
  have "snd (next_session app) = Strong_id (of_nat (Suc (Suc j mod 65535))) \<and>
    session_counter (fst (next_session app)) = of_nat (Suc (Suc j mod 65535)) + 1"
  proof (cases "Suc (j mod 65535) = 65535")
    case True
    then have "of_nat (Suc (j mod 65535)) + 1 = (0 :: u16)" by simp
    moreover have "Suc j mod 65535 = 0" using True by (simp add: mod_Suc)
    ultimately show ?thesis using assms by (simp add: next_session_def Let_def)
  next
    case False
    then have "Suc j mod 65535 = Suc (j mod 65535)" by (simp add: mod_Suc)
    then show ?thesis
      using next_session_step [of app "Suc j"] assms by simp
  qed
  then show "snd (next_session app) = Strong_id (of_nat (Suc (Suc j mod 65535)))"
    "session_counter (fst (next_session app)) = of_nat (Suc (Suc j mod 65535)) + 1" by simp_all
qed

lemma session_app_counter:
  "session_counter app = 1 \<Longrightarrow>
   session_counter (session_app app k) = (case k of 0 \<Rightarrow> 1 | Suc j \<Rightarrow> of_nat (Suc (j mod 65535)) + 1)"
proof (induction k)
  case (Suc k)
  then show ?case
    using next_session_step(2) [of "session_app app 0" 0] next_session_skip(2) [of "session_app app k"]
    by (cases k) (simp_all add: session_app_def)
qed (simp add: session_app_def)

section \<open>Routing\<close>

lemma app_route_bytes:
  "app_route (Suc fuel) app (header_bytes h @ rest) =
     (case (if is_response (f_type h) then pending_for app (f_session h) else None) of
        Some entry \<Rightarrow> bind_run (call_on_response
            (app\<lparr>app_pending := (app_pending app)[unat (id_value (f_session h)) := None]\<rparr>) entry
            (take (unat (f_length h) - 8) rest) (f_rcode h)) (\<lambda>app. Done (app, True))
      | None \<Rightarrow> mem_run (route_message (app_router app) (header_bytes h @ rest)) (\<lambda>(handled, calls).
          bind_run (call_each (app_route fuel) app calls) (\<lambda>app. Done (app, handled))))"
proof -
  have n: "unat (if 8 \<le> f_length h then f_length h - 8 else 0) = unat (f_length h) - 8"
    by (auto simp: unat_sub word_le_nat_alt)
  have "(if k < length rest then take k rest else rest) = take k rest" for k by simp
  then show ?thesis
    by (simp add: hdr_getters n wire_consts subspan_from_Some Let_def split: option.splits)
qed

declare app_route.simps(2) [simp del]

lemma message_length_field:
  assumes "types vs ts" "total_size ts + 8 < 2 ^ 32"
  shows "unat (of_nat (length (encode_all vs)) + 8 :: u32) = length (encode_all vs) + 8"
  using assms types_size [OF assms(1)] unat_of_nat_small [of "total_size ts + 8", where 'a = 32] by simp

text \<open>A message that answers no pending call goes to the handler for its service and method.\<close>

lemma app_route_dispatch:
  assumes "types vs ts" "total_size ts + 8 < 2 ^ 32"
    and "is_response (f_type h) \<Longrightarrow> pending_for app (f_session h) = None"
    and "\<not> (f_service h = sd_service \<and> f_method h = sd_method)"
  shows "app_route (Suc fuel) app (message_of h vs) =
     (case target (rm_dispatcher (app_router app)) (f_service h) (f_method h) of
        None \<Rightarrow> Done (app, False)
      | Some hl \<Rightarrow> mem_run (handler_call hl \<lparr>view_header = message_of h vs, view_payload = encode_all vs\<rparr>)
          (\<lambda>c. bind_run (call_each (app_route fuel) app [c]) (\<lambda>app. Done (app, True))))"
proof -
  let ?h = "h\<lparr>f_length := of_nat (length (encode_all vs)) + 8\<rparr>"
  have "(if is_response (f_type ?h) then pending_for app (f_session ?h) else None) = None" using assms(3) by simp
  moreover have "unat (f_length ?h) - 8 = length (encode_all vs)"
    using message_length_field [OF assms(1,2)] by simp
  ultimately show ?thesis
    using assms(4) unfolding message_of_def app_route_bytes route_message_bytes dispatch_target Let_def
    by (auto simp: mem_run_def split: option.splits)
qed

lemma app_route_answer:
  assumes "types vs ts" "total_size ts + 8 < 2 ^ 32" "\<forall>t \<in> set ts. 0 < wire_size t"
    and "is_response (f_type h)" "f_rcode h = e_ok"
    and "pending_for app (f_session h) = Some \<lparr>op_id = k, op_resp = ts\<rparr>"
  shows "app_route (Suc fuel) app (message_of h vs) =
     Done (app\<lparr>app_pending := (app_pending app)[unat (id_value (f_session h)) := None],
               app_completions := app_completions app @ [(k, Value vs)]\<rparr>, True)"
proof -
  have "deserialize (encode_all vs) ts = Some (Inr vs)"
    using deserialize_checked_encode [OF assms(1,3), of "[]" 0 "[]"] by (simp add: deserialize_def)
  then show ?thesis
    using assms(4-6) message_length_field [OF assms(1,2)]
    unfolding message_of_def app_route_bytes by (simp add: call_on_response_def Let_def)
qed

text \<open>Serving a request: what the handler sends is routed, then its response.\<close>

lemma call_serve:
  assumes "types vs ts" "\<forall>t \<in> set ts. 0 < wire_size t" and "handler (app_world app) vs = Some (w, sent, r)"
    and "length (encode_all r) \<le> size_resp" and "route_each route (app\<lparr>app_world := w\<rparr>) sent = Done a"
  shows "call_each route app [(Serve ts size_resp handler, \<lparr>view_header = message_of h us, view_payload = encode_all vs\<rparr>)] =
    bind_run (route a (message_of (response_header h) r)) (\<lambda>(app, _). Done app)"
proof -
  have "deserialize (encode_all vs) ts = Some (Inr vs)"
    using deserialize_checked_encode [OF assms(1,2), of "[]" 0 "[]"] by (simp add: deserialize_def)
  moreover have "create_response (message_of h us) size_resp =
      Some (header_bytes ((response_header h)\<lparr>f_length := of_nat size_resp + 8\<rparr>) @ replicate size_resp 0)"
    by (simp add: message_of_def create_bytes response_header_def)
  moreover have "bind_run (bind_run x (\<lambda>(app, _). Done app)) (\<lambda>app. Done app) = bind_run x (\<lambda>(app, _). Done app)"
    for x :: "(('a, 'b) application \<times> bool) run" by (simp add: bind_run_def split: run.splits prod.splits)
  ultimately show ?thesis
    using assms(3-5)
    by (simp add: call_callable_def serialize_payload_bytes finish_message_bytes)
qed

section \<open>Building and starting calls\<close>

lemma build_request_bytes:
  assumes "length (encode_all vs) \<le> sizeof_req"
  shows "async_call app p mth sizeof_req vs resp = (case next_session app of (app1, ss) \<Rightarrow>
    Some (app1, \<lparr>req_msg = message_of (request_header (prx_service p) mth (app_client (app_cfg app)) ss) vs,
      resp_type = resp\<rparr>))"
proof -
  obtain app1 ss where n: "next_session app = (app1, ss)" by fastforce
  then have "app_cfg app1 = app_cfg app" by (auto simp: next_session_def Let_def split: if_splits)
  then show ?thesis
    using assms by (simp add: async_call_def build_request_impl_def n create_bytes serialize_payload_bytes finish_message_bytes)
qed

lemma next_session_frame:
  "next_session app = (app1, ss) \<Longrightarrow> app_router app1 = app_router app \<and> app_world app1 = app_world app \<and>
     app_pending app1 = app_pending app \<and> app_completions app1 = app_completions app"
  by (auto simp: next_session_def Let_def split: if_splits)

lemma pending_for_register:
  "pending_for (register_pending app ss oper) ss = Some oper"
  by (simp add: pending_for_def register_pending_def Let_def vec_resize_def)

lemma pending_for_world [simp]: "pending_for (app\<lparr>app_world := w\<rparr>) ss = pending_for app ss"
  by (simp add: pending_for_def Let_def)

lemma call_start_eq:
  "call_start fuel app \<lparr>req_msg = message_of (request_header svc mth cl ss) vs, resp_type = resp\<rparr> k =
     bind_run (app_route fuel (register_pending app ss \<lparr>op_id = k, op_resp = resp\<rparr>) (message_of (request_header svc mth cl ss) vs))
       (\<lambda>(app, _). Done app)"
  by (simp add: call_start_def message_of_def hdr_getters request_header_def)

lemma request_not_response: "\<not> is_response (f_type (request_header svc mth cl ss))"
  by (simp add: request_header_def mt_request_def is_response_def)

lemma header_simps [simp]:
  "f_service (request_header svc mth cl ss) = svc" "f_method (request_header svc mth cl ss) = mth"
  "f_session (response_header h) = f_session h" "f_service (response_header h) = f_service h"
  "f_method (response_header h) = f_method h" "f_rcode (response_header h) = e_ok"
  "f_session (request_header svc mth cl ss) = ss" "is_response (f_type (response_header h))"
  by (simp_all add: request_header_def response_header_def mt_response_def is_response_def)

lemma call_start_served:
  assumes "target (rm_dispatcher (app_router app)) svc mth = Some (handler_of (Serve ts size_resp handler))"
    and "\<not> (svc = sd_service \<and> mth = sd_method)"
    and "types vs ts" "\<forall>t \<in> set ts. 0 < wire_size t" "total_size ts + 8 < 2 ^ 32"
    and "types r rs" "\<forall>t \<in> set rs. 0 < wire_size t" "total_size rs + 8 < 2 ^ 32" "total_size rs \<le> size_resp"
    and "handler (app_world app) vs = Some (w, sent, r)"
    and sends: "\<And>a. app_router a = app_router app \<Longrightarrow>
      route_each (app_route (Suc fuel)) (a\<lparr>app_world := w\<rparr>) sent = Done (a\<lparr>app_world := w'\<rparr>)"
  shows "\<exists>app'. call_start (Suc (Suc fuel)) app \<lparr>req_msg = message_of (request_header svc mth cl ss) vs, resp_type = rs\<rparr> k =
      Done app' \<and> app_completions app' = app_completions app @ [(k, Value r)] \<and> app_world app' = w' \<and>
      pending_for app' ss = None \<and> app_router app' = app_router app"
proof -
  let ?h = "request_header svc mth cl ss" and ?app = "register_pending app ss \<lparr>op_id = k, op_resp = rs\<rparr>"
  have frame: "app_router ?app = app_router app" "app_world ?app = app_world app" "app_completions ?app = app_completions app"
    by (simp_all add: register_pending_def Let_def)
  have "app_route (Suc (Suc fuel)) ?app (message_of ?h vs) = (case target (rm_dispatcher (app_router ?app)) (f_service ?h) (f_method ?h) of
        None \<Rightarrow> Done (?app, False)
      | Some hl \<Rightarrow> mem_run (handler_call hl \<lparr>view_header = message_of ?h vs, view_payload = encode_all vs\<rparr>)
          (\<lambda>c. bind_run (call_each (app_route (Suc fuel)) ?app [c]) (\<lambda>app. Done (app, True))))"
    by (rule app_route_dispatch [OF assms(3,5)]) (use assms(2) request_not_response in auto)
  also have "\<dots> = bind_run (call_each (app_route (Suc fuel)) ?app
      [(Serve ts size_resp handler, \<lparr>view_header = message_of ?h vs, view_payload = encode_all vs\<rparr>)]) (\<lambda>app. Done (app, True))"
    using assms(1) frame(1) by (simp add: handler_call_def handler_of_def)
  also have "\<dots> = bind_run (bind_run (app_route (Suc fuel) (?app\<lparr>app_world := w'\<rparr>) (message_of (response_header ?h) r))
      (\<lambda>(app, _). Done app)) (\<lambda>app. Done (app, True))"
    using call_serve [OF assms(3,4), of handler ?app w sent r size_resp "app_route (Suc fuel)" "?app\<lparr>app_world := w'\<rparr>" ?h vs]
      assms(9,10) sends [OF frame(1)] frame(2) types_size [OF assms(6)] by simp
  also have "app_route (Suc fuel) (?app\<lparr>app_world := w'\<rparr>) (message_of (response_header ?h) r) =
      Done (?app\<lparr>app_world := w'\<rparr>\<lparr>app_pending := (app_pending ?app)[unat (id_value ss) := None],
        app_completions := app_completions ?app @ [(k, Value r)]\<rparr>, True)"
    using app_route_answer [OF assms(6,8,7), of "response_header ?h" "?app\<lparr>app_world := w'\<rparr>" k fuel]
      pending_for_register [of app ss] by simp
  finally show ?thesis
    using frame unfolding call_start_eq by (auto simp: pending_for_def Let_def)
qed

text \<open>A call to a served method, with what its handler sends.\<close>

lemma async_call_served:
  assumes "target (rm_dispatcher (app_router app)) (prx_service p) mth = Some (handler_of (Serve ts size_resp handler))"
    and "\<not> (prx_service p = sd_service \<and> mth = sd_method)"
    and "types vs ts" "\<forall>t \<in> set ts. 0 < wire_size t" "total_size ts + 8 < 2 ^ 32" "total_size ts \<le> size_req"
    and "types r rs" "\<forall>t \<in> set rs. 0 < wire_size t" "total_size rs + 8 < 2 ^ 32" "total_size rs \<le> size_resp"
    and "handler (app_world app) vs = Some (w, sent, r)"
    and "\<And>a. app_router a = app_router app \<Longrightarrow>
      route_each (app_route (Suc fuel)) (a\<lparr>app_world := w\<rparr>) sent = Done (a\<lparr>app_world := w'\<rparr>)"
  shows "\<exists>app1 c app2. async_call app p mth size_req vs rs = Some (app1, c) \<and>
    call_start (Suc (Suc fuel)) app1 c k = Done app2 \<and>
    app_completions app2 = app_completions app @ [(k, Value r)] \<and> app_world app2 = w' \<and> app_router app2 = app_router app \<and>
    pending_for app2 (snd (next_session app)) = None"
proof -
  obtain app1 ss where n: "next_session app = (app1, ss)" by fastforce
  note frame = next_session_frame [OF n]
  have "length (encode_all vs) \<le> size_req" using types_size [OF assms(3)] assms(6) by simp
  from build_request_bytes [OF this, of app p mth rs] n
  have a: "async_call app p mth size_req vs rs =
      Some (app1, \<lparr>req_msg = message_of (request_header (prx_service p) mth (app_client (app_cfg app)) ss) vs, resp_type = rs\<rparr>)"
    by simp
  have "target (rm_dispatcher (app_router app1)) (prx_service p) mth = Some (handler_of (Serve ts size_resp handler))"
    "handler (app_world app1) vs = Some (w, sent, r)" using assms(1,11) frame by simp_all
  note served = call_start_served [OF this(1) assms(2-5,7-10) this(2), of fuel w' "app_client (app_cfg app)" ss k]
  have "route_each (app_route (Suc fuel)) (a\<lparr>app_world := w\<rparr>) sent = Done (a\<lparr>app_world := w'\<rparr>)"
    if "app_router a = app_router app1" for a by (rule assms(12)) (use that frame in simp)
  from served [OF this] show ?thesis using a n frame by auto
qed

section \<open>What routing does not see\<close>

text \<open>A change of the application that routing cannot observe: the interface between \<open>route\<close> and the
  parts of the dispatcher it does not use. Every run of \<open>route\<close> commutes with such a change.\<close>

definition map_run :: "('r \<Rightarrow> 's) \<Rightarrow> 'r run \<Rightarrow> 's run" where
  "map_run f x = bind_run x (\<lambda>r. Done (f r))"

lemma map_run_simps [simp]:
  "map_run f (Done r) = Done (f r)" "map_run f Undefined = Undefined" "map_run f Running = Running"
  by (simp_all add: map_run_def)

locale route_blind =
  fixes change :: "('w, 'a) application \<Rightarrow> ('w, 'a) application"
  assumes same_routing: "route_message (app_router (change app)) raw = route_message (app_router app) raw"
    and same_world: "app_world (change app) = app_world app"
    and same_pending: "app_pending (change app) = app_pending app"
    and same_completions: "app_completions (change app) = app_completions app"
    and put_world: "change (app\<lparr>app_world := w\<rparr>) = (change app)\<lparr>app_world := w\<rparr>"
    and put_pending: "change (app\<lparr>app_pending := ps\<rparr>) = (change app)\<lparr>app_pending := ps\<rparr>"
    and put_completions: "change (app\<lparr>app_completions := cs\<rparr>) = (change app)\<lparr>app_completions := cs\<rparr>"
begin

lemmas change_simps = same_world same_pending same_completions
  put_world [symmetric] put_pending [symmetric] put_completions [symmetric]

definition commutes :: "(('w, 'a) application \<Rightarrow> byte list \<Rightarrow> (('w, 'a) application \<times> bool) run) \<Rightarrow> bool" where
  "commutes route \<longleftrightarrow> (\<forall>app raw. route (change app) raw = map_run (\<lambda>(app, b). (change app, b)) (route app raw))"

lemma commutes_bind:
  "commutes route \<Longrightarrow> bind_run (route (change app) raw) f = bind_run (route app raw) (\<lambda>(app, b). f (change app, b))"
  unfolding commutes_def by (cases "route app raw") auto

lemma route_each_change:
  "commutes route \<Longrightarrow> route_each route (change app) raws = map_run change (route_each route app raws)"
proof (induction raws arbitrary: app)
  case (Cons m raws)
  then show ?case by (cases "route app m") (auto simp: commutes_bind)
qed simp

lemma call_on_response_change:
  "call_on_response (change app) oper payload rc = map_run change (call_on_response app oper payload rc)"
  by (cases "deserialize payload (op_resp oper)") (simp_all add: call_on_response_def change_simps Let_def)

lemma call_callable_change:
  assumes "commutes route"
  shows "call_callable route (change app) f view = map_run change (call_callable route app f view)"
proof (cases f)
  case (Serve ts size_resp handler)
  have respond: "bind_run (route (change a) raw) (\<lambda>(app, _). Done app) = map_run change (bind_run (route a raw) (\<lambda>(app, _). Done app))"
    for a raw by (cases "route a raw") (auto simp: commutes_bind [OF assms])
  have opt: "mem_run x (\<lambda>r. map_run change (g r)) = map_run change (mem_run x g)"
    for x :: "'r option" and g by (cases x) simp_all
  have bnd: "bind_run (map_run change x) g = bind_run x (\<lambda>a. g (change a))" for x and g :: "_ \<Rightarrow> 's run"
    by (cases x) simp_all
  have bnd2: "bind_run x (\<lambda>a. map_run change (g a)) = map_run change (bind_run x g)" for x :: "'r run" and g
    by (cases x) simp_all
  have sums: "(case s of Inl err \<Rightarrow> Done (change a) | Inr n \<Rightarrow> map_run change (g n)) =
      map_run change (case s of Inl err \<Rightarrow> Done a | Inr n \<Rightarrow> g n)" for s :: "codec_error + 'n" and a g
    by (cases s) simp_all
  show ?thesis
    unfolding Serve call_callable_def callable.case change_simps split_def
      route_each_change [OF assms] bnd respond [unfolded split_def] opt sums bnd2 ..
next
  case (Serve_oneway ts handler)
  then show ?thesis
    by (cases "deserialize (view_payload view) ts") (simp_all add: call_callable_def change_simps split: sum.splits)
next
  case (On_response ts handler)
  then show ?thesis
    by (cases "deserialize (view_payload view) ts"; cases "hdr_msg_type (view_header view)")
      (simp_all add: call_callable_def change_simps)
next
  case (On_event ts handler)
  then show ?thesis
    by (cases "deserialize (view_payload view) ts") (simp_all add: call_callable_def change_simps split: sum.splits)
next
  case (User_handler handler)
  then show ?thesis
    by (cases "handler (app_world app) view") (simp add: call_callable_def change_simps route_each_change [OF assms])
qed

lemma call_each_change:
  "commutes route \<Longrightarrow> call_each route (change app) cs = map_run change (call_each route app cs)"
proof (induction cs arbitrary: app)
  case (Cons c cs)
  obtain f view where c: "c = (f, view)" by fastforce
  show ?case
    using call_callable_change [OF Cons.prems, of app f view] Cons.IH [OF Cons.prems]
    by (cases "call_callable route app f view") (simp_all add: c)
qed simp

lemma app_route_change: "app_route fuel (change app) raw = map_run (\<lambda>(app, b). (change app, b)) (app_route fuel app raw)"
proof (induction fuel arbitrary: app raw)
  case (Suc fuel)
  then have comm: "commutes (app_route fuel)" by (simp add: commutes_def)
  show ?case
  proof (cases "length raw < 16")
    case True
    then show ?thesis by (simp add: app_route.simps(2) wire_consts)
  next
    case False
    then obtain h rest where raw: "raw = header_bytes h @ rest" using header_cases [of raw] by auto
    have pend: "pending_for (change app) ss = pending_for app ss" for ss
      by (simp add: pending_for_def change_simps Let_def)
    have bnd: "bind_run (map_run change x) (\<lambda>a. Done (a, b)) = map_run (\<lambda>(a, b). (change a, b)) (bind_run x (\<lambda>a. Done (a, b)))"
      for x b by (cases x) simp_all
    show ?thesis
      unfolding raw app_route_bytes pend same_routing same_pending put_pending [symmetric] call_on_response_change
        split_def fst_conv snd_conv call_each_change [OF comm] bnd [unfolded split_def]
      by (auto simp: mem_run_def split: option.splits)
  qed
qed simp

end

text \<open>Subscriptions are such a change: \<open>route\<close> only consults the message handlers.\<close>

lemma dispatch_subscribe: "dispatch (subscribe d svc eg f) = dispatch d"
  unfolding dispatch_def subscribe_def by (simp cong: option.case_cong add: Let_def)

lemma route_message_subscribe:
  "route_message (app_router (app_subscribe app svc eg f)) raw = route_message (app_router app) raw"
proof -
  have d: "rm_dispatcher (app_router (app_subscribe app svc eg f)) = subscribe (rm_dispatcher (app_router app)) svc eg f"
    by (simp add: app_subscribe_def with_dispatcher_def)
  show ?thesis unfolding route_message_def d dispatch_subscribe ..
qed

interpretation subscription: route_blind "\<lambda>app. app_subscribe app svc eg f"
  by unfold_locales (rule route_message_subscribe, simp_all add: app_subscribe_def with_dispatcher_def)

section \<open>Properties\<close>

text \<open>Session identifiers: the k-th request of an application gets session \<open>1 + k mod 65535\<close>. So 0 is never
  used, and any 65535 consecutive requests have different sessions, across the wrap of the counter.\<close>

theorem session_sequence:
  "snd (next_session (session_app (application_init cfg w) k)) = Strong_id (of_nat (1 + k mod 65535))"
proof (cases k)
  case 0
  then show ?thesis by (simp add: session_app_def application_init_def next_session_def Let_def)
next
  case (Suc j)
  have one: "session_counter (application_init cfg w) = 1" by (simp add: application_init_def)
  show ?thesis
    using next_session_skip(1) [of "session_app (application_init cfg w) k" j] session_app_counter [OF one, of k] Suc by simp
qed

text \<open>C33. A call end to end. When the service and method are served in the same application, starting the
  sender of \<open>async_call\<close> completes its receiver exactly once, before \<open>start\<close> returns, with the value
  the handler computed from the request - through the codec both ways, the dispatcher and the pending
  table, whatever 16-bit session the call has - and leaves the call unregistered.\<close>

theorem call_end_to_end:
  assumes "target (rm_dispatcher (app_router app)) (prx_service p) mth = Some (handler_of (Serve ts size_resp handler))"
    and "\<not> (prx_service p = sd_service \<and> mth = sd_method)"
    and "types vs ts" "\<forall>t \<in> set ts. 0 < wire_size t" "total_size ts + 8 < 2 ^ 32" "total_size ts \<le> size_req"
    and "types r rs" "\<forall>t \<in> set rs. 0 < wire_size t" "total_size rs + 8 < 2 ^ 32" "total_size rs \<le> size_resp"
    and "handler (app_world app) vs = Some (w, [], r)"
  shows "\<exists>app1 c app2. async_call app p mth size_req vs rs = Some (app1, c) \<and>
    call_start (Suc (Suc fuel)) app1 c k = Done app2 \<and>
    app_completions app2 = app_completions app @ [(k, Value r)] \<and> app_world app2 = w \<and>
    pending_for app2 (snd (next_session app)) = None"
  using async_call_served [where handler = handler and sent = "[]", OF assms] by (simp add: ex_simps, blast)

text \<open>An adder: two 32-bit members in the request, one in the response; the state counts the calls.\<close>

definition adder :: "nat \<Rightarrow> codec_value list \<Rightarrow> (nat \<times> byte list list \<times> codec_value list) option" where
  "adder n vs = (case vs of [V_u32 a, V_u32 b] \<Rightarrow> Some (n + 1, [], [V_u32 (a + b)]) | _ \<Rightarrow> None)"

definition adder_app :: "(nat, unit) application" where
  "adder_app = serve (application_init app_config_default 0) \<lparr>skel_service = Strong_id 0x1234, skel_instance = Strong_id 1\<rparr>
     (Strong_id 1) [T_u32, T_u32] 4 adder"

lemma adder_target:
  "target (rm_dispatcher (app_router adder_app)) (Strong_id 0x1234) (Strong_id 1) = Some (handler_of (Serve [T_u32, T_u32] 4 adder))"
  by (simp add: target_def handler_at_def adder_app_def serve_def register_message_handler_def with_dispatcher_def
      application_init_def manager_empty_def dispatcher_empty_def register_handler_def)

lemma call_end_to_end_witness:
  "\<exists>app1 c app2. async_call adder_app \<lparr>prx_service = Strong_id 0x1234, prx_instance = Strong_id 1\<rparr> (Strong_id 1) 8
      [V_u32 2, V_u32 3] [T_u32] = Some (app1, c) \<and>
    call_start (Suc (Suc 0)) app1 c 7 = Done app2 \<and> app_completions app2 = [(7, Value [V_u32 5])] \<and> app_world app2 = 1"
proof -
  have sd: "\<not> (Strong_id 0x1234 = sd_service \<and> Strong_id 1 = sd_method)" by (simp add: sd_service_def)
  have h: "adder (app_world adder_app) [V_u32 2, V_u32 3] = Some (1, [], [V_u32 5])"
    by (simp add: adder_def adder_app_def serve_def register_message_handler_def with_dispatcher_def application_init_def)
  have comp: "app_completions adder_app = []"
    by (simp add: adder_app_def serve_def register_message_handler_def with_dispatcher_def application_init_def)
  show ?thesis
    using call_end_to_end [of adder_app "\<lparr>prx_service = Strong_id 0x1234, prx_instance = Strong_id 1\<rparr>" "Strong_id 1"
        "[T_u32, T_u32]" 4 adder "[V_u32 2, V_u32 3]" 8 "[V_u32 5]" "[T_u32]" 1 0 7] adder_target sd h comp
    by (simp, blast)
qed

text \<open>A call that nobody serves never completes: \<open>start\<close> returns without completing the receiver - neither
  value, error nor stopped - and the operation state stays registered under its session, where a
  later response finds it. (\<open>route\<close> reports the failure; \<open>start\<close> ignores it.)\<close>

theorem call_unserved:
  assumes "target (rm_dispatcher (app_router app)) (prx_service p) mth = None"
    and "\<not> (prx_service p = sd_service \<and> mth = sd_method)"
    and "types vs ts" "total_size ts + 8 < 2 ^ 32" "total_size ts \<le> size_req"
  shows "\<exists>app1 c app2. async_call app p mth size_req vs rs = Some (app1, c) \<and>
    call_start (Suc fuel) app1 c k = Done app2 \<and> app_completions app2 = app_completions app \<and>
    pending_for app2 (snd (next_session app)) = Some \<lparr>op_id = k, op_resp = rs\<rparr>"
proof -
  obtain app1 ss where n: "next_session app = (app1, ss)" by fastforce
  note frame = next_session_frame [OF n]
  let ?h = "request_header (prx_service p) mth (app_client (app_cfg app)) ss"
    and ?app = "register_pending app1 ss \<lparr>op_id = k, op_resp = rs\<rparr>"
  have "length (encode_all vs) \<le> size_req" using types_size [OF assms(3)] assms(5) by simp
  from build_request_bytes [OF this, of app p mth rs] n
  have a: "async_call app p mth size_req vs rs = Some (app1, \<lparr>req_msg = message_of ?h vs, resp_type = rs\<rparr>)" by simp
  have f: "app_router ?app = app_router app" "app_completions ?app = app_completions app"
    using frame by (simp_all add: register_pending_def Let_def)
  have "app_route (Suc fuel) ?app (message_of ?h vs) = Done (?app, False)"
    using app_route_dispatch [OF assms(3,4), of ?h ?app fuel] assms(1,2) f request_not_response by simp
  then show ?thesis
    using a n f pending_for_register [of app1 ss] by (auto simp: call_start_eq)
qed

lemma call_unserved_witness:
  "\<exists>app1 c app2. async_call adder_app \<lparr>prx_service = Strong_id 0x1234, prx_instance = Strong_id 1\<rparr> (Strong_id 2) 8
      [V_u32 2, V_u32 3] [T_u32] = Some (app1, c) \<and> call_start (Suc 0) app1 c 7 = Done app2 \<and>
    app_completions app2 = app_completions adder_app"
proof -
  have sd: "\<not> (Strong_id 0x1234 = sd_service \<and> Strong_id 2 = sd_method)" by (simp add: sd_service_def)
  have t: "target (rm_dispatcher (app_router adder_app)) (Strong_id 0x1234) (Strong_id 2) = None"
    by (simp add: target_def handler_at_def adder_app_def serve_def register_message_handler_def with_dispatcher_def
        application_init_def manager_empty_def dispatcher_empty_def register_handler_def any_method_def)
  show ?thesis
    using call_unserved [of adder_app "\<lparr>prx_service = Strong_id 0x1234, prx_instance = Strong_id 1\<rparr>" "Strong_id 2"
        "[V_u32 2, V_u32 3]" "[T_u32, T_u32]" 8 "[T_u32]" 0 7] t sd by (simp, blast)
qed

text \<open>C36. A request whose session has no pending call here - one from a remote client - can make the
  application recurse without end: the skeleton's response, which no call waits for, is dispatched to
  the skeleton itself, which takes it for the next request. When the response can be read as a
  request, no depth of nested \<open>route\<close> calls is enough.\<close>

theorem response_loop:
  assumes "target (rm_dispatcher (app_router app)) (f_service h) (f_method h) = Some (handler_of (Serve ts size_resp handler))"
    and "\<not> (f_service h = sd_service \<and> f_method h = sd_method)"
    and "\<forall>t \<in> set ts. 0 < wire_size t" "total_size ts + 8 < 2 ^ 32" "total_size ts \<le> size_resp"
    and "\<And>w vs. types vs ts \<Longrightarrow> \<exists>w' r. handler w vs = Some (w', [], r) \<and> types r ts"
    and "pending_for app (f_session h) = None" and "types vs ts"
  shows "app_route fuel app (message_of h vs) = Running"
  using assms
proof (induction fuel arbitrary: app h vs)
  case (Suc fuel)
  obtain w r where wr: "handler (app_world app) vs = Some (w, [], r)" "types r ts" using Suc.prems(6,8) by blast
  have "length (encode_all r) \<le> size_resp" using types_size [OF wr(2)] Suc.prems(5) by simp
  note serve = call_serve [where handler = handler, OF Suc.prems(8,3) wr(1) this, of "app_route fuel" _ h vs,
    unfolded route_each.simps, OF refl]
  have "app_route fuel (app\<lparr>app_world := w\<rparr>) (message_of (response_header h) r) = Running"
    by (rule Suc.IH) (use Suc.prems wr(2) in simp_all)
  moreover have "app_route (Suc fuel) app (message_of h vs) =
      bind_run (call_each (app_route fuel) app [(Serve ts size_resp handler,
        \<lparr>view_header = message_of h vs, view_payload = encode_all vs\<rparr>)]) (\<lambda>app. Done (app, True))"
    using app_route_dispatch [OF Suc.prems(8,4), of h app fuel] Suc.prems(1,2,7)
    by (simp add: handler_call_def handler_of_def)
  ultimately show ?case using serve by simp
qed simp

lemma response_loop_witness:
  "\<forall>fuel. app_route fuel (serve (application_init app_config_default 0) \<lparr>skel_service = Strong_id 0x1234, skel_instance = Strong_id 1\<rparr>
     (Strong_id 1) [T_u32] 4 (\<lambda>w vs. Some (w, [], vs)) :: (nat, unit) application)
     (message_of (request_header (Strong_id 0x1234) (Strong_id 1) (Strong_id 9) (Strong_id 5)) [V_u32 1]) = Running"
proof -
  let ?h = "request_header (Strong_id 0x1234) (Strong_id 1) (Strong_id 9) (Strong_id 5)"
  let ?app = "serve (application_init app_config_default 0) \<lparr>skel_service = Strong_id 0x1234, skel_instance = Strong_id 1\<rparr>
     (Strong_id 1) [T_u32] 4 (\<lambda>w vs. Some (w, [], vs)) :: (nat, unit) application"
  have t: "target (rm_dispatcher (app_router ?app)) (f_service ?h) (f_method ?h) =
      Some (handler_of (Serve [T_u32] 4 (\<lambda>w vs. Some (w, [], vs))))"
    by (simp add: target_def handler_at_def serve_def register_message_handler_def with_dispatcher_def
        application_init_def manager_empty_def dispatcher_empty_def register_handler_def)
  show ?thesis
    by (rule allI, rule response_loop [OF t]) (simp_all add: sd_service_def pending_for_def serve_def register_message_handler_def
        with_dispatcher_def application_init_def)
qed

text \<open>C37. Notifications do not reach subscribers. A handler subscribed to an eventgroup - through a proxy, an
  attribute's \<open>on_change\<close> or a broadcast - is never called by \<open>notify\<close>, and so not by \<open>attribute::set\<close>
  and \<open>broadcast::fire\<close> either: the run is the one without the subscription, the subscription
  apart. (\<open>notify\<close> routes its message, and routing only looks at the message handlers.)\<close>

theorem notify_misses_subscribers:
  "skeleton_notify fuel (app_subscribe app svc eg f) s event v =
     map_run (\<lambda>app'. app_subscribe app' svc eg f) (skeleton_notify fuel app s event v) \<and>
   broadcast_fire fuel (broadcast_subscribe app p event ty handler) s event v =
     map_run (\<lambda>app'. broadcast_subscribe app' p event ty handler) (broadcast_fire fuel app s event v) \<and>
   app_world (app_subscribe app svc eg f) = app_world app"
proof -
  have notify: "skeleton_notify fuel (app_subscribe app svc eg f) s event v =
     map_run (\<lambda>app'. app_subscribe app' svc eg f) (skeleton_notify fuel app s event v)" for svc eg f
  proof (cases "notify_message s event v")
    case (Some m)
    then show ?thesis
    proof (cases m)
      case (Inr msg)
      with Some show ?thesis
        using subscription.app_route_change [of fuel app svc eg f msg]
        by (cases "app_route fuel app msg") (auto simp: skeleton_notify_def)
    qed (simp add: skeleton_notify_def)
  qed (simp add: skeleton_notify_def)
  show ?thesis
    by (simp add: notify broadcast_fire_def broadcast_subscribe_def proxy_subscribe_def)
      (simp add: app_subscribe_def with_dispatcher_def)
qed

end
