(* ===== verification/Comm_Correct.thy ===== *)
theory Comm_Correct
  imports Api_Correct
begin

text \<open>
  Properties of the typed layer as a whole: what a one-way method does with messages of every length, and an
  attribute read and written from the client side.
\<close>

section \<open>Attributes\<close>

lemma handler_at_register:
  assumes "dispatcher_inv (rm_dispatcher (app_router app))"
  shows "handler_at (rm_dispatcher (app_router (register_message_handler app svc mth hl))) s m =
      (if s = svc \<and> m = mth then Some hl else handler_at (rm_dispatcher (app_router app)) s m)"
    and "dispatcher_inv (rm_dispatcher (app_router (register_message_handler app svc mth hl)))"
  using dispatcher_step_refines(1,2) [OF assms, of "Register svc mth hl"]
  by (auto simp: register_message_handler_def with_dispatcher_def)

lemma target_exact: "handler_at d s m = Some hl \<Longrightarrow> target d s m = Some hl"
  by (simp add: target_def)

lemma notify_message_bytes:
  assumes "length (encode_all vs) \<le> 256"
  shows "notify_message s ev vs = Some (Inr (message_of (notification_header (skel_service s) ev) vs))"
  using assms by (simp add: notify_message_def create_bytes serialize_payload_bytes finish_message_bytes)

lemma attribute_set_bytes:
  assumes "length (encode_all v) \<le> 256" and "\<And>w u. attr_get a (attr_put a u w) = u"
  shows "attribute_set repr a w v = Some (attr_put a v w, if repr (attr_get a w) = repr v then []
    else [message_of (notification_header (skel_service (attr_skel a)) (attr_event a)) v])"
  using assms by (simp add: attribute_set_def attribute_notify_def notify_message_bytes Let_def)

text \<open>A notification routed to a typed event handler.\<close>

lemma route_event:
  assumes "target (rm_dispatcher (app_router app)) svc ev = Some (handler_of (On_event ts f))"
    and "svc \<noteq> sd_service" and "types v ts" "\<forall>t \<in> set ts. 0 < wire_size t" "total_size ts + 8 < 2 ^ 32"
  shows "app_route (Suc fuel) app (message_of (notification_header svc ev) v) =
    Done (app\<lparr>app_world := f (app_world app) v\<rparr>, True)"
proof -
  let ?h = "notification_header svc ev"
  have h: "f_service ?h = svc" "f_method ?h = ev" "\<not> is_response (f_type ?h)"
    by (simp_all add: notification_header_def mt_notification_def is_response_def)
  have "deserialize (encode_all v) ts = Some (Inr v)"
    using deserialize_checked_encode [OF assms(3,4), of "[]" 0 "[]"] by (simp add: deserialize_def)
  then show ?thesis
    using app_route_dispatch [OF assms(3,5), of ?h app fuel] assms(1,2) h
    by (simp add: handler_call_def handler_of_def call_callable_def)
qed

text \<open>A served attribute, with a handler for its event in the same application.\<close>

definition observed_attribute ::
    "('w, 'a) application \<Rightarrow> (codec_value list \<Rightarrow> byte list) \<Rightarrow> 'w attribute \<Rightarrow> method_id \<Rightarrow> method_id \<Rightarrow>
     codec_type list \<Rightarrow> nat \<Rightarrow> ('w \<Rightarrow> codec_value list \<Rightarrow> 'w) \<Rightarrow> ('w, 'a) application" where
  "observed_attribute app repr a getter setter ty sizeof_t f =
     register_message_handler (attribute_make app repr a getter setter ty sizeof_t)
       (skel_service (attr_skel a)) (attr_event a) (handler_of (On_event ty f))"

lemma observed_targets:
  fixes app :: "('w, 'a) application"
  assumes "dispatcher_inv (rm_dispatcher (app_router app))" and "distinct [getter, setter, attr_event a]"
  defines "d repr ty n f \<equiv> rm_dispatcher (app_router (observed_attribute app repr a getter setter ty n f))"
  shows "target (d repr ty n f) (skel_service (attr_skel a)) getter = Some (handler_of (Serve [T_u8] n (\<lambda>w _. Some (w, [], attr_get a w))))"
    and "target (d repr ty n f) (skel_service (attr_skel a)) setter = Some (handler_of (Serve ty 1 (\<lambda>w v. do {
       (w, sent) \<leftarrow> attribute_set repr a w v; Some (w, sent, [V_u8 0]) })))"
    and "target (d repr ty n f) (skel_service (attr_skel a)) (attr_event a) = Some (handler_of (On_event ty f))"
  using assms(1,2) unfolding d_def
  by (auto intro!: target_exact simp: observed_attribute_def attribute_make_def serve_def handler_at_register)

lemma observed_frame:
  "app_world (observed_attribute app repr a getter setter ty n f) = app_world app"
  "app_completions (observed_attribute app repr a getter setter ty n f) = app_completions app"
  by (simp_all add: observed_attribute_def attribute_make_def serve_def register_message_handler_def with_dispatcher_def)

section \<open>Properties\<close>

text \<open>C35. A one-way method whose argument has no member of size zero, for every message a peer may send to it (a
  header of its service and method, then any bytes; not a service-discovery message, nor a response some call waits
  for). If the length field announces more bytes than there are, the message is refused and the handler not called.
  Otherwise the handler is called exactly once: if the announced payload starts with the encoding of a value of the
  registered type, with that value; if it is just long enough, with some value of the type. A payload too short for the
  type is consumed without a call when it ends between two members, and read past its end when it ends inside one.
  Nothing else changes.\<close>

theorem oneway_exact:
  assumes "dispatcher_inv (rm_dispatcher (app_router app))"
    and "\<not> (skel_service s = sd_service \<and> mth = sd_method)" and "\<forall>t \<in> set req. 0 < wire_size t"
    and "f_service h = skel_service s" "f_method h = mth" "is_response (f_type h) \<longrightarrow> pending_for app (f_session h) = None"
    and "app' = serve_oneway app s mth req handler" and "p = take (unat (f_length h) - 8) rest"
  shows "(length rest < unat (f_length h) - 8 \<longrightarrow> app_route (Suc fuel) app' (header_bytes h @ rest) = Done (app', False)) \<and>
    (unat (f_length h) - 8 \<le> length rest \<longrightarrow>
      (\<forall>v ys. types v req \<and> p = encode_all v @ ys \<longrightarrow> app_route (Suc fuel) app' (header_bytes h @ rest) =
        Done (app'\<lparr>app_world := handler (app_world app) v\<rparr>, True)) \<and>
      (total_size req \<le> length p \<longrightarrow> (\<exists>v. types v req \<and> app_route (Suc fuel) app' (header_bytes h @ rest) =
        Done (app'\<lparr>app_world := handler (app_world app) v\<rparr>, True))) \<and>
      (length p < total_size req \<longrightarrow> app_route (Suc fuel) app' (header_bytes h @ rest) =
        (if \<exists>k < length req. length p = total_size (take k req) then Done (app', True) else Undefined)))"
proof -
  have target: "target (rm_dispatcher (app_router app')) (f_service h) (f_method h) = Some (handler_of (Serve_oneway req handler))"
    using assms(1,4,5) unfolding assms(7) serve_oneway_def by (intro target_exact) (simp add: handler_at_register)
  have frame: "app_world app' = app_world app" "pending_for app' (f_session h) = pending_for app (f_session h)"
    by (simp_all add: assms(7) serve_oneway_def register_message_handler_def with_dispatcher_def pending_for_def Let_def)
  have "(if is_response (f_type h) then pending_for app' (f_session h) else None) = None"
    using assms(6) frame(2) by simp
  then have route: "app_route (Suc fuel) app' (header_bytes h @ rest) =
      (if length rest < unat (f_length h) - 8 then Done (app', False)
       else mem_run (deserialize p req) (\<lambda>r. case r of Inl err \<Rightarrow> Done (app', True)
         | Inr v \<Rightarrow> Done (app'\<lparr>app_world := handler (app_world app) v\<rparr>, True)))"
    using assms(2,4,5) target
    by (auto simp: app_route_bytes route_message_bytes dispatch_target handler_call_def handler_of_def call_callable_def
        frame(1) assms(8) Let_def mem_run_def split: option.splits sum.splits)
  have enc: "deserialize (encode_all v @ ys) req = Some (Inr v)" if "types v req" for v ys
    using deserialize_checked_encode [OF that assms(3), of "[]" 0 ys] by (simp add: deserialize_def)
  show ?thesis
    unfolding route using deserialize_checked_exact [OF assms(3), of 0 p] enc
    by (auto 4 4 simp: deserialize_def)
qed

text \<open>A method of one 16-bit parameter, sent three bytes: the first two are its argument. When the length field
  announces only one of them, the argument is read past the end of the payload.\<close>

definition gauge :: "(codec_value list, unit) application" where
  "gauge = application_init app_config_default []"

definition gauge_header :: "32 word \<Rightarrow> header_fields" where
  "gauge_header n = (notification_header (Strong_id 5) (Strong_id 6))\<lparr>f_length := n\<rparr>"

lemma oneway_exact_witness:
  "let app' = serve_oneway gauge \<lparr>skel_service = Strong_id 5, skel_instance = Strong_id 1\<rparr> (Strong_id 6) [T_u16] (\<lambda>w v. v)
   in app_route 1 app' (header_bytes (gauge_header 11) @ [0x12, 0x34, 0x56]) = Done (app'\<lparr>app_world := [V_u16 0x1234]\<rparr>, True) \<and>
      app_route 1 app' (header_bytes (gauge_header 9) @ [0x12, 0x34, 0x56]) = Undefined \<and>
      app_route 1 app' (header_bytes (gauge_header 8) @ [0x12, 0x34, 0x56]) = Done (app', True) \<and>
      app_route 1 app' (header_bytes (gauge_header 12) @ [0x12, 0x34, 0x56]) = Done (app', False)"
proof -
  let ?s = "\<lparr>skel_service = Strong_id 5, skel_instance = Strong_id 1\<rparr>"
  have inv: "dispatcher_inv (rm_dispatcher (app_router gauge))"
    by (simp add: gauge_def application_init_def manager_empty_def dispatcher_empty_maps)
  let ?app = "serve_oneway gauge ?s (Strong_id 6) [T_u16] (\<lambda>w v. v)" and ?rest = "[0x12, 0x34, 0x56] :: byte list"
  have hdr: "f_service (gauge_header n) = Strong_id 5" "f_method (gauge_header n) = Strong_id 6" "f_length (gauge_header n) = n"
    "\<not> is_response (f_type (gauge_header n))" for n
    by (simp_all add: gauge_header_def notification_header_def is_response_def wire_consts)
  note use = oneway_exact [OF inv, where s = ?s and mth = "Strong_id 6" and req = "[T_u16]" and handler = "\<lambda>w v. v"
      and rest = ?rest and fuel = 0, OF _ _ _ _ _ refl refl, folded One_nat_def]
  have k: "k < length [T_u16] \<longleftrightarrow> k = 0" for k by auto
  have "take (unat (11 :: u32) - 8) ?rest = encode_all [V_u16 0x1234] @ [0x56]" by (simp add: be16_def)
  then have "app_route 1 ?app (header_bytes (gauge_header 11) @ ?rest) = Done (?app\<lparr>app_world := [V_u16 0x1234]\<rparr>, True)"
    using use [of "gauge_header 11", THEN conjunct2, THEN mp, THEN conjunct1, rule_format, of "[V_u16 0x1234]" "[0x56]"]
    by (simp add: hdr sd_service_def)
  moreover have "app_route 1 ?app (header_bytes (gauge_header 9) @ ?rest) = Undefined"
    using use [of "gauge_header 9"] unfolding k by (simp add: hdr sd_service_def)
  moreover have "app_route 1 ?app (header_bytes (gauge_header 8) @ ?rest) = Done (?app, True)"
    using use [of "gauge_header 8"] unfolding k by (simp add: hdr sd_service_def)
  moreover have "app_route 1 ?app (header_bytes (gauge_header 12) @ ?rest) = Done (?app, False)"
    using use [of "gauge_header 12"] unfolding k by (simp add: hdr sd_service_def)
  ultimately show ?thesis by simp
qed

text \<open>C34. An attribute from the client side. A \<open>set\<close> and then a \<open>get\<close> of the client's \<open>attribute_proxy\<close>, sent to a
  served attribute, complete in order with the acknowledgement and with the value set; in between the
  handler of the event is called once with the new value if the object representation of the value
  changed, and not at all if it did not.\<close>

theorem attribute_set_get:
  assumes "dispatcher_inv (rm_dispatcher (app_router app))" and "distinct [getter, setter, attr_event a]"
    and "prx_service p = skel_service (attr_skel a)" "prx_service p \<noteq> sd_service"
    and "types v ty" "\<forall>t \<in> set ty. 0 < wire_size t" "total_size ty \<le> 256" "total_size ty \<le> sizeof_t"
    and "\<And>w u. attr_get a (attr_put a u w) = u" and "\<And>w u. attr_get a (f w u) = attr_get a w"
  shows "\<exists>app1 c1 app2 app3 c2 app4.
    attribute_proxy_set (observed_attribute app repr a getter setter ty sizeof_t f) p setter sizeof_t v = Some (app1, c1) \<and>
    call_start (Suc (Suc fuel)) app1 c1 i = Done app2 \<and>
    attribute_proxy_get app2 p getter ty = Some (app3, c2) \<and>
    call_start (Suc (Suc fuel)) app3 c2 j = Done app4 \<and>
    app_completions app4 = app_completions app @ [(i, Value [V_u8 0]), (j, Value v)] \<and>
    app_world app4 = (if repr (attr_get a (app_world app)) = repr v then attr_put a v (app_world app)
      else f (attr_put a v (app_world app)) v)"
proof -
  let ?app = "observed_attribute app repr a getter setter ty sizeof_t f" and ?w = "attr_put a v (app_world app)"
  let ?changed = "repr (attr_get a (app_world app)) \<noteq> repr v"
  let ?w' = "if ?changed then f ?w v else ?w"
  let ?sent = "if ?changed then [message_of (notification_header (skel_service (attr_skel a)) (attr_event a)) v] else []"
  note targets = observed_targets [OF assms(1,2), of repr ty sizeof_t f, folded assms(3)]
  have small: "total_size ty + 8 < 2 ^ 32" "length (encode_all v) \<le> 256"
    using assms(7) types_size [OF assms(5)] by simp_all
  have u8: "types [V_u8 0] [T_u8]" "\<forall>t \<in> set [T_u8]. 0 < wire_size t" "total_size [T_u8] + 8 < 2 ^ 32"
    "total_size [T_u8] \<le> 1" by simp_all
  have sd: "\<not> (prx_service p = sd_service \<and> m = sd_method)" for m using assms(4) by simp
  have set: "(do { (w, sent) \<leftarrow> attribute_set repr a (app_world ?app) v; Some (w, sent, [V_u8 0]) }) = Some (?w, ?sent, [V_u8 0])"
    by (simp add: attribute_set_bytes [OF small(2) assms(9)] observed_frame)
  have sends: "route_each (app_route (Suc fuel)) (b\<lparr>app_world := ?w\<rparr>) ?sent = Done (b\<lparr>app_world := ?w'\<rparr>)"
    if "app_router b = app_router ?app" for b
    using route_event [of "b\<lparr>app_world := ?w\<rparr>", OF _ assms(4-6) small(1)] targets(3) that assms(3) by simp
  obtain app1 c1 app2 where one: "attribute_proxy_set ?app p setter sizeof_t v = Some (app1, c1)"
      "call_start (Suc (Suc fuel)) app1 c1 i = Done app2" "app_completions app2 = app_completions app @ [(i, Value [V_u8 0])]"
      "app_world app2 = ?w'" "app_router app2 = app_router ?app"
    using async_call_served [OF targets(2) sd assms(5,6) small(1) assms(8) u8 set sends] observed_frame
    unfolding attribute_proxy_set_def by metis
  have get: "Some (app_world app2, [], attr_get a (app_world app2)) = Some (app_world app2, [], v)"
    using one(4) assms(9,10) by simp
  obtain app3 c2 app4 where two: "attribute_proxy_get app2 p getter ty = Some (app3, c2)"
      "call_start (Suc (Suc fuel)) app3 c2 j = Done app4" "app_completions app4 = app_completions app2 @ [(j, Value v)]"
      "app_world app4 = app_world app2"
    using async_call_served [where sent = "[]" and w' = "app_world app2",
        OF targets(1) [folded one(5)] sd u8 assms(5,6) small(1) assms(8) get]
    unfolding attribute_proxy_get_def route_each.simps by metis
  from one two show ?thesis by auto
qed

text \<open>A counter of notifications beside an attribute of two members, set to what it holds already and then to
  something else.\<close>

definition speed :: "(codec_value list \<times> nat) attribute" where
  "speed = \<lparr>attr_skel = \<lparr>skel_service = Strong_id 0x1234, skel_instance = Strong_id 1\<rparr>, attr_event = Strong_id 0x8001,
     attr_get = fst, attr_put = (\<lambda>u w. (u, snd w))\<rparr>"

lemma attribute_set_get_witness:
  "\<exists>app1 c1 app2 app3 c2 app4.
    attribute_proxy_set (observed_attribute (application_init app_config_default ([V_u16 7, V_u8 1], 0) ::
        (codec_value list \<times> nat, unit) application) encode_all speed (Strong_id 1) (Strong_id 2) [T_u16, T_u8] 4
        (\<lambda>w u. (fst w, snd w + 1))) \<lparr>prx_service = Strong_id 0x1234, prx_instance = Strong_id 1\<rparr> (Strong_id 2) 4
        [V_u16 8, V_u8 1] = Some (app1, c1) \<and>
    call_start (Suc (Suc 0)) app1 c1 5 = Done app2 \<and>
    attribute_proxy_get app2 \<lparr>prx_service = Strong_id 0x1234, prx_instance = Strong_id 1\<rparr> (Strong_id 1) [T_u16, T_u8] = Some (app3, c2) \<and>
    call_start (Suc (Suc 0)) app3 c2 6 = Done app4 \<and>
    app_completions app4 = [(5, Value [V_u8 0]), (6, Value [V_u16 8, V_u8 1])] \<and>
    app_world app4 = ([V_u16 8, V_u8 1], 1)"
proof -
  let ?app = "application_init app_config_default ([V_u16 7, V_u8 1], 0) :: (codec_value list \<times> nat, unit) application"
  have inv: "dispatcher_inv (rm_dispatcher (app_router ?app))"
    by (simp add: application_init_def manager_empty_def dispatcher_empty_maps)
  have start: "app_completions ?app = []" "app_world ?app = ([V_u16 7, V_u8 1], 0)" by (simp_all add: application_init_def)
  have new: "be16 7 \<noteq> (be16 8 :: byte list)" by simp
  show ?thesis
    using attribute_set_get [of ?app "Strong_id 1" "Strong_id 2" speed
        "\<lparr>prx_service = Strong_id 0x1234, prx_instance = Strong_id 1\<rparr>" "[V_u16 8, V_u8 1]" "[T_u16, T_u8]" 4
        "\<lambda>w u. (fst w, snd w + 1)" encode_all 0 5 6] inv
    by (simp add: start speed_def sd_service_def new)
qed

end
