(* ===== verification/Compat_Vsomeip.thy ===== *)
theory Compat_Vsomeip
  imports Api_Application
begin

text \<open>
  \<open>compat/vsomeip.hpp\<close>: the vsomeip-style API over the application. Shared pointers are values; a null
  pointer is \<^term>\<open>None\<close>. A \<open>payload\<close> is its vector of bytes. Operations whose body is empty in the
  shim (\<open>offer_event\<close>, \<open>stop_offer_event\<close>, \<open>subscribe\<close>) are the identity.
\<close>

section \<open>Types\<close>

type_synonym service_t = u16
type_synonym instance_t = u16
type_synonym method_t = u16
type_synonym event_t = u16
type_synonym eventgroup_t = u16
type_synonym client_t = u16
type_synonym session_t = u16
type_synonym major_version_t = u8
type_synonym minor_version_t = u32
type_synonym length_t = u32
type_synonym ttl_t = u32

definition ANY_SERVICE :: service_t where "ANY_SERVICE = 0xFFFF"
definition ANY_INSTANCE :: instance_t where "ANY_INSTANCE = 0xFFFF"
definition ANY_METHOD :: method_t where "ANY_METHOD = 0xFFFF"
definition ANY_EVENT :: event_t where "ANY_EVENT = 0xFFFF"
definition ANY_EVENTGROUP :: eventgroup_t where "ANY_EVENTGROUP = 0xFFFF"
definition ANY_MAJOR :: major_version_t where "ANY_MAJOR = 0xFF"
definition ANY_MINOR :: minor_version_t where "ANY_MINOR = 0xFFFFFFFF"
definition DEFAULT_MAJOR :: major_version_t where "DEFAULT_MAJOR = 0x00"
definition DEFAULT_MINOR :: minor_version_t where "DEFAULT_MINOR = 0x00000000"

datatype message_type_e = Message_type_e (mte_code: u8)

definition MT_REQUEST :: message_type_e where "MT_REQUEST = Message_type_e 0x00"
definition MT_REQUEST_NO_RETURN :: message_type_e where "MT_REQUEST_NO_RETURN = Message_type_e 0x01"
definition MT_NOTIFICATION :: message_type_e where "MT_NOTIFICATION = Message_type_e 0x02"
definition MT_REQUEST_ACK :: message_type_e where "MT_REQUEST_ACK = Message_type_e 0x40"
definition MT_RESPONSE :: message_type_e where "MT_RESPONSE = Message_type_e 0x80"
definition MT_ERROR :: message_type_e where "MT_ERROR = Message_type_e 0x81"
definition MT_RESPONSE_ACK :: message_type_e where "MT_RESPONSE_ACK = Message_type_e 0xC0"
definition MT_ERROR_ACK :: message_type_e where "MT_ERROR_ACK = Message_type_e 0xC1"
definition MT_UNKNOWN :: message_type_e where "MT_UNKNOWN = Message_type_e 0xFF"

datatype return_code_e = Return_code_e (rce_code: u8)

definition E_OK :: return_code_e where "E_OK = Return_code_e 0x00"
definition E_NOT_OK :: return_code_e where "E_NOT_OK = Return_code_e 0x01"
definition E_UNKNOWN_SERVICE :: return_code_e where "E_UNKNOWN_SERVICE = Return_code_e 0x02"
definition E_UNKNOWN_METHOD :: return_code_e where "E_UNKNOWN_METHOD = Return_code_e 0x03"
definition E_NOT_READY :: return_code_e where "E_NOT_READY = Return_code_e 0x04"
definition E_NOT_REACHABLE :: return_code_e where "E_NOT_REACHABLE = Return_code_e 0x05"
definition E_TIMEOUT :: return_code_e where "E_TIMEOUT = Return_code_e 0x06"
definition E_WRONG_PROTOCOL_VERSION :: return_code_e where "E_WRONG_PROTOCOL_VERSION = Return_code_e 0x07"
definition E_WRONG_INTERFACE_VERSION :: return_code_e where "E_WRONG_INTERFACE_VERSION = Return_code_e 0x08"
definition E_MALFORMED_MESSAGE :: return_code_e where "E_MALFORMED_MESSAGE = Return_code_e 0x09"
definition E_WRONG_MESSAGE_TYPE :: return_code_e where "E_WRONG_MESSAGE_TYPE = Return_code_e 0x0A"
definition E_UNKNOWN :: return_code_e where "E_UNKNOWN = Return_code_e 0xFF"

datatype state_type_e = ST_REGISTERED | ST_DEREGISTERED

section \<open>payload\<close>

definition payload_set_data :: "byte list \<Rightarrow> byte list \<Rightarrow> byte list" where
  "payload_set_data p d = d"

definition payload_get_data :: "byte list \<Rightarrow> byte list" where
  "payload_get_data p = p"

definition payload_get_length :: "byte list \<Rightarrow> u32" where
  "payload_get_length p = of_nat (length p)"

definition payload_set_vector :: "byte list \<Rightarrow> byte list \<Rightarrow> byte list" where
  "payload_set_vector p d = payload_set_data p d"

definition payload_as_span :: "byte list \<Rightarrow> byte list" where
  "payload_as_span p = p"

section \<open>message\<close>

record vs_message =
  vsm_data :: "byte list"
  vsm_instance :: u16

definition vs_message_make :: "vs_message option" where
  "vs_message_make = do { d \<leftarrow> message_create 0; Some \<lparr>vsm_data = d, vsm_instance = 0x0001\<rparr> }"

definition vs_get_service :: "vs_message \<Rightarrow> u16 option" where
  "vs_get_service m = map_option id_value (const_hdr_service (vsm_data m))"

definition vs_get_instance :: "vs_message \<Rightarrow> u16" where
  "vs_get_instance m = vsm_instance m"

definition vs_get_method :: "vs_message \<Rightarrow> u16 option" where
  "vs_get_method m = map_option id_value (const_hdr_method (vsm_data m))"

definition vs_get_client :: "vs_message \<Rightarrow> u16 option" where
  "vs_get_client m = map_option id_value (const_hdr_client (vsm_data m))"

definition vs_get_session :: "vs_message \<Rightarrow> u16 option" where
  "vs_get_session m = map_option id_value (const_hdr_session (vsm_data m))"

definition vs_get_message_type :: "vs_message \<Rightarrow> message_type_e option" where
  "vs_get_message_type m = map_option (\<lambda>t. Message_type_e (mt_code t)) (const_hdr_msg_type (vsm_data m))"

definition vs_get_return_code :: "vs_message \<Rightarrow> return_code_e option" where
  "vs_get_return_code m = map_option (\<lambda>c. Return_code_e (rc_code c)) (const_hdr_ret_code (vsm_data m))"

definition vs_get_interface_version :: "vs_message \<Rightarrow> u8 option" where
  "vs_get_interface_version m = const_hdr_interface_ver (vsm_data m)"

text \<open>\<open>native\<close> and \<open>raw\<close>: the wrapped message and its bytes\<close>

definition vs_raw :: "vs_message \<Rightarrow> byte list" where
  "vs_raw m = vsm_data m"

definition ensure_header :: "vs_message \<Rightarrow> vs_message" where
  "ensure_header m =
     (if length (vsm_data m) < header_size then m\<lparr>vsm_data := vec_resize 0 (vsm_data m) header_size\<rparr> else m)"

text \<open>A setter: the header exists, then the field is written.\<close>

definition vs_set :: "vs_message \<Rightarrow> (byte list \<Rightarrow> byte list option) \<Rightarrow> vs_message option" where
  "vs_set m f = do {
     let m = ensure_header m;
     d \<leftarrow> f (vsm_data m);
     Some (m\<lparr>vsm_data := d\<rparr>)
   }"

definition vs_set_service :: "vs_message \<Rightarrow> u16 \<Rightarrow> vs_message option" where
  "vs_set_service m s = vs_set m (\<lambda>d. set_service d (Strong_id s))"

definition vs_set_instance :: "vs_message \<Rightarrow> u16 \<Rightarrow> vs_message" where
  "vs_set_instance m i = m\<lparr>vsm_instance := i\<rparr>"

definition vs_set_method :: "vs_message \<Rightarrow> u16 \<Rightarrow> vs_message option" where
  "vs_set_method m v = vs_set m (\<lambda>d. set_method d (Strong_id v))"

definition vs_set_client :: "vs_message \<Rightarrow> u16 \<Rightarrow> vs_message option" where
  "vs_set_client m c = vs_set m (\<lambda>d. set_client d (Strong_id c))"

definition vs_set_session :: "vs_message \<Rightarrow> u16 \<Rightarrow> vs_message option" where
  "vs_set_session m s = vs_set m (\<lambda>d. set_session d (Strong_id s))"

definition vs_set_message_type :: "vs_message \<Rightarrow> message_type_e \<Rightarrow> vs_message option" where
  "vs_set_message_type m t = vs_set m (\<lambda>d. set_msg_type d (Message_type (mte_code t)))"

definition vs_set_return_code :: "vs_message \<Rightarrow> return_code_e \<Rightarrow> vs_message option" where
  "vs_set_return_code m rc = vs_set m (\<lambda>d. set_ret_code d (Return_code (rce_code rc)))"

definition vs_set_interface_version :: "vs_message \<Rightarrow> u8 \<Rightarrow> vs_message option" where
  "vs_set_interface_version m v = vs_set m (\<lambda>d. set_interface_ver d v)"

definition vs_get_payload :: "vs_message \<Rightarrow> byte list" where
  "vs_get_payload m = message_payload (vsm_data m)"

definition vs_set_payload :: "vs_message \<Rightarrow> byte list option \<Rightarrow> vs_message option" where
  "vs_set_payload m p =
     (case p of
        None \<Rightarrow> Some m
      | Some p \<Rightarrow> do {
          let len = unat (payload_get_length p);
          let d = vec_resize 0 (vsm_data m) (header_size + len);
          d \<leftarrow> store d header_size (take len p);
          d \<leftarrow> set_payload_length d (payload_get_length p);
          Some (m\<lparr>vsm_data := d\<rparr>)
        })"

section \<open>Factories\<close>

definition vs_create_payload :: "byte list" where
  "vs_create_payload = []"

definition vs_create_payload_of :: "byte list \<Rightarrow> byte list" where
  "vs_create_payload_of d = payload_set_data vs_create_payload d"

definition vs_create_message :: "bool \<Rightarrow> vs_message option" where
  "vs_create_message is_req = do {
     m \<leftarrow> vs_message_make;
     vs_set_message_type m (if is_req then MT_REQUEST else MT_RESPONSE)
   }"

definition vs_create_request :: "vs_message option" where
  "vs_create_request = vs_create_message True"

definition vs_create_response :: "vs_message \<Rightarrow> vs_message option" where
  "vs_create_response req = do {
     resp \<leftarrow> vs_message_make;
     v \<leftarrow> vs_get_service req;
     resp \<leftarrow> vs_set_service resp v;
     let resp = vs_set_instance resp (vs_get_instance req);
     v \<leftarrow> vs_get_method req;
     resp \<leftarrow> vs_set_method resp v;
     v \<leftarrow> vs_get_client req;
     resp \<leftarrow> vs_set_client resp v;
     v \<leftarrow> vs_get_session req;
     resp \<leftarrow> vs_set_session resp v;
     v \<leftarrow> vs_get_interface_version req;
     resp \<leftarrow> vs_set_interface_version resp v;
     resp \<leftarrow> vs_set_message_type resp MT_RESPONSE;
     vs_set_return_code resp E_OK
   }"

definition vs_create_notification :: "vs_message option" where
  "vs_create_notification = do { m \<leftarrow> vs_message_make; vs_set_message_type m MT_NOTIFICATION }"

section \<open>application\<close>

text \<open>\<open>'s\<close> is the type of state handlers; calling one is recorded.\<close>

record ('w, 'a, 's) vs_application =
  vsa_inner :: "('w, 'a) application"
  vsa_state_handler :: "'s option"

definition vs_application_make :: "string \<Rightarrow> 'w \<Rightarrow> ('w, 'a, 's) vs_application" where
  "vs_application_make name w =
     \<lparr>vsa_inner = application_init (app_config_default\<lparr>app_name := if name = [] then ''bsomeip'' else name\<rparr>) w,
      vsa_state_handler = None\<rparr>"

definition vs_init :: "('w, 'a, 's) vs_application \<Rightarrow> bool" where
  "vs_init app = True"

definition vs_get_name :: "('w, 'a, 's) vs_application \<Rightarrow> string" where
  "vs_get_name app = app_name (app_cfg (vsa_inner app))"

definition vs_app_get_client :: "('w, 'a, 's) vs_application \<Rightarrow> u16" where
  "vs_app_get_client app = id_value (app_client (app_cfg (vsa_inner app)))"

definition vs_start :: "('w, 'a, 's) vs_application \<Rightarrow> ('s \<times> state_type_e) list" where
  "vs_start app = (case vsa_state_handler app of Some h \<Rightarrow> [(h, ST_REGISTERED)] | None \<Rightarrow> [])"

definition vs_stop :: "('w, 'a, 's) vs_application \<Rightarrow> ('s \<times> state_type_e) list" where
  "vs_stop app = (case vsa_state_handler app of Some h \<Rightarrow> [(h, ST_DEREGISTERED)] | None \<Rightarrow> [])"

definition vs_register_state_handler :: "('w, 'a, 's) vs_application \<Rightarrow> 's \<Rightarrow> ('w, 'a, 's) vs_application" where
  "vs_register_state_handler app handler = app\<lparr>vsa_state_handler := Some handler\<rparr>"

definition vs_offer_service ::
    "('w, 'a, 's) vs_application \<Rightarrow> u16 \<Rightarrow> u16 \<Rightarrow> u8 \<Rightarrow> u32 \<Rightarrow> int \<Rightarrow>
     ('w, 'a, 's) vs_application \<times> ('a \<times> service_id \<times> instance_id \<times> bool) list" where
  "vs_offer_service app service inst major minor now =
     (case app_offer_service (vsa_inner app) (Strong_id service) (Strong_id inst) major minor now of (i, calls) \<Rightarrow>
        (app\<lparr>vsa_inner := i\<rparr>, calls))"

definition vs_stop_offer_service ::
    "('w, 'a, 's) vs_application \<Rightarrow> u16 \<Rightarrow> u16 \<Rightarrow>
     ('w, 'a, 's) vs_application \<times> ('a \<times> service_id \<times> instance_id \<times> bool) list" where
  "vs_stop_offer_service app service inst =
     (case app_stop_offer_service (vsa_inner app) (Strong_id service) (Strong_id inst) of (i, calls) \<Rightarrow>
        (app\<lparr>vsa_inner := i\<rparr>, calls))"

definition vs_request_service ::
    "('w, 'a, 's) vs_application \<Rightarrow> u16 \<Rightarrow> u16 \<Rightarrow> u8 \<Rightarrow> u32 \<Rightarrow> int \<Rightarrow> ('w, 'a, 's) vs_application" where
  "vs_request_service app service inst major minor now =
     app\<lparr>vsa_inner := app_request_service (vsa_inner app) (Strong_id service) (Strong_id inst) major minor now\<rparr>"

definition vs_release_service :: "('w, 'a, 's) vs_application \<Rightarrow> u16 \<Rightarrow> u16 \<Rightarrow> ('w, 'a, 's) vs_application" where
  "vs_release_service app service inst =
     app\<lparr>vsa_inner := app_release_service (vsa_inner app) (Strong_id service) (Strong_id inst)\<rparr>"

text \<open>The message a handler gets: the header and the payload of the view, in a fresh message object. The
  header of a dispatched view is at least 16 bytes.\<close>

definition vs_wrap :: "message_view \<Rightarrow> vs_message" where
  "vs_wrap view = \<lparr>vsm_data = take header_size (view_header view) @ view_payload view, vsm_instance = 0x0001\<rparr>"

definition vs_register_message_handler ::
    "('w, 'a, 's) vs_application \<Rightarrow> u16 \<Rightarrow> u16 \<Rightarrow> u16 \<Rightarrow> ('w \<Rightarrow> vs_message \<Rightarrow> 'w \<times> byte list list) \<Rightarrow>
     ('w, 'a, 's) vs_application" where
  "vs_register_message_handler app service inst mth handler =
     app\<lparr>vsa_inner := register_message_handler (vsa_inner app) (Strong_id service) (Strong_id mth)
       (handler_of (User_handler (\<lambda>w view. handler w (vs_wrap view))))\<rparr>"

definition vs_unregister_message_handler ::
    "('w, 'a, 's) vs_application \<Rightarrow> u16 \<Rightarrow> u16 \<Rightarrow> u16 \<Rightarrow> ('w, 'a, 's) vs_application" where
  "vs_unregister_message_handler app service inst mth =
     app\<lparr>vsa_inner := unregister_message_handler (vsa_inner app) (Strong_id service) (Strong_id mth)\<rparr>"

definition vs_register_availability_handler ::
    "('w, 'a, 's) vs_application \<Rightarrow> u16 \<Rightarrow> u16 \<Rightarrow> 'a \<Rightarrow> ('w, 'a, 's) vs_application" where
  "vs_register_availability_handler app service inst handler =
     app\<lparr>vsa_inner := register_availability_handler (vsa_inner app) (Strong_id service) handler\<rparr>"

definition vs_offer_event :: "('w, 'a, 's) vs_application \<Rightarrow> u16 \<Rightarrow> u16 \<Rightarrow> u16 \<Rightarrow> ('w, 'a, 's) vs_application" where
  "vs_offer_event app service inst event = app"

definition vs_stop_offer_event :: "('w, 'a, 's) vs_application \<Rightarrow> u16 \<Rightarrow> u16 \<Rightarrow> u16 \<Rightarrow> ('w, 'a, 's) vs_application" where
  "vs_stop_offer_event app service inst event = app"

definition vs_subscribe :: "('w, 'a, 's) vs_application \<Rightarrow> u16 \<Rightarrow> u16 \<Rightarrow> u16 \<Rightarrow> ('w, 'a, 's) vs_application" where
  "vs_subscribe app service inst eg = app"

definition vs_unsubscribe :: "('w, 'a, 's) vs_application \<Rightarrow> u16 \<Rightarrow> u16 \<Rightarrow> u16 \<Rightarrow> ('w, 'a, 's) vs_application" where
  "vs_unsubscribe app service inst eg =
     app\<lparr>vsa_inner := app_unsubscribe (vsa_inner app) (Strong_id service) (Strong_id eg)\<rparr>"

definition vs_send ::
    "nat \<Rightarrow> ('w, 'a, 's) vs_application \<Rightarrow> vs_message option \<Rightarrow> ('w, 'a, 's) vs_application run" where
  "vs_send fuel app msg =
     (case msg of
        None \<Rightarrow> Done app
      | Some m \<Rightarrow> bind_run (app_route fuel (vsa_inner app) (vs_raw m)) (\<lambda>(i, _). Done (app\<lparr>vsa_inner := i\<rparr>)))"

definition vs_notify ::
    "nat \<Rightarrow> ('w, 'a, 's) vs_application \<Rightarrow> u16 \<Rightarrow> u16 \<Rightarrow> u16 \<Rightarrow> byte list option \<Rightarrow>
     ('w, 'a, 's) vs_application run" where
  "vs_notify fuel app service inst event pl =
     (let len = (case pl of Some p \<Rightarrow> unat (payload_get_length p) | None \<Rightarrow> 0)
      in mem_run (create_notification (Strong_id service) (Strong_id event) len) (\<lambda>notif.
        mem_run (case pl of
            Some p \<Rightarrow> if 0 < len then store notif header_size (take len p) else Some notif
          | None \<Rightarrow> Some notif) (\<lambda>notif.
          bind_run (app_route fuel (vsa_inner app) notif) (\<lambda>(i, _). Done (app\<lparr>vsa_inner := i\<rparr>)))))"

section \<open>runtime\<close>

text \<open>The singleton has no members; its methods are the factories above.\<close>

definition runtime_create_application :: "string \<Rightarrow> 'w \<Rightarrow> ('w, 'a, 's) vs_application" where
  "runtime_create_application name w = vs_application_make name w"

definition runtime_create_message :: "bool \<Rightarrow> vs_message option" where
  "runtime_create_message is_req = vs_create_message is_req"

definition runtime_create_request :: "vs_message option" where
  "runtime_create_request = vs_create_request"

definition runtime_create_response :: "vs_message \<Rightarrow> vs_message option" where
  "runtime_create_response req = vs_create_response req"

definition runtime_create_payload :: "byte list" where
  "runtime_create_payload = vs_create_payload"

definition runtime_create_payload_of :: "byte list \<Rightarrow> byte list" where
  "runtime_create_payload_of d = vs_create_payload_of d"

end
