(* ===== verification/Compat_Correct.thy ===== *)
theory Compat_Correct
  imports Compat_Vsomeip Api_Correct
begin






end
