(* ===== verification/Config.thy ===== *)
theory Config
  imports Wire_Types
begin

text \<open>\<open>config/config.hpp\<close>: the compile-time configuration and its service-discovery timing.\<close>

definition default_sd_multicast :: string where "default_sd_multicast = ''239.244.224.245''"
definition default_sd_port :: u16 where "default_sd_port = 30490"

record endpoint =
  endpoint_address :: "byte list"
  endpoint_port :: u16

definition endpoint_default :: endpoint where
  "endpoint_default = \<lparr>endpoint_address = [0, 0, 0, 0], endpoint_port = 0\<rparr>"

definition endpoint_make :: "u8 \<Rightarrow> u8 \<Rightarrow> u8 \<Rightarrow> u8 \<Rightarrow> u16 \<Rightarrow> endpoint" where
  "endpoint_make a b c d p = \<lparr>endpoint_address = [a, b, c, d], endpoint_port = p\<rparr>"

record service_binding =
  bind_service :: service_id
  bind_instance :: instance_id
  bind_reliable :: endpoint
  bind_unreliable :: endpoint

record static_config =
  cfg_name :: string
  cfg_client :: client_id
  cfg_unicast :: endpoint
  cfg_sd_multicast :: endpoint
  sd_initial_delay_ms :: u32
  sd_repetition_base_delay_ms :: u32
  sd_repetition_max :: u32
  sd_cyclic_offer_delay_ms :: u32
  sd_offer_ttl :: u32
  cfg_services :: "service_binding list"

definition static_config_default :: static_config where
  "static_config_default =
     \<lparr>cfg_name = ''bsomeip'', cfg_client = Strong_id 0x0001, cfg_unicast = endpoint_make 192 168 1 100 0,
      cfg_sd_multicast = endpoint_make 239 244 224 245 30490, sd_initial_delay_ms = 100,
      sd_repetition_base_delay_ms = 10, sd_repetition_max = 3, sd_cyclic_offer_delay_ms = 1000,
      sd_offer_ttl = 3, cfg_services = []\<rparr>"

record sd_timing =
  timing_initial_delay_ms :: u32
  timing_repetition_base_delay_ms :: u32
  timing_repetition_max :: u32
  timing_cyclic_offer_delay_ms :: u32
  timing_offer_ttl :: u32

definition get_sd_timing :: "static_config \<Rightarrow> sd_timing" where
  "get_sd_timing cfg =
     \<lparr>timing_initial_delay_ms = sd_initial_delay_ms cfg,
      timing_repetition_base_delay_ms = sd_repetition_base_delay_ms cfg,
      timing_repetition_max = sd_repetition_max cfg,
      timing_cyclic_offer_delay_ms = sd_cyclic_offer_delay_ms cfg,
      timing_offer_ttl = sd_offer_ttl cfg\<rparr>"

end
