(* ===== verification/Io_Uring.thy ===== *)
theory Io_Uring
  imports Prelude
begin

text \<open>
  \<open>io/uring_context.hpp\<close> and \<open>io/detail/uring_syscall.hpp\<close>: the io_uring instance. The memory the
  kernel and the program share is the record \<open>shared\<close>: the two rings and the objects of the program
  the kernel reads and writes (buffers, socket addresses, message headers), by address. A context holds addresses into it; as in
  the code, a moved-from context keeps the addresses of the ring it gave away, so two contexts may work on
  one \<open>shared\<close>. The kernel is not under src: \<open>io_uring_enter\<close> is an argument of the operations and the
  calls that set up and release a ring are a record \<open>sys\<close> of functions of the calls made so far. An
  access outside an array or through a null pointer is \<^term>\<open>None\<close>.
\<close>

section \<open>Data shared with the kernel\<close>

text \<open>\<open>struct io_uring_sqe\<close> and \<open>struct io_uring_cqe\<close>, the fields the code uses; \<open>off\<close> and \<open>addr2\<close> are one
  field (a union).\<close>

record sqe =
  sqe_opcode :: u8
  sqe_fd :: int
  sqe_off :: u64
  sqe_addr :: u64
  sqe_len :: u32
  sqe_user_data :: u64

definition sqe_zero :: sqe where
  "sqe_zero = \<lparr>sqe_opcode = 0, sqe_fd = 0, sqe_off = 0, sqe_addr = 0, sqe_len = 0, sqe_user_data = 0\<rparr>"

record cqe =
  cqe_user_data :: u64
  cqe_res :: int
  cqe_flags :: u32

text \<open>An object of the program the kernel is given the address of.\<close>

record iovec =
  iov_base :: u64
  iov_len :: u64

record msghdr =
  msg_iov :: u64
  msg_iovlen :: u64
  msg_name :: u64
  msg_namelen :: u32

datatype user_object = Bytes "byte list" | Socklen u32 | Iovec iovec | Msghdr msghdr

record shared =
  sq_head :: u32
  sq_tail :: u32
  sq_ring_mask :: u32
  sq_array :: "u32 list"
  sqes :: "sqe list"
  cq_head :: u32
  cq_tail :: u32
  cq_ring_mask :: u32
  cqes :: "cqe list"
  user_mem :: "u64 \<Rightarrow> user_object option"

section \<open>System calls\<close>

text \<open>\<open>struct io_uring_params\<close> with the offsets \<open>sq_off\<close> and \<open>cq_off\<close>\<close>

record uring_params =
  p_sq_entries :: u32
  p_cq_entries :: u32
  p_features :: u32
  sq_off_head :: u32
  sq_off_tail :: u32
  sq_off_flags :: u32
  sq_off_array :: u32
  cq_off_head :: u32
  cq_off_tail :: u32
  cq_off_cqes :: u32

definition IORING_FEAT_SINGLE_MMAP :: u32 where "IORING_FEAT_SINGLE_MMAP = 1"
definition IORING_OFF_SQ_RING :: u64 where "IORING_OFF_SQ_RING = 0"
definition IORING_OFF_CQ_RING :: u64 where "IORING_OFF_CQ_RING = 0x8000000"
definition IORING_OFF_SQES :: u64 where "IORING_OFF_SQES = 0x10000000"
definition IORING_ENTER_GETEVENTS :: u32 where "IORING_ENTER_GETEVENTS = 1"
definition MAP_FAILED :: u64 where "MAP_FAILED = - 1"

text \<open>The calls a context makes, with what they returned. \<open>errno\<close> is read after the calls of a log.\<close>

datatype os_call =
    Setup_call u32 int
  | Mmap_call u64 int u64 u64
  | Munmap_call u64 u64
  | Close_call int

record sys =
  sys_setup :: "os_call list \<Rightarrow> u32 \<Rightarrow> int \<times> uring_params"
  sys_mmap :: "os_call list \<Rightarrow> u64 \<Rightarrow> int \<Rightarrow> u64 \<Rightarrow> u64"
  sys_errno :: "os_call list \<Rightarrow> int"

datatype system_error = System_error (error_code: int) (error_what: string)

text \<open>\<open>io_uring_enter (fd, to_submit, min_complete, flags)\<close> returns the value of the call and \<open>errno\<close>.\<close>

type_synonym 'k enter = "int \<Rightarrow> u32 \<Rightarrow> u32 \<Rightarrow> u32 \<Rightarrow> 'k \<times> shared \<Rightarrow> ('k \<times> shared) \<times> int \<times> int"

definition do_mmap :: "sys \<Rightarrow> u64 \<Rightarrow> int \<Rightarrow> u64 \<Rightarrow> os_call list \<Rightarrow> u64 \<times> os_call list" where
  "do_mmap s len fd off log =
     (let addr = sys_mmap s log len fd off in (addr, log @ [Mmap_call len fd off addr]))"

record mapped_ring =
  m_sq_ptr :: u64
  m_sq_size :: u64
  m_cq_ptr :: u64
  m_cq_size :: u64
  m_sqes :: u64
  m_sqes_size :: u64

definition mapped_ring_init :: mapped_ring where
  "mapped_ring_init = \<lparr>m_sq_ptr = 0, m_sq_size = 0, m_cq_ptr = 0, m_cq_size = 0, m_sqes = 0, m_sqes_size = 0\<rparr>"

definition unmap_ring :: "mapped_ring \<Rightarrow> os_call list \<Rightarrow> mapped_ring \<times> os_call list" where
  "unmap_ring ring log =
     (let (ring, log) =
            (if m_sq_ptr ring \<noteq> 0
             then (ring\<lparr>m_sq_ptr := 0\<rparr>, log @ [Munmap_call (m_sq_ptr ring) (m_sq_size ring)])
             else (ring, log));
          log = (if m_cq_ptr ring \<noteq> 0 \<and> m_cq_ptr ring \<noteq> m_sq_ptr ring
                 then log @ [Munmap_call (m_cq_ptr ring) (m_cq_size ring)] else log);
          ring = ring\<lparr>m_cq_ptr := 0\<rparr>
      in if m_sqes ring \<noteq> 0
         then (ring\<lparr>m_sqes := 0\<rparr>, log @ [Munmap_call (m_sqes ring) (m_sqes_size ring)])
         else (ring, log))"

section \<open>The context\<close>

record uring_context =
  uc_fd :: int
  uc_ring :: mapped_ring
  uc_sq_entries :: u32
  uc_cq_entries :: u32
  uc_features :: u32
  uc_sq_head :: u64
  uc_sq_tail :: u64
  uc_sq_mask :: u32
  uc_sq_array :: u64
  uc_sq_flags :: u64
  uc_sq_tail_local :: u32
  uc_cq_head :: u64
  uc_cq_tail :: u64
  uc_cq_mask :: u32
  uc_cqes :: u64

text \<open>The end of the constructor: the cached pointers. The masks are read from the mapped rings.\<close>

definition cache_pointers :: "shared \<Rightarrow> uring_params \<Rightarrow> int \<Rightarrow> mapped_ring \<Rightarrow> uring_context" where
  "cache_pointers m params fd ring =
     \<lparr>uc_fd = fd, uc_ring = ring,
      uc_sq_entries = p_sq_entries params, uc_cq_entries = p_cq_entries params,
      uc_features = p_features params,
      uc_sq_head = m_sq_ptr ring + ucast (sq_off_head params),
      uc_sq_tail = m_sq_ptr ring + ucast (sq_off_tail params),
      uc_sq_mask = sq_ring_mask m,
      uc_sq_array = m_sq_ptr ring + ucast (sq_off_array params),
      uc_sq_flags = m_sq_ptr ring + ucast (sq_off_flags params),
      uc_sq_tail_local = 0,
      uc_cq_head = m_cq_ptr ring + ucast (cq_off_head params),
      uc_cq_tail = m_cq_ptr ring + ucast (cq_off_tail params),
      uc_cq_mask = cq_ring_mask m,
      uc_cqes = m_cq_ptr ring + ucast (cq_off_cqes params)\<rparr>"

text \<open>The steps of the constructor, each with its failure path: the completion ring shares the mapping
  of the submission ring when the kernel says so; \<open>sizeof (io_uring_cqe)\<close> is 16 and
  \<open>sizeof (io_uring_sqe)\<close> 64.\<close>

definition map_sqes :: "sys \<Rightarrow> shared \<Rightarrow> uring_params \<Rightarrow> int \<Rightarrow> mapped_ring \<Rightarrow> os_call list \<Rightarrow>
    (system_error + uring_context) \<times> os_call list" where
  "map_sqes s m params fd ring log =
     (let len = ucast (p_sq_entries params) * 64;
          (p, log) = do_mmap s len fd IORING_OFF_SQES log;
          ring = ring\<lparr>m_sqes_size := len, m_sqes := p\<rparr>
      in if p = MAP_FAILED
         then (let (ring, log) = unmap_ring ring log; log = log @ [Close_call fd]
               in (Inl (System_error (sys_errno s log) ''mmap sqes''), log))
         else (Inr (cache_pointers m params fd ring), log))"

definition map_cq :: "sys \<Rightarrow> shared \<Rightarrow> uring_params \<Rightarrow> int \<Rightarrow> mapped_ring \<Rightarrow> os_call list \<Rightarrow>
    (system_error + uring_context) \<times> os_call list" where
  "map_cq s m params fd ring log =
     (if p_features params AND IORING_FEAT_SINGLE_MMAP \<noteq> 0
      then map_sqes s m params fd (ring\<lparr>m_cq_ptr := m_sq_ptr ring, m_cq_size := m_sq_size ring\<rparr>) log
      else (let len = ucast (cq_off_cqes params) + ucast (p_cq_entries params) * 16;
                (p, log) = do_mmap s len fd IORING_OFF_CQ_RING log;
                ring = ring\<lparr>m_cq_size := len, m_cq_ptr := p\<rparr>
            in if p = MAP_FAILED
               then (let (ring, log) = unmap_ring ring log; log = log @ [Close_call fd]
                     in (Inl (System_error (sys_errno s log) ''mmap cq_ring''), log))
               else map_sqes s m params fd ring log))"

definition uring_construct :: "sys \<Rightarrow> shared \<Rightarrow> u32 \<Rightarrow> os_call list \<Rightarrow>
    (system_error + uring_context) \<times> os_call list" where
  "uring_construct s m entries log =
     (let (fd, params) = sys_setup s log entries; log = log @ [Setup_call entries fd]
      in if fd < 0 then (Inl (System_error (- fd) ''io_uring_setup''), log)
         else (let len = ucast (sq_off_array params) + ucast (p_sq_entries params) * 4;
                   (p, log) = do_mmap s len fd IORING_OFF_SQ_RING log;
                   ring = mapped_ring_init\<lparr>m_sq_size := len, m_sq_ptr := p\<rparr>
               in if p = MAP_FAILED
                  then (let log = log @ [Close_call fd]
                        in (Inl (System_error (sys_errno s log) ''mmap sq_ring''), log))
                  else map_cq s m params fd ring log))"

definition uring_destruct :: "uring_context \<Rightarrow> os_call list \<Rightarrow> os_call list" where
  "uring_destruct c log =
     (if 0 \<le> uc_fd c then snd (unmap_ring (uc_ring c) log) @ [Close_call (uc_fd c)] else log)"

text \<open>The move constructor: the new context and what is left of the source. \<open>sq_tail_local_\<close> is not in
  the initialiser list, so it gets its default.\<close>

definition uring_move :: "uring_context \<Rightarrow> uring_context \<times> uring_context" where
  "uring_move o' = (o'\<lparr>uc_sq_tail_local := 0\<rparr>, o'\<lparr>uc_fd := - 1, uc_ring := mapped_ring_init\<rparr>)"

definition uring_move_assign ::
    "uring_context \<Rightarrow> uring_context \<Rightarrow> os_call list \<Rightarrow> uring_context \<times> uring_context \<times> os_call list" where
  "uring_move_assign c o' log =
     (o'\<lparr>uc_sq_tail_local := uc_sq_tail_local c\<rparr>, o'\<lparr>uc_fd := - 1, uc_ring := mapped_ring_init\<rparr>,
      if 0 \<le> uc_fd c then snd (unmap_ring (uc_ring c) log) @ [Close_call (uc_fd c)] else log)"

section \<open>Submission\<close>

text \<open>\<open>get_sqe\<close>: the index of the entry the returned pointer points to, if any.\<close>

definition get_sqe :: "uring_context \<Rightarrow> shared \<Rightarrow> (uring_context \<times> shared \<times> nat option) option" where
  "get_sqe c m =
     (let head = sq_head m; tail = uc_sq_tail_local c
      in if uc_sq_entries c \<le> tail - head then Some (c, m, None)
         else (let idx = tail AND uc_sq_mask c; i = unat idx
               in if m_sqes (uc_ring c) \<noteq> 0 \<and> i < length (sqes m) \<and> i < length (sq_array m)
                  then Some (c\<lparr>uc_sq_tail_local := tail + 1\<rparr>,
                             m\<lparr>sqes := (sqes m)[i := sqe_zero], sq_array := (sq_array m)[i := idx]\<rparr>, Some i)
                  else None))"

text \<open>What callers do with the pointer: they set fields of the entry.\<close>

definition set_sqe :: "nat \<Rightarrow> (sqe \<Rightarrow> sqe) \<Rightarrow> shared \<Rightarrow> shared" where
  "set_sqe i f m = m\<lparr>sqes := (sqes m)[i := f (sqes m ! i)]\<rparr>"

definition enter_result :: "int \<times> int \<Rightarrow> int" where
  "enter_result r = (if fst r < 0 then - snd r else fst r)"

definition submit :: "'k enter \<Rightarrow> uring_context \<Rightarrow> 'k \<times> shared \<Rightarrow> ('k \<times> shared) \<times> int" where
  "submit enter c km =
     (let to_submit = uc_sq_tail_local c - sq_tail (snd km)
      in if to_submit = 0 then (km, 0)
         else (let (km, r) = enter (uc_fd c) to_submit 0 0
                     (fst km, (snd km)\<lparr>sq_tail := uc_sq_tail_local c\<rparr>)
               in (km, enter_result r)))"

definition submit_and_wait ::
    "'k enter \<Rightarrow> uring_context \<Rightarrow> u32 \<Rightarrow> 'k \<times> shared \<Rightarrow> ('k \<times> shared) \<times> int" where
  "submit_and_wait enter c min_complete km =
     (let to_submit = uc_sq_tail_local c - sq_tail (snd km);
          (km, r) = enter (uc_fd c) to_submit min_complete IORING_ENTER_GETEVENTS
            (fst km, (snd km)\<lparr>sq_tail := uc_sq_tail_local c\<rparr>)
      in (km, enter_result r))"

section \<open>Completion\<close>

definition cqe_at :: "uring_context \<Rightarrow> shared \<Rightarrow> u32 \<Rightarrow> cqe option" where
  "cqe_at c m head =
     (let i = unat (head AND uc_cq_mask c) in if i < length (cqes m) then Some (cqes m ! i) else None)"

text \<open>The outer option of \<open>peek_cqe\<close> is undefined behaviour, the inner one the null pointer.\<close>

definition peek_cqe :: "uring_context \<Rightarrow> shared \<Rightarrow> cqe option option" where
  "peek_cqe c m =
     (if cq_head m = cq_tail m then Some None else do { e \<leftarrow> cqe_at c m (cq_head m); Some (Some e) })"

definition seen_cqe :: "shared \<Rightarrow> shared" where
  "seen_cqe m = m\<lparr>cq_head := cq_head m + 1\<rparr>"

text \<open>The loop of \<open>for_each_cqe\<close>. The callback may change everything, the rings included; the bounds of
  the loop were loaded before it. It ends after \<open>tail - head\<close> rounds, modulo the word size.\<close>

function cqe_loop :: "uring_context \<Rightarrow> (cqe \<Rightarrow> shared \<times> 's \<Rightarrow> (shared \<times> 's) option) \<Rightarrow>
    u32 \<Rightarrow> u32 \<Rightarrow> u32 \<Rightarrow> shared \<times> 's \<Rightarrow> (u32 \<times> u32 \<times> shared \<times> 's) option" where
  "cqe_loop c fn tail head count ms =
     (if head \<noteq> tail
      then do {
        e \<leftarrow> cqe_at c (fst ms) head;
        ms \<leftarrow> fn e ms;
        cqe_loop c fn tail (head + 1) (count + 1) ms
      }
      else Some (head, count, ms))"
  by pat_completeness auto
termination
  by (relation "measure (\<lambda>(c, fn, tail, head, count, ms). unat (tail - head))")
    (auto simp: diff_diff_add [symmetric] intro!: measure_unat)

declare cqe_loop.simps [simp del]

definition for_each_cqe :: "uring_context \<Rightarrow> (cqe \<Rightarrow> shared \<times> 's \<Rightarrow> (shared \<times> 's) option) \<Rightarrow>
    shared \<times> 's \<Rightarrow> (u32 \<times> shared \<times> 's) option" where
  "for_each_cqe c fn ms = do {
     (head, count, m, s) \<leftarrow> cqe_loop c fn (cq_tail (fst ms)) (cq_head (fst ms)) 0 ms;
     Some (count, m\<lparr>cq_head := head\<rparr>, s)
   }"

end
