(* ===== verification/Io_Loop.thy ===== *)
theory Io_Loop
  imports Io_Uring
begin

text \<open>
  \<open>io/uring_scheduler.hpp\<close> and \<open>io/socket_ops.hpp\<close>: the event loop, its scheduler and the asynchronous
  socket operations. An operation state is an object whose address travels through the kernel as the
  entry's \<open>user_data\<close>; \<open>loop_ops\<close> maps the addresses of the living ones to their members, and members
  the kernel reads or writes are objects of \<open>user_mem\<close> at the addresses the state keeps. What the
  receiver of an operation does with its signal is the argument \<open>recv\<close> of the loop.
\<close>

section \<open>Constants of the system headers\<close>

definition IORING_OP_NOP :: u8 where "IORING_OP_NOP = 0"
definition IORING_OP_SENDMSG :: u8 where "IORING_OP_SENDMSG = 9"
definition IORING_OP_RECVMSG :: u8 where "IORING_OP_RECVMSG = 10"
definition IORING_OP_ACCEPT :: u8 where "IORING_OP_ACCEPT = 13"
definition IORING_OP_CONNECT :: u8 where "IORING_OP_CONNECT = 16"
definition IORING_OP_CLOSE :: u8 where "IORING_OP_CLOSE = 19"
definition IORING_OP_SEND :: u8 where "IORING_OP_SEND = 26"
definition IORING_OP_RECV :: u8 where "IORING_OP_RECV = 27"
definition EINTR :: int where "EINTR = 4"
definition EBUSY :: int where "EBUSY = 16"
definition sockaddr_storage_size :: nat where "sockaddr_storage_size = 128"

section \<open>Operation states\<close>

text \<open>\<open>Base_op\<close> is a bare \<open>uring_op_base\<close>, whose callback is null. The arguments are the members a start or
  a completion uses; an address is that of the member of the state (\<open>&addr_\<close>, \<open>&msg_\<close>).\<close>

datatype uring_op =
    Base_op
  | Nop_op
  | Accept_op (op_fd: int) (op_addr: u64) (op_addrlen: u64)
  | Recv_op (op_fd: int) (op_data: u64) (op_size: u64)
  | Send_op (op_fd: int) (op_data: u64) (op_size: u64)
  | Recvfrom_op (op_fd: int) (op_msg: u64) (op_addr: u64)
  | Sendto_op (op_fd: int) (op_msg: u64)
  | Connect_op (op_fd: int) (op_addr: u64) (op_addrlen: u64)
  | Close_op (op_fd: int)

text \<open>What an operation completes with.\<close>

datatype io_signal =
    Io_value
  | Io_accepted int "byte list"
  | Io_bytes nat
  | Io_datagram nat "byte list"
  | Io_error system_error

section \<open>Starting\<close>

text \<open>The entry every \<open>start\<close> begins with: a full queue is submitted and tried once more.\<close>

definition acquire_sqe ::
    "'k enter \<Rightarrow> uring_context \<Rightarrow> 'k \<times> shared \<Rightarrow> (uring_context \<times> ('k \<times> shared) \<times> nat option) option" where
  "acquire_sqe enter c km = do {
     (c, m, sqe) \<leftarrow> get_sqe c (snd km);
     case sqe of
       Some i \<Rightarrow> Some (c, (fst km, m), Some i)
     | None \<Rightarrow>
         (let (km, _) = submit enter c (fst km, m)
          in do { (c, m, sqe) \<leftarrow> get_sqe c (snd km); Some (c, (fst km, m), sqe) })
   }"

text \<open>A start with the given error text and assignments to the entry; the signal is the one it
  completes with at once, if any.\<close>

definition start_op :: "'k enter \<Rightarrow> string \<Rightarrow> (sqe \<Rightarrow> sqe) \<Rightarrow> uring_context \<Rightarrow> 'k \<times> shared \<Rightarrow>
    (uring_context \<times> ('k \<times> shared) \<times> io_signal option) option" where
  "start_op enter what fill c km = do {
     (c, km, sqe) \<leftarrow> acquire_sqe enter c km;
     case sqe of
       None \<Rightarrow> Some (c, km, Some (Io_error (System_error EBUSY what)))
     | Some i \<Rightarrow> Some (c, (fst km, set_sqe i fill (snd km)), None)
   }"

definition nop_fill :: "u64 \<Rightarrow> sqe \<Rightarrow> sqe" where
  "nop_fill this e = e\<lparr>sqe_opcode := IORING_OP_NOP, sqe_user_data := this\<rparr>"

definition accept_fill :: "u64 \<Rightarrow> int \<Rightarrow> u64 \<Rightarrow> u64 \<Rightarrow> sqe \<Rightarrow> sqe" where
  "accept_fill this fd addr addrlen e =
     e\<lparr>sqe_opcode := IORING_OP_ACCEPT, sqe_fd := fd, sqe_addr := addr, sqe_off := addrlen,
       sqe_user_data := this\<rparr>"

definition recv_fill :: "u64 \<Rightarrow> int \<Rightarrow> u64 \<Rightarrow> u64 \<Rightarrow> sqe \<Rightarrow> sqe" where
  "recv_fill this fd data len e =
     e\<lparr>sqe_opcode := IORING_OP_RECV, sqe_fd := fd, sqe_addr := data, sqe_len := ucast len,
       sqe_user_data := this\<rparr>"

definition send_fill :: "u64 \<Rightarrow> int \<Rightarrow> u64 \<Rightarrow> u64 \<Rightarrow> sqe \<Rightarrow> sqe" where
  "send_fill this fd data len e =
     e\<lparr>sqe_opcode := IORING_OP_SEND, sqe_fd := fd, sqe_addr := data, sqe_len := ucast len,
       sqe_user_data := this\<rparr>"

definition recvfrom_fill :: "u64 \<Rightarrow> int \<Rightarrow> u64 \<Rightarrow> sqe \<Rightarrow> sqe" where
  "recvfrom_fill this fd msg e =
     e\<lparr>sqe_opcode := IORING_OP_RECVMSG, sqe_fd := fd, sqe_addr := msg, sqe_len := 1, sqe_user_data := this\<rparr>"

definition sendto_fill :: "u64 \<Rightarrow> int \<Rightarrow> u64 \<Rightarrow> sqe \<Rightarrow> sqe" where
  "sendto_fill this fd msg e =
     e\<lparr>sqe_opcode := IORING_OP_SENDMSG, sqe_fd := fd, sqe_addr := msg, sqe_len := 1, sqe_user_data := this\<rparr>"

definition connect_fill :: "u64 \<Rightarrow> int \<Rightarrow> u64 \<Rightarrow> u64 \<Rightarrow> sqe \<Rightarrow> sqe" where
  "connect_fill this fd addr addrlen e =
     e\<lparr>sqe_opcode := IORING_OP_CONNECT, sqe_fd := fd, sqe_addr := addr, sqe_off := addrlen,
       sqe_user_data := this\<rparr>"

definition close_fill :: "u64 \<Rightarrow> int \<Rightarrow> sqe \<Rightarrow> sqe" where
  "close_fill this fd e = e\<lparr>sqe_opcode := IORING_OP_CLOSE, sqe_fd := fd, sqe_user_data := this\<rparr>"

text \<open>The \<open>start\<close> of each kind of operation state, at address \<open>this\<close>.\<close>

type_synonym 'k starter = "uring_context \<Rightarrow> 'k \<times> shared \<Rightarrow> (uring_context \<times> ('k \<times> shared) \<times> io_signal option) option"

definition nop_start :: "'k enter \<Rightarrow> u64 \<Rightarrow> 'k starter" where
  "nop_start enter this = start_op enter ''io_uring SQ full'' (nop_fill this)"

definition accept_start :: "'k enter \<Rightarrow> u64 \<Rightarrow> int \<Rightarrow> u64 \<Rightarrow> u64 \<Rightarrow> 'k starter" where
  "accept_start enter this fd addr addrlen = start_op enter '''' (accept_fill this fd addr addrlen)"

definition recv_start :: "'k enter \<Rightarrow> u64 \<Rightarrow> int \<Rightarrow> u64 \<Rightarrow> u64 \<Rightarrow> 'k starter" where
  "recv_start enter this fd data len = start_op enter '''' (recv_fill this fd data len)"

definition send_start :: "'k enter \<Rightarrow> u64 \<Rightarrow> int \<Rightarrow> u64 \<Rightarrow> u64 \<Rightarrow> 'k starter" where
  "send_start enter this fd data len = start_op enter '''' (send_fill this fd data len)"

definition recvfrom_start :: "'k enter \<Rightarrow> u64 \<Rightarrow> int \<Rightarrow> u64 \<Rightarrow> 'k starter" where
  "recvfrom_start enter this fd msg = start_op enter '''' (recvfrom_fill this fd msg)"

definition sendto_start :: "'k enter \<Rightarrow> u64 \<Rightarrow> int \<Rightarrow> u64 \<Rightarrow> 'k starter" where
  "sendto_start enter this fd msg = start_op enter '''' (sendto_fill this fd msg)"

definition connect_start :: "'k enter \<Rightarrow> u64 \<Rightarrow> int \<Rightarrow> u64 \<Rightarrow> u64 \<Rightarrow> 'k starter" where
  "connect_start enter this fd addr addrlen = start_op enter '''' (connect_fill this fd addr addrlen)"

definition close_start :: "'k enter \<Rightarrow> u64 \<Rightarrow> int \<Rightarrow> 'k starter" where
  "close_start enter this fd = start_op enter '''' (close_fill this fd)"

text \<open>The start of an operation state of any kind; a bare base has none.\<close>

definition op_start :: "'k enter \<Rightarrow> u64 \<Rightarrow> uring_op \<Rightarrow> 'k starter" where
  "op_start enter this op c km =
     (case op of
        Base_op \<Rightarrow> None
      | Nop_op \<Rightarrow> nop_start enter this c km
      | Accept_op fd addr addrlen \<Rightarrow> accept_start enter this fd addr addrlen c km
      | Recv_op fd data len \<Rightarrow> recv_start enter this fd data len c km
      | Send_op fd data len \<Rightarrow> send_start enter this fd data len c km
      | Recvfrom_op fd msg addr \<Rightarrow> recvfrom_start enter this fd msg c km
      | Sendto_op fd msg \<Rightarrow> sendto_start enter this fd msg c km
      | Connect_op fd addr addrlen \<Rightarrow> connect_start enter this fd addr addrlen c km
      | Close_op fd \<Rightarrow> close_start enter this fd c km)"

section \<open>Senders\<close>

datatype io_sender =
    Schedule_sender
  | Accept_sender int
  | Recv_sender int u64 u64
  | Send_sender int u64 u64
  | Recvfrom_sender int u64 u64
  | Sendto_sender int u64 u64 "byte list" u32
  | Connect_sender int "byte list" u32
  | Close_sender int

text \<open>\<open>memcpy\<close> of \<open>n\<close> bytes to the front of a zeroed \<open>sockaddr_storage\<close>\<close>

definition copy_sockaddr :: "byte list \<Rightarrow> u32 \<Rightarrow> byte list option" where
  "copy_sockaddr src n =
     (if unat n \<le> sockaddr_storage_size \<and> unat n \<le> length src
      then Some (take (unat n) src @ replicate (sockaddr_storage_size - unat n) 0) else None)"

definition schedule :: io_sender where "schedule = Schedule_sender"
definition async_accept :: "int \<Rightarrow> io_sender" where "async_accept fd = Accept_sender fd"
definition async_recv :: "int \<Rightarrow> u64 \<Rightarrow> u64 \<Rightarrow> io_sender" where "async_recv fd data len = Recv_sender fd data len"
definition async_send :: "int \<Rightarrow> u64 \<Rightarrow> u64 \<Rightarrow> io_sender" where "async_send fd data len = Send_sender fd data len"
definition async_recvfrom :: "int \<Rightarrow> u64 \<Rightarrow> u64 \<Rightarrow> io_sender" where
  "async_recvfrom fd data len = Recvfrom_sender fd data len"
definition async_sendto :: "int \<Rightarrow> u64 \<Rightarrow> u64 \<Rightarrow> byte list \<Rightarrow> u32 \<Rightarrow> io_sender option" where
  "async_sendto fd data len dest dest_len =
     map_option (\<lambda>d. Sendto_sender fd data len d dest_len) (copy_sockaddr dest dest_len)"
definition async_connect :: "int \<Rightarrow> byte list \<Rightarrow> u32 \<Rightarrow> io_sender option" where
  "async_connect fd addr addrlen = map_option (\<lambda>a. Connect_sender fd a addrlen) (copy_sockaddr addr addrlen)"
definition async_close :: "int \<Rightarrow> io_sender" where "async_close fd = Close_sender fd"

text \<open>The constructors of the operation states, run by \<open>connect\<close>. \<open>at\<close> holds the addresses of the members
  the kernel is told about.\<close>

record members =
  at_addr :: u64
  at_addrlen :: u64
  at_msg :: u64
  at_iov :: u64

definition put_object :: "u64 \<Rightarrow> user_object \<Rightarrow> shared \<Rightarrow> shared" where
  "put_object a v m = m\<lparr>user_mem := (user_mem m)(a \<mapsto> v)\<rparr>"

definition accept_make :: "members \<Rightarrow> int \<Rightarrow> shared \<Rightarrow> uring_op \<times> shared" where
  "accept_make at fd m =
     (Accept_op fd (at_addr at) (at_addrlen at),
      put_object (at_addrlen at) (Socklen (of_nat sockaddr_storage_size))
        (put_object (at_addr at) (Bytes (replicate sockaddr_storage_size 0)) m))"

definition message_object :: "members \<Rightarrow> u32 \<Rightarrow> user_object" where
  "message_object at namelen =
     Msghdr \<lparr>msg_iov = at_iov at, msg_iovlen = 1, msg_name = at_addr at, msg_namelen = namelen\<rparr>"

definition recvfrom_make :: "members \<Rightarrow> int \<Rightarrow> u64 \<Rightarrow> u64 \<Rightarrow> shared \<Rightarrow> uring_op \<times> shared" where
  "recvfrom_make at fd data len m =
     (Recvfrom_op fd (at_msg at) (at_addr at),
      put_object (at_msg at) (message_object at (of_nat sockaddr_storage_size))
        (put_object (at_iov at) (Iovec \<lparr>iov_base = data, iov_len = len\<rparr>)
          (put_object (at_addr at) (Bytes (replicate sockaddr_storage_size 0)) m)))"

definition sendto_make ::
    "members \<Rightarrow> int \<Rightarrow> u64 \<Rightarrow> u64 \<Rightarrow> byte list \<Rightarrow> u32 \<Rightarrow> shared \<Rightarrow> (uring_op \<times> shared) option" where
  "sendto_make at fd data len dest dest_len m = do {
     d \<leftarrow> copy_sockaddr dest dest_len;
     Some (Sendto_op fd (at_msg at),
       put_object (at_msg at) (message_object at dest_len)
         (put_object (at_iov at) (Iovec \<lparr>iov_base = data, iov_len = len\<rparr>)
           (put_object (at_addr at) (Bytes d) m)))
   }"

definition connect_make :: "members \<Rightarrow> int \<Rightarrow> byte list \<Rightarrow> u32 \<Rightarrow> shared \<Rightarrow> (uring_op \<times> shared) option" where
  "connect_make at fd addr addrlen m = do {
     a \<leftarrow> copy_sockaddr addr addrlen;
     Some (Connect_op fd (at_addr at) (ucast addrlen), put_object (at_addr at) (Bytes a) m)
   }"

definition nop_make :: uring_op where "nop_make = Nop_op"
definition recv_make :: "int \<Rightarrow> u64 \<Rightarrow> u64 \<Rightarrow> uring_op" where "recv_make fd data len = Recv_op fd data len"
definition send_make :: "int \<Rightarrow> u64 \<Rightarrow> u64 \<Rightarrow> uring_op" where "send_make fd data len = Send_op fd data len"
definition close_make :: "int \<Rightarrow> uring_op" where "close_make fd = Close_op fd"

text \<open>The \<open>connect\<close> of each sender; the two that hold an address pass all of its storage on.\<close>

definition schedule_sender_connect :: "members \<Rightarrow> shared \<Rightarrow> (uring_op \<times> shared) option" where
  "schedule_sender_connect at m = Some (nop_make, m)"

definition accept_sender_connect :: "members \<Rightarrow> int \<Rightarrow> shared \<Rightarrow> (uring_op \<times> shared) option" where
  "accept_sender_connect at fd m = Some (accept_make at fd m)"

definition recv_sender_connect :: "members \<Rightarrow> int \<Rightarrow> u64 \<Rightarrow> u64 \<Rightarrow> shared \<Rightarrow> (uring_op \<times> shared) option" where
  "recv_sender_connect at fd data len m = Some (recv_make fd data len, m)"

definition send_sender_connect :: "members \<Rightarrow> int \<Rightarrow> u64 \<Rightarrow> u64 \<Rightarrow> shared \<Rightarrow> (uring_op \<times> shared) option" where
  "send_sender_connect at fd data len m = Some (send_make fd data len, m)"

definition recvfrom_sender_connect :: "members \<Rightarrow> int \<Rightarrow> u64 \<Rightarrow> u64 \<Rightarrow> shared \<Rightarrow> (uring_op \<times> shared) option" where
  "recvfrom_sender_connect at fd data len m = Some (recvfrom_make at fd data len m)"

definition sendto_sender_connect :: "members \<Rightarrow> int \<Rightarrow> u64 \<Rightarrow> u64 \<Rightarrow> byte list \<Rightarrow> u32 \<Rightarrow> shared \<Rightarrow> (uring_op \<times> shared) option" where
  "sendto_sender_connect at fd data len dest dest_len m = sendto_make at fd data len dest dest_len m"

definition connect_sender_connect :: "members \<Rightarrow> int \<Rightarrow> byte list \<Rightarrow> u32 \<Rightarrow> shared \<Rightarrow> (uring_op \<times> shared) option" where
  "connect_sender_connect at fd addr addrlen m = connect_make at fd addr addrlen m"

definition close_sender_connect :: "members \<Rightarrow> int \<Rightarrow> shared \<Rightarrow> (uring_op \<times> shared) option" where
  "close_sender_connect at fd m = Some (close_make fd, m)"

definition sender_connect :: "members \<Rightarrow> io_sender \<Rightarrow> shared \<Rightarrow> (uring_op \<times> shared) option" where
  "sender_connect at s m =
     (case s of
        Schedule_sender \<Rightarrow> schedule_sender_connect at m
      | Accept_sender fd \<Rightarrow> accept_sender_connect at fd m
      | Recv_sender fd data len \<Rightarrow> recv_sender_connect at fd data len m
      | Send_sender fd data len \<Rightarrow> send_sender_connect at fd data len m
      | Recvfrom_sender fd data len \<Rightarrow> recvfrom_sender_connect at fd data len m
      | Sendto_sender fd data len dest dest_len \<Rightarrow> sendto_sender_connect at fd data len dest dest_len m
      | Connect_sender fd addr addrlen \<Rightarrow> connect_sender_connect at fd addr addrlen m
      | Close_sender fd \<Rightarrow> close_sender_connect at fd m)"

section \<open>Completing\<close>

definition op_failed :: "int \<Rightarrow> io_signal" where
  "op_failed res = Io_error (System_error (- res) '''')"

definition read_bytes :: "u64 \<Rightarrow> shared \<Rightarrow> byte list option" where
  "read_bytes a m = (case user_mem m a of Some (Bytes bs) \<Rightarrow> Some bs | _ \<Rightarrow> None)"

definition nop_complete :: "int \<Rightarrow> io_signal" where
  "nop_complete res = (if res < 0 then op_failed res else Io_value)"

definition connect_complete :: "int \<Rightarrow> io_signal" where
  "connect_complete res = (if res < 0 then op_failed res else Io_value)"

definition close_complete :: "int \<Rightarrow> io_signal" where
  "close_complete res = (if res < 0 then op_failed res else Io_value)"

definition recv_complete :: "int \<Rightarrow> io_signal" where
  "recv_complete res = (if res < 0 then op_failed res else Io_bytes (nat res))"

definition send_complete :: "int \<Rightarrow> io_signal" where
  "send_complete res = (if res < 0 then op_failed res else Io_bytes (nat res))"

definition sendto_complete :: "int \<Rightarrow> io_signal" where
  "sendto_complete res = (if res < 0 then op_failed res else Io_bytes (nat res))"

definition accept_complete :: "u64 \<Rightarrow> int \<Rightarrow> shared \<Rightarrow> io_signal option" where
  "accept_complete addr res m =
     (if res < 0 then Some (op_failed res) else map_option (Io_accepted res) (read_bytes addr m))"

definition recvfrom_complete :: "u64 \<Rightarrow> int \<Rightarrow> shared \<Rightarrow> io_signal option" where
  "recvfrom_complete addr res m =
     (if res < 0 then Some (op_failed res) else map_option (Io_datagram (nat res)) (read_bytes addr m))"

text \<open>\<open>callback_\<close>: null in a bare base, \<open>&complete\<close> in every operation state\<close>

definition op_callback :: "uring_op \<Rightarrow> (int \<Rightarrow> shared \<Rightarrow> io_signal option) option" where
  "op_callback op =
     (case op of
        Base_op \<Rightarrow> None
      | Nop_op \<Rightarrow> Some (\<lambda>res m. Some (nop_complete res))
      | Accept_op fd addr addrlen \<Rightarrow> Some (accept_complete addr)
      | Recv_op fd data len \<Rightarrow> Some (\<lambda>res m. Some (recv_complete res))
      | Send_op fd data len \<Rightarrow> Some (\<lambda>res m. Some (send_complete res))
      | Recvfrom_op fd msg addr \<Rightarrow> Some (recvfrom_complete addr)
      | Sendto_op fd msg \<Rightarrow> Some (\<lambda>res m. Some (sendto_complete res))
      | Connect_op fd addr addrlen \<Rightarrow> Some (\<lambda>res m. Some (connect_complete res))
      | Close_op fd \<Rightarrow> Some (\<lambda>res m. Some (close_complete res)))"

section \<open>The event loop\<close>

text \<open>The loop with what it drives: the kernel's own state, the living operation states and the state of
  the receivers.\<close>

record ('k, 'u) event_loop =
  loop_ctx :: uring_context
  loop_stop :: bool
  loop_kern :: 'k
  loop_ops :: "u64 \<Rightarrow> uring_op option"
  loop_user :: 'u

type_synonym ('k, 'u) world = "shared \<times> ('k, 'u) event_loop"
type_synonym ('k, 'u) receivers = "u64 \<Rightarrow> io_signal \<Rightarrow> ('k, 'u) world \<Rightarrow> ('k, 'u) world option"

definition loop_stop_request :: "('k, 'u) world \<Rightarrow> ('k, 'u) world" where
  "loop_stop_request w = (fst w, (snd w)\<lparr>loop_stop := True\<rparr>)"

text \<open>\<open>connect\<close> and \<open>start\<close> of an operation state living at address \<open>this\<close>\<close>

definition loop_connect :: "u64 \<Rightarrow> members \<Rightarrow> io_sender \<Rightarrow> ('k, 'u) world \<Rightarrow> ('k, 'u) world option" where
  "loop_connect this at s w = do {
     (op, m) \<leftarrow> sender_connect at s (fst w);
     Some (m, (snd w)\<lparr>loop_ops := (loop_ops (snd w))(this \<mapsto> op)\<rparr>)
   }"

definition loop_start :: "'k enter \<Rightarrow> ('k, 'u) receivers \<Rightarrow> u64 \<Rightarrow> ('k, 'u) world \<Rightarrow> ('k, 'u) world option" where
  "loop_start enter recv this w = do {
     op \<leftarrow> loop_ops (snd w) this;
     (c, (k, m), sig) \<leftarrow> op_start enter this op (loop_ctx (snd w)) (loop_kern (snd w), fst w);
     let w = (m, (snd w)\<lparr>loop_ctx := c, loop_kern := k\<rparr>);
     (case sig of None \<Rightarrow> Some w | Some s \<Rightarrow> recv this s w)
   }"

text \<open>The callback of \<open>run\<close> and \<open>run_once\<close> on a completion\<close>

definition dispatch_cqe :: "('k, 'u) receivers \<Rightarrow> cqe \<Rightarrow> ('k, 'u) world \<Rightarrow> ('k, 'u) world option" where
  "dispatch_cqe recv e w =
     (if cqe_user_data e = 0 then Some w
      else do {
        op \<leftarrow> loop_ops (snd w) (cqe_user_data e);
        case op_callback op of
          None \<Rightarrow> Some w
        | Some complete \<Rightarrow> do { s \<leftarrow> complete (cqe_res e) (fst w); recv (cqe_user_data e) s w }
      })"

definition run_once :: "'k enter \<Rightarrow> ('k, 'u) receivers \<Rightarrow> ('k, 'u) world \<Rightarrow> (u32 \<times> ('k, 'u) world) option" where
  "run_once enter recv w =
     (let ((k, m), _) = submit enter (loop_ctx (snd w)) (loop_kern (snd w), fst w)
      in for_each_cqe (loop_ctx (snd w)) (dispatch_cqe recv) (m, (snd w)\<lparr>loop_kern := k\<rparr>))"

text \<open>The loop of \<open>run\<close>; \<open>Inl\<close> is the exception it throws. \<^term>\<open>None\<close> is a loop that does not end or
  undefined behaviour.\<close>

partial_function (option) run_loop ::
    "'k enter \<Rightarrow> ('k, 'u) receivers \<Rightarrow> ('k, 'u) world \<Rightarrow> ((system_error + unit) \<times> ('k, 'u) world) option" where
  "run_loop enter recv w =
     (if loop_stop (snd w) then Some (Inr (), w)
      else (let ((k, m), ret) = submit_and_wait enter (loop_ctx (snd w)) 1 (loop_kern (snd w), fst w);
                w = (m, (snd w)\<lparr>loop_kern := k\<rparr>)
            in if ret < 0
               then if - ret = EINTR then run_loop enter recv w
                    else Some (Inl (System_error (- ret) ''io_uring_enter''), w)
               else do {
                 (count, w) \<leftarrow> for_each_cqe (loop_ctx (snd w)) (dispatch_cqe recv) w;
                 run_loop enter recv w
               }))"

definition run_events ::
    "'k enter \<Rightarrow> ('k, 'u) receivers \<Rightarrow> ('k, 'u) world \<Rightarrow> ((system_error + unit) \<times> ('k, 'u) world) option" where
  "run_events enter recv w = run_loop enter recv (fst w, (snd w)\<lparr>loop_stop := False\<rparr>)"

end
