(* ===== verification/Io_Uring_Correct.thy ===== *)
theory Io_Uring_Correct
  imports Io_Loop
begin

text \<open>
  The submission ring is a bounded queue and the completion ring is read in order: the cursors wrap at
  32 bits, the slots at the size of the ring.
\<close>

section \<open>Cursors and slots\<close>

lemma slot_mod: "unat (x AND mask k) = unat x mod 2 ^ k" for x :: u32
  by (simp only: unsigned_take_bit_eq flip: take_bit_eq_mask) (simp add: take_bit_eq_mod)

lemma slot_less: "unat (x AND mask k) < 2 ^ k" for x :: u32
  by (simp add: slot_mod)

lemma word32: "LENGTH(32) = 32"
  by simp

lemma slot_add:
  fixes x :: u32
  assumes "k \<le> 32"
  shows "unat ((x + of_nat i) AND mask k) = (unat x + i) mod 2 ^ k"
proof -
  have "(2 :: nat) ^ k dvd 2 ^ 32" using assms by (rule le_imp_power_dvd)
  then have "unat (x + of_nat i) mod 2 ^ k = (unat x + unat (of_nat i :: u32)) mod 2 ^ k"
    by (simp only: unat_word_ariths(1) mod_mod_cancel word32)
  also have "\<dots> = (unat x + i) mod 2 ^ k"
    using \<open>2 ^ k dvd 2 ^ 32\<close>
    by (metis (no_types, opaque_lifting) word32 mod_add_right_eq mod_mod_cancel unat_of_nat)
  finally show ?thesis by (simp only: slot_mod)
qed

lemma slot_eq:
  fixes x :: u32
  assumes "k \<le> 32" "i < 2 ^ k" "j < 2 ^ k"
    and "unat ((x + of_nat i) AND mask k) = unat ((x + of_nat j) AND mask k)"
  shows "i = j"
proof -
  have "(unat x + i) mod 2 ^ k = (unat x + j) mod 2 ^ k"
    using assms(4) by (simp only: slot_add [OF assms(1)])
  then have "i mod 2 ^ k = j mod 2 ^ k"
    by (auto simp: nat_mod_eq_iff)
  with assms(2,3) show ?thesis by simp
qed

text \<open>The distance between two cursors and its change by one step.\<close>

lemma cursor_step:
  fixes a b :: u32
  assumes "unat (a - b) < 2 ^ k" "k < 32"
  shows "unat (a + 1 - b) = unat (a - b) + 1"
proof -
  have "unat (a - b) + 1 < 2 ^ 32"
    using assms power_strict_increasing [of k 32 "2::nat"] by linarith
  moreover have "a + 1 - b = (a - b) + 1" by simp
  ultimately show ?thesis by (simp only: unat_word_ariths(1)) simp
qed

section \<open>The submission queue\<close>

definition sq_entry :: "uring_context \<Rightarrow> shared \<Rightarrow> u32 \<Rightarrow> sqe" where
  "sq_entry c m t = sqes m ! unat (sq_array m ! unat (t AND uc_sq_mask c))"

definition queued :: "uring_context \<Rightarrow> shared \<Rightarrow> nat \<Rightarrow> sqe list" where
  "queued c m n = map (\<lambda>i. sq_entry c m (sq_head m + of_nat i)) [0..<n]"

text \<open>The entries handed out and not yet consumed, and those of them the kernel has been told about.\<close>

definition sq_pending :: "uring_context \<Rightarrow> shared \<Rightarrow> sqe list" where
  "sq_pending c m = queued c m (unat (uc_sq_tail_local c - sq_head m))"

definition published :: "uring_context \<Rightarrow> shared \<Rightarrow> sqe list" where
  "published c m = queued c m (unat (sq_tail m - sq_head m))"

definition sq_shape :: "uring_context \<Rightarrow> shared \<Rightarrow> nat \<Rightarrow> bool" where
  "sq_shape c m k \<longleftrightarrow> k < 32 \<and> uc_sq_entries c = 2 ^ k \<and> uc_sq_mask c = mask k \<and> m_sqes (uc_ring c) \<noteq> 0 \<and>
     length (sqes m) = 2 ^ k \<and> length (sq_array m) = 2 ^ k"

definition sq_ok :: "uring_context \<Rightarrow> shared \<Rightarrow> bool" where
  "sq_ok c m \<longleftrightarrow> (\<exists>k. sq_shape c m k) \<and>
     unat (uc_sq_tail_local c - sq_head m) \<le> unat (uc_sq_entries c) \<and>
     unat (sq_tail m - sq_head m) \<le> unat (uc_sq_tail_local c - sq_head m) \<and>
     (\<forall>i < unat (uc_sq_tail_local c - sq_head m).
        sq_array m ! unat ((sq_head m + of_nat i) AND uc_sq_mask c) = (sq_head m + of_nat i) AND uc_sq_mask c)"

lemma entries_unat: "k < 32 \<Longrightarrow> unat (2 ^ k :: u32) = 2 ^ k"
  using unat_of_nat_small [of "2 ^ k", where 'a = 32] power_strict_increasing [of k 32 "2::nat"] by simp

lemma length_pending: "length (sq_pending c m) = unat (uc_sq_tail_local c - sq_head m)"
  by (simp add: sq_pending_def queued_def)


lemma nth_queued: "i < n \<Longrightarrow> queued c m n ! i = sq_entry c m (sq_head m + of_nat i)"
  by (simp add: queued_def)

lemma take_queued: "j \<le> n \<Longrightarrow> take j (queued c m n) = queued c m j"
  by (simp add: queued_def take_map)

lemma published_pending: "sq_ok c m \<Longrightarrow> published c m = take (unat (sq_tail m - sq_head m)) (sq_pending c m)"
  by (simp add: published_def sq_pending_def sq_ok_def take_queued)

lemma pending_le: "sq_ok c m \<Longrightarrow> length (sq_pending c m) \<le> unat (uc_sq_entries c)"
  by (simp add: length_pending sq_ok_def)

text \<open>A full queue refuses.\<close>

lemma get_sqe_full:
  "length (sq_pending c m) = unat (uc_sq_entries c) \<Longrightarrow> get_sqe c m = Some (c, m, None)"
  by (simp add: get_sqe_def length_pending word_le_nat_alt)

text \<open>Otherwise the entry is zeroed, and what the caller makes of it is the last of the queue.\<close>

definition take_slot :: "uring_context \<Rightarrow> shared \<Rightarrow> sqe \<Rightarrow> shared" where
  "take_slot c m e =
     (let idx = uc_sq_tail_local c AND uc_sq_mask c
      in m\<lparr>sqes := (sqes m)[unat idx := e], sq_array := (sq_array m)[unat idx := idx]\<rparr>)"

lemma get_sqe_room:
  assumes "sq_ok c m" "length (sq_pending c m) < unat (uc_sq_entries c)"
  shows "get_sqe c m = Some (c\<lparr>uc_sq_tail_local := uc_sq_tail_local c + 1\<rparr>, take_slot c m sqe_zero,
           Some (unat (uc_sq_tail_local c AND uc_sq_mask c)))"
proof -
  obtain k where "sq_shape c m k" using assms(1) by (auto simp: sq_ok_def)
  then show ?thesis
    using assms(2) slot_less [of "uc_sq_tail_local c" k]
    by (simp add: get_sqe_def length_pending word_le_nat_alt sq_shape_def Let_def take_slot_def)
qed

lemma set_take_slot:
  assumes "sq_ok c m"
  shows "set_sqe (unat (uc_sq_tail_local c AND uc_sq_mask c)) f (take_slot c m sqe_zero) = take_slot c m (f sqe_zero)"
proof -
  obtain k where "sq_shape c m k" using assms(1) by (auto simp: sq_ok_def)
  then show ?thesis
    using slot_less [of "uc_sq_tail_local c" k]
    by (simp add: set_sqe_def take_slot_def Let_def sq_shape_def)
qed

lemma take_slot_queue:
  assumes ok: "sq_ok c m" and room: "length (sq_pending c m) < unat (uc_sq_entries c)"
  defines "c' \<equiv> c\<lparr>uc_sq_tail_local := uc_sq_tail_local c + 1\<rparr>"
  shows "sq_pending c' (take_slot c m e) = sq_pending c m @ [e]" "sq_ok c' (take_slot c m e)"
proof -
  obtain k where k: "sq_shape c m k" using ok by (auto simp: sq_ok_def)
  let ?n = "unat (uc_sq_tail_local c - sq_head m)" and ?h = "sq_head m" and ?m = "take_slot c m e"
  have n: "?n < 2 ^ k" "k < 32" "k \<le> 32" "uc_sq_mask c = mask k"
    using room k by (simp_all add: length_pending sq_shape_def entries_unat)
  have step: "unat (uc_sq_tail_local c + 1 - ?h) = ?n + 1" by (rule cursor_step [OF n(1,2)])
  have tail: "uc_sq_tail_local c = ?h + of_nat ?n" by simp
  have new: "(?h + of_nat ?n) AND mask k = uc_sq_tail_local c AND mask k" by simp
  have slot: "unat ((?h + of_nat i) AND mask k) \<noteq> unat (uc_sq_tail_local c AND mask k)" if "i < ?n" for i
    using slot_eq [OF n(3), of i ?n ?h] that n(1) by (simp only: new) auto
  have array: "sq_array ?m ! unat ((?h + of_nat i) AND mask k) = (?h + of_nat i) AND mask k" if "i < ?n + 1" for i
  proof (cases "i = ?n")
    case True
    then show ?thesis
      using k slot_less [of "uc_sq_tail_local c" k] by (simp add: take_slot_def Let_def sq_shape_def)
  next
    case False
    then show ?thesis
      using that slot [of i] ok n(4) by (auto simp: take_slot_def Let_def sq_ok_def)
  qed
  have entry: "sq_entry c' ?m (?h + of_nat i) = (sq_pending c m @ [e]) ! i" if "i < ?n + 1" for i
  proof (cases "i = ?n")
    case True
    then show ?thesis
      using array [of i] k slot_less [of "uc_sq_tail_local c" k] n(4)
      by (simp add: sq_entry_def c'_def nth_append length_pending take_slot_def Let_def sq_shape_def)
  next
    case False
    then have "sq_entry c' ?m (?h + of_nat i) = sqes m ! unat ((?h + of_nat i) AND mask k)"
      using array [of i] that slot [of i] n(4) by (simp add: sq_entry_def c'_def) (simp add: take_slot_def Let_def)
    also have "\<dots> = sq_entry c m (?h + of_nat i)"
      using ok False that n(4) by (simp add: sq_entry_def sq_ok_def)
    finally show ?thesis
      using False that by (simp add: nth_append length_pending sq_pending_def queued_def)
  qed
  have len: "unat (uc_sq_tail_local c' - sq_head ?m) = ?n + 1" "sq_head ?m = ?h"
    using step by (simp_all add: c'_def take_slot_def Let_def)
  show "sq_pending c' ?m = sq_pending c m @ [e]"
    unfolding sq_pending_def [of c'] len(1)
  proof (rule nth_equalityI)
    show "length (queued c' ?m (?n + 1)) = length (sq_pending c m @ [e])"
      by (simp add: queued_def length_pending)
    fix i assume "i < length (queued c' ?m (?n + 1))"
    then have "i < ?n + 1" by (simp add: queued_def)
    then show "queued c' ?m (?n + 1) ! i = (sq_pending c m @ [e]) ! i"
      using entry by (simp only: nth_queued len)
  qed
  show "sq_ok c' ?m"
    unfolding sq_ok_def
  proof (intro conjI allI impI)
    show "\<exists>k. sq_shape c' ?m k" using k by (auto simp: sq_shape_def c'_def take_slot_def Let_def)
    show "unat (uc_sq_tail_local c' - sq_head ?m) \<le> unat (uc_sq_entries c')"
      using room unfolding len(1) by (simp add: c'_def length_pending)
    show "unat (sq_tail ?m - sq_head ?m) \<le> unat (uc_sq_tail_local c' - sq_head ?m)"
      using ok unfolding len(1) by (simp add: sq_ok_def take_slot_def Let_def)
    show "sq_array ?m ! unat ((sq_head ?m + of_nat i) AND uc_sq_mask c') = (sq_head ?m + of_nat i) AND uc_sq_mask c'"
      if "i < unat (uc_sq_tail_local c' - sq_head ?m)" for i
      using array [of i] that [unfolded len(1)] n(4) unfolding len(2) by (simp add: c'_def)
  qed
qed


section \<open>The kernel\<close>

text \<open>
  What the documentation of \<open>io_uring_enter\<close> promises: it consumes at most \<open>to_submit\<close> of the published
  entries, from the head and in order, moves the head past them and returns their number, or it returns
  -1 with an error code. \<open>taken\<close> are the entries it has consumed so far.
\<close>

definition consumes :: "uring_context \<Rightarrow> nat \<Rightarrow> shared \<Rightarrow> shared \<Rightarrow> nat \<Rightarrow> bool" where
  "consumes c n m m' j \<longleftrightarrow> j \<le> n \<and> j \<le> unat (sq_tail m - sq_head m) \<and> sq_head m' = sq_head m + of_nat j \<and>
     sq_tail m' = sq_tail m \<and> sqes m' = sqes m \<and> sq_array m' = sq_array m"

definition kernel_ok :: "'k enter \<Rightarrow> ('k \<Rightarrow> sqe list) \<Rightarrow> bool" where
  "kernel_ok enter taken \<longleftrightarrow> (\<forall>c k m n mc fl. sq_ok c m \<longrightarrow>
     (case enter (uc_fd c) n mc fl (k, m) of ((k', m'), ret, errno) \<Rightarrow>
        \<exists>j. consumes c (unat n) m m' j \<and> taken k' = taken k @ take j (published c m) \<and>
            (ret = int j \<or> ret = - 1 \<and> 0 < errno)))"

lemma cursor_drop:
  fixes a b :: u32
  assumes "j \<le> unat (a - b)"
  shows "unat (a - (b + of_nat j)) = unat (a - b) - j"
proof -
  have j: "unat (of_nat j :: u32) = j"
    using assms by (intro unat_of_nat_small) (metis le_less_trans unsigned_less word32)
  then have "of_nat j \<le> a - b" using assms by (simp add: word_le_nat_alt)
  then have "unat ((a - b) - of_nat j) = unat (a - b) - j" using j by (simp add: unat_sub)
  then show ?thesis by (simp add: diff_diff_eq)
qed

lemma queued_drop:
  assumes "sqes m' = sqes m" "sq_array m' = sq_array m" "sq_head m' = sq_head m + of_nat j" "j \<le> n"
  shows "queued c m' (n - j) = drop j (queued c m n)"
  using assms by (intro nth_equalityI) (simp_all add: queued_def sq_entry_def add.assoc flip: of_nat_add)

lemma consumes_queue:
  assumes "sq_ok c m" "consumes c n m m' j"
  shows "sq_pending c m' = drop j (sq_pending c m)" "sq_ok c m'" "take j (published c m) = take j (sq_pending c m)"
proof -
  from assms have j: "j \<le> unat (sq_tail m - sq_head m)" "j \<le> unat (uc_sq_tail_local c - sq_head m)"
    by (auto simp: sq_ok_def consumes_def)
  have d: "unat (uc_sq_tail_local c - sq_head m') = unat (uc_sq_tail_local c - sq_head m) - j"
    "unat (sq_tail m - sq_head m') = unat (sq_tail m - sq_head m) - j"
    using assms(2) cursor_drop [OF j(1)] cursor_drop [OF j(2)] by (simp_all add: consumes_def)
  show "sq_pending c m' = drop j (sq_pending c m)"
    unfolding sq_pending_def d(1) using assms(2) j(2) by (intro queued_drop) (auto simp: consumes_def)
  show "take j (published c m) = take j (sq_pending c m)"
    using assms(1) j(1) by (simp add: published_pending)
  have "sq_array m' ! unat ((sq_head m' + of_nat i) AND uc_sq_mask c) = (sq_head m' + of_nat i) AND uc_sq_mask c"
    if "i < unat (uc_sq_tail_local c - sq_head m')" for i
  proof -
    have "j + i < unat (uc_sq_tail_local c - sq_head m)" using that j(2) by (simp add: d)
    moreover have "sq_head m' + of_nat i = sq_head m + of_nat (j + i)" "sq_array m' = sq_array m"
      using assms(2) by (simp_all add: consumes_def add.assoc)
    ultimately show ?thesis using assms(1) by (simp only: sq_ok_def)
  qed
  moreover have "\<exists>k. sq_shape c m' k"
    using assms by (auto simp: sq_ok_def consumes_def sq_shape_def)
  moreover have "unat (uc_sq_tail_local c - sq_head m) \<le> unat (uc_sq_entries c)"
    "unat (sq_tail m - sq_head m) \<le> unat (uc_sq_tail_local c - sq_head m)" "sq_tail m' = sq_tail m"
    using assms by (simp_all add: sq_ok_def consumes_def)
  ultimately show "sq_ok c m'"
    unfolding sq_ok_def by (simp only: d) (auto intro: diff_le_mono order_trans [OF diff_le_self])
qed

lemma publish_queue:
  assumes "sq_ok c m"
  defines "m' \<equiv> m\<lparr>sq_tail := uc_sq_tail_local c\<rparr>"
  shows "sq_ok c m'" "sq_pending c m' = sq_pending c m" "published c m' = sq_pending c m"
proof -
  have entry: "queued c m' n = queued c m n" for n by (simp add: queued_def sq_entry_def m'_def)
  show "sq_pending c m' = sq_pending c m" "published c m' = sq_pending c m"
    by (simp_all add: sq_pending_def published_def entry) (simp_all add: m'_def)
  show "sq_ok c m'" using assms(1) by (auto simp: sq_ok_def m'_def sq_shape_def)
qed


lemma enter_queue:
  assumes "kernel_ok enter taken" "sq_ok c m" "enter (uc_fd c) n mc fl (k, m) = ((k', m'), r)"
  shows "sq_ok c m'" "taken k' @ sq_pending c m' = taken k @ sq_pending c m" "\<exists>es. taken k' = taken k @ es"
proof -
  obtain ret errno where r: "r = (ret, errno)" by (cases r)
  obtain j where j: "consumes c (unat n) m m' j" "taken k' = taken k @ take j (published c m)"
    using assms(1) [unfolded kernel_ok_def, THEN spec, of c, THEN spec, of k, THEN spec, of m,
        THEN spec, of n, THEN spec, of mc, THEN spec, of fl, THEN mp, OF assms(2)] by (auto simp: assms(3) r)
  show "sq_ok c m'" by (rule consumes_queue(2) [OF assms(2) j(1)])
  show "\<exists>es. taken k' = taken k @ es" using j(2) by blast
  show "taken k' @ sq_pending c m' = taken k @ sq_pending c m"
    using consumes_queue(1,3) [OF assms(2) j(1)] j(2) by simp
qed

lemma submit_queue:
  assumes "kernel_ok enter taken" "sq_ok c m" "submit enter c (k, m) = ((k', m'), r)"
  shows "sq_ok c m' \<and> taken k' @ sq_pending c m' = taken k @ sq_pending c m \<and> (\<exists>es. taken k' = taken k @ es)"
proof (cases "uc_sq_tail_local c = sq_tail m")
  case False
  then obtain s where "enter (uc_fd c) (uc_sq_tail_local c - sq_tail m) 0 0 (k, m\<lparr>sq_tail := uc_sq_tail_local c\<rparr>) = ((k', m'), s)"
    using assms(3) by (auto simp: submit_def Let_def split: prod.splits)
  with enter_queue [OF assms(1) publish_queue(1) [OF assms(2)]] publish_queue(2) [OF assms(2)] show ?thesis
    by metis
qed (use assms in \<open>simp add: submit_def\<close>)

lemma submit_and_wait_queue:
  assumes "kernel_ok enter taken" "sq_ok c m" "submit_and_wait enter c mc (k, m) = ((k', m'), r)"
  shows "sq_ok c m' \<and> taken k' @ sq_pending c m' = taken k @ sq_pending c m \<and> (\<exists>es. taken k' = taken k @ es)"
proof -
  obtain s where "enter (uc_fd c) (uc_sq_tail_local c - sq_tail m) mc IORING_ENTER_GETEVENTS
      (k, m\<lparr>sq_tail := uc_sq_tail_local c\<rparr>) = ((k', m'), s)"
    using assms(3) by (auto simp: submit_and_wait_def Let_def split: prod.splits)
  with enter_queue [OF assms(1) publish_queue(1) [OF assms(2)]] publish_queue(2) [OF assms(2)] show ?thesis
    by metis
qed

section \<open>A bounded queue with a consumer\<close>

text \<open>
  What an operation state relies on when it starts: \<open>put\<close> appends what the caller writes into the entry
  (\<open>content\<close>) to the queue unless it is full,
  \<open>flush\<close> lets the consumer take entries from its front, and nothing is lost or reordered. The clients'
  pattern is to put, and when the queue is full to flush and put once more.
\<close>

locale bounded_queue =
  fixes inv :: "'s \<Rightarrow> bool"
    and queue :: "'s \<Rightarrow> 'e list"
    and taken :: "'s \<Rightarrow> 'e list"
    and const :: "'s \<Rightarrow> 'c"
    and cap :: "'c \<Rightarrow> nat"
    and content :: "'f \<Rightarrow> 'e"
    and put :: "'f \<Rightarrow> 's \<Rightarrow> ('s \<times> bool) option"
    and flush :: "'s \<Rightarrow> 's"
  assumes room: "inv s \<Longrightarrow> length (queue s) < cap (const s) \<Longrightarrow>
      \<exists>s'. put e s = Some (s', True) \<and> inv s' \<and> queue s' = queue s @ [content e] \<and> taken s' = taken s \<and> const s' = const s"
    and full: "inv s \<Longrightarrow> \<not> length (queue s) < cap (const s) \<Longrightarrow> put e s = Some (s, False)"
    and flushed: "inv s \<Longrightarrow> inv (flush s) \<and> taken (flush s) @ queue (flush s) = taken s @ queue s \<and>
      (\<exists>es. taken (flush s) = taken s @ es) \<and> const (flush s) = const s"
    and bounded: "inv s \<Longrightarrow> length (queue s) \<le> cap (const s)"
begin

lemma put_retry:
  assumes "inv s"
  shows "\<exists>s' ok. (do { (s', ok) \<leftarrow> put e s; if ok then Some (s', True) else put e (flush s') }) = Some (s', ok) \<and>
    inv s' \<and> const s' = const s \<and> taken s' @ queue s' = taken s @ queue s @ (if ok then [content e] else []) \<and>
    (\<not> ok \<longrightarrow> taken s' = taken s \<and> queue s' = queue s \<and> length (queue s) = cap (const s))"
proof (cases "length (queue s) < cap (const s)")
  case True
  from room [OF assms this, of e] obtain s' where s': "put e s = Some (s', True)" "inv s'"
    "queue s' = queue s @ [content e]" "taken s' = taken s" "const s' = const s" by auto
  show ?thesis using s'(2-5) by (intro exI [of _ s'] exI [of _ True]) (simp add: s'(1))
next
  case False
  note f = flushed [OF assms] and p = full [OF assms False, of e]
  show ?thesis
  proof (cases "length (queue (flush s)) < cap (const (flush s))")
    case True
    from room [OF _ this, of e] f obtain s' where s': "put e (flush s) = Some (s', True)" "inv s'"
      "queue s' = queue (flush s) @ [content e]" "taken s' = taken (flush s)" "const s' = const s" by auto
    moreover have "taken s @ queue s @ [content e] = taken (flush s) @ queue (flush s) @ [content e]" using f by simp
    ultimately show ?thesis by (intro exI [of _ s'] exI [of _ True]) (simp add: p)
  next
    case still: False
    then have "put e (flush s) = Some (flush s, False)" using f by (intro full) auto
    moreover have len: "length (queue (flush s)) = cap (const s)" "length (queue s) = cap (const s)"
      using still False f bounded [of "flush s"] bounded [OF assms] by simp_all
    moreover obtain es where es: "taken (flush s) = taken s @ es" using f by blast
    moreover from es f have q: "queue s = es @ queue (flush s)" by simp
    with len have "es = []" by (metis add_cancel_left_left length_0_conv length_append)
    ultimately show ?thesis using f q by (intro exI [of _ "flush s"] exI [of _ False]) (simp add: p)
  qed
qed

end


text \<open>The ring is such a queue, the kernel its consumer.\<close>

type_synonym 'k ring = "'k enter \<times> ('k \<Rightarrow> sqe list) \<times> uring_context \<times> 'k \<times> shared"

definition ring_inv :: "'k ring \<Rightarrow> bool" where
  "ring_inv r = (case r of (enter, taken, c, k, m) \<Rightarrow> kernel_ok enter taken \<and> sq_ok c m)"

definition ring_pending :: "'k ring \<Rightarrow> sqe list" where
  "ring_pending r = (case r of (enter, taken, c, k, m) \<Rightarrow> sq_pending c m)"

definition ring_taken :: "'k ring \<Rightarrow> sqe list" where
  "ring_taken r = (case r of (enter, taken, c, k, m) \<Rightarrow> taken k)"

definition ring_const :: "'k ring \<Rightarrow> 'k enter \<times> ('k \<Rightarrow> sqe list) \<times> u32" where
  "ring_const r = (case r of (enter, taken, c, k, m) \<Rightarrow> (enter, taken, uc_sq_entries c))"

definition ring_capacity :: "'k enter \<times> ('k \<Rightarrow> sqe list) \<times> u32 \<Rightarrow> nat" where
  "ring_capacity r = (case r of (enter, taken, n) \<Rightarrow> unat n)"

definition ring_put :: "(sqe \<Rightarrow> sqe) \<Rightarrow> 'k ring \<Rightarrow> ('k ring \<times> bool) option" where
  "ring_put fill r = (case r of (enter, taken, c, k, m) \<Rightarrow> do {
     (c, m, sqe) \<leftarrow> get_sqe c m;
     Some (case sqe of
         None \<Rightarrow> ((enter, taken, c, k, m), False)
       | Some i \<Rightarrow> ((enter, taken, c, k, set_sqe i fill m), True))
   })"

definition ring_flush :: "'k ring \<Rightarrow> 'k ring" where
  "ring_flush r = (case r of (enter, taken, c, k, m) \<Rightarrow>
     let ((k, m), _) = submit enter c (k, m) in (enter, taken, c, k, m))"

lemmas ring_defs = ring_inv_def ring_pending_def ring_taken_def ring_const_def ring_capacity_def

interpretation sq: bounded_queue ring_inv ring_pending ring_taken ring_const ring_capacity "\<lambda>fill. fill sqe_zero" ring_put ring_flush
proof unfold_locales
  fix s :: "'k ring" and e
  obtain enter taken c k m where s: "s = (enter, taken, c, k, m)" by (cases s)
  { assume "ring_inv s"
    then have ok: "kernel_ok enter taken" "sq_ok c m" by (simp_all add: ring_inv_def s)
    show "length (ring_pending s) \<le> ring_capacity (ring_const s)" using pending_le [OF ok(2)] by (simp add: ring_defs s)
    { assume room: "length (ring_pending s) < ring_capacity (ring_const s)"
      then have r: "length (sq_pending c m) < unat (uc_sq_entries c)" by (simp add: ring_defs s)
      show "\<exists>s'. ring_put e s = Some (s', True) \<and> ring_inv s' \<and> ring_pending s' = ring_pending s @ [e sqe_zero] \<and>
          ring_taken s' = ring_taken s \<and> ring_const s' = ring_const s"
        using ok(1) take_slot_queue [OF ok(2) r, of "e sqe_zero"]
        by (simp add: ring_put_def get_sqe_room [OF ok(2) r] set_take_slot [OF ok(2)] s ring_defs)
    }
    { assume "\<not> length (ring_pending s) < ring_capacity (ring_const s)"
      then have "length (sq_pending c m) = unat (uc_sq_entries c)"
        using pending_le [OF ok(2)] by (simp add: ring_defs s)
      then show "ring_put e s = Some (s, False)" by (simp add: ring_put_def get_sqe_full s) }
    obtain k' m' r where sub: "submit enter c (k, m) = ((k', m'), r)" by (metis surj_pair)
    from submit_queue [OF ok sub] ok(1)
    show "ring_inv (ring_flush s) \<and> ring_taken (ring_flush s) @ ring_pending (ring_flush s) =
        ring_taken s @ ring_pending s \<and> (\<exists>es. ring_taken (ring_flush s) = ring_taken s @ es) \<and> ring_const (ring_flush s) = ring_const s"
      by (simp add: ring_flush_def s sub ring_defs)
  }
qed

lemma start_op_retry:
  "start_op enter what fill c (k, m) =
     map_option (\<lambda>((_, _, c, k, m), ok). (c, (k, m), if ok then None else Some (Io_error (System_error EBUSY what))))
       (do { (s, ok) \<leftarrow> ring_put fill (enter, taken, c, k, m);
             if ok then Some (s, True) else ring_put fill (ring_flush s) })"
  by (auto simp: start_op_def acquire_sqe_def ring_put_def ring_flush_def Let_def
      split: prod.splits option.splits bind_splits)

lemma start_op_queue:
  assumes "kernel_ok enter taken" "sq_ok c m"
  shows "\<exists>c' k' m' ok. start_op enter what fill c (k, m) =
      Some (c', (k', m'), if ok then None else Some (Io_error (System_error EBUSY what))) \<and>
    sq_ok c' m' \<and> uc_sq_entries c' = uc_sq_entries c \<and>
    taken k' @ sq_pending c' m' = taken k @ sq_pending c m @ (if ok then [fill sqe_zero] else []) \<and>
    (\<not> ok \<longrightarrow> taken k' = taken k \<and> sq_pending c' m' = sq_pending c m \<and> length (sq_pending c m) = unat (uc_sq_entries c))"
proof -
  have "ring_inv (enter, taken, c, k, m)" using assms by (simp add: ring_defs)
  from sq.put_retry [OF this, of fill] obtain s' ok where s':
    "(do { (s, ok) \<leftarrow> ring_put fill (enter, taken, c, k, m);
           if ok then Some (s, True) else ring_put fill (ring_flush s) }) = Some (s', ok)"
    "ring_inv s'" "ring_const s' = ring_const (enter, taken, c, k, m)"
    "ring_taken s' @ ring_pending s' = taken k @ sq_pending c m @ (if ok then [fill sqe_zero] else [])"
    "\<not> ok \<Longrightarrow> ring_taken s' = taken k \<and> ring_pending s' = sq_pending c m \<and> length (sq_pending c m) = unat (uc_sq_entries c)"
    by (auto simp: ring_defs)
  obtain c' k' m' where "s' = (enter, taken, c', k', m')" "uc_sq_entries c' = uc_sq_entries c"
    using s'(3) by (cases s') (auto simp: ring_const_def)
  with s' show ?thesis
    by (intro exI [of _ c'] exI [of _ k'] exI [of _ m'] exI [of _ ok])
      (simp add: start_op_retry [of enter what fill c k m taken] ring_defs)
qed

end
