(* ===== verification/Io_Loop_Correct.thy ===== *)
theory Io_Loop_Correct
  imports Io_Uring_Correct
begin

text \<open>
  What the program gets from the ring: the kernel consumes the entries of the started operations in
  order and none twice, a start that finds the ring full reports it, and a batch of the event loop hands
  every completion to the operation it belongs to, in order and once.
\<close>

section \<open>Starting operations\<close>

text \<open>All starts write an entry of their own, in the same way.\<close>

definition op_fill :: "u64 \<Rightarrow> uring_op \<Rightarrow> (sqe \<Rightarrow> sqe) option" where
  "op_fill this op =
     (case op of
        Base_op \<Rightarrow> None
      | Nop_op \<Rightarrow> Some (nop_fill this)
      | Accept_op fd addr addrlen \<Rightarrow> Some (accept_fill this fd addr addrlen)
      | Recv_op fd data len \<Rightarrow> Some (recv_fill this fd data len)
      | Send_op fd data len \<Rightarrow> Some (send_fill this fd data len)
      | Recvfrom_op fd msg addr \<Rightarrow> Some (recvfrom_fill this fd msg)
      | Sendto_op fd msg \<Rightarrow> Some (sendto_fill this fd msg)
      | Connect_op fd addr addrlen \<Rightarrow> Some (connect_fill this fd addr addrlen)
      | Close_op fd \<Rightarrow> Some (close_fill this fd))"

definition busy_text :: "uring_op \<Rightarrow> string" where
  "busy_text op = (if op = Nop_op then ''io_uring SQ full'' else '''')"

lemma op_start_fill: "op_start enter this op c km = do { fill \<leftarrow> op_fill this op; start_op enter (busy_text op) fill c km }"
  by (cases op) (simp_all add: op_start_def op_fill_def busy_text_def nop_start_def accept_start_def recv_start_def
      send_start_def recvfrom_start_def sendto_start_def connect_start_def close_start_def)

text \<open>The entry an operation is started with.\<close>

definition op_entry :: "u64 \<Rightarrow> uring_op \<Rightarrow> sqe" where
  "op_entry this op = (case op_fill this op of Some fill \<Rightarrow> fill sqe_zero | None \<Rightarrow> sqe_zero)"

lemma op_fill_Some: "op \<noteq> Base_op \<Longrightarrow> \<exists>fill. op_fill this op = Some fill"
  by (cases op) (simp_all add: op_fill_def)

lemma op_entry_user_data: "op \<noteq> Base_op \<Longrightarrow> sqe_user_data (op_entry this op) = this"
  by (cases op) (simp_all add: op_entry_def op_fill_def nop_fill_def accept_fill_def recv_fill_def send_fill_def
      recvfrom_fill_def sendto_fill_def connect_fill_def close_fill_def)

lemma op_start_queue:
  assumes "kernel_ok enter taken" "sq_ok c m" "op \<noteq> Base_op"
  shows "\<exists>c' k' m' ok. op_start enter this op c (k, m) =
      Some (c', (k', m'), if ok then None else Some (Io_error (System_error EBUSY (busy_text op)))) \<and>
    sq_ok c' m' \<and> uc_sq_entries c' = uc_sq_entries c \<and>
    taken k' @ sq_pending c' m' = taken k @ sq_pending c m @ (if ok then [op_entry this op] else []) \<and>
    (\<not> ok \<longrightarrow> taken k' = taken k \<and> sq_pending c' m' = sq_pending c m \<and> length (sq_pending c m) = unat (uc_sq_entries c))"
proof -
  obtain fill where f: "op_fill this op = Some fill" using op_fill_Some [OF assms(3)] by blast
  then have e: "op_entry this op = fill sqe_zero" by (simp add: op_entry_def)
  show ?thesis using start_op_queue [OF assms(1,2), of "busy_text op" fill k] unfolding op_start_fill f e by simp
qed

text \<open>A history of starts and submissions: the state and the entries that were queued, in order.\<close>

datatype io_action = Start_action u64 uring_op | Submit_action | Wait_action u32

fun io_do :: "'k enter \<Rightarrow> io_action \<Rightarrow> uring_context \<times> 'k \<times> shared \<Rightarrow>
    ((uring_context \<times> 'k \<times> shared) \<times> sqe list) option" where
  "io_do enter (Start_action this op) (c, km) = do {
     (c, km, sig) \<leftarrow> op_start enter this op c km;
     Some ((c, km), if sig = None then [op_entry this op] else [])
   }"
| "io_do enter Submit_action (c, km) = Some ((c, fst (submit enter c km)), [])"
| "io_do enter (Wait_action n) (c, km) = Some ((c, fst (submit_and_wait enter c n km)), [])"

fun io_history :: "'k enter \<Rightarrow> io_action list \<Rightarrow> uring_context \<times> 'k \<times> shared \<Rightarrow>
    ((uring_context \<times> 'k \<times> shared) \<times> sqe list) option" where
  "io_history enter [] s = Some (s, [])"
| "io_history enter (a # as) s = do {
     (s, es) \<leftarrow> io_do enter a s;
     (s, es') \<leftarrow> io_history enter as s;
     Some (s, es @ es')
   }"

lemma io_do_queue:
  assumes "kernel_ok enter taken" "sq_ok c m" "\<forall>this. a \<noteq> Start_action this Base_op"
  shows "\<exists>c' k' m' es. io_do enter a (c, k, m) = Some ((c', k', m'), es) \<and> sq_ok c' m' \<and>
    taken k' @ sq_pending c' m' = taken k @ sq_pending c m @ es \<and> uc_sq_entries c' = uc_sq_entries c"
proof (cases a)
  case (Start_action this op)
  with assms(3) have "op \<noteq> Base_op" by auto
  from op_start_queue [OF assms(1,2) this, where k = k and this = this] show ?thesis
    unfolding Start_action by (auto split: if_splits)
next
  case Submit_action
  obtain k' m' r where "submit enter c (k, m) = ((k', m'), r)" by (metis surj_pair)
  with submit_queue [OF assms(1,2) this] show ?thesis by (simp add: Submit_action)
next
  case (Wait_action n)
  obtain k' m' r where "submit_and_wait enter c n (k, m) = ((k', m'), r)" by (metis surj_pair)
  with submit_and_wait_queue [OF assms(1,2) this] show ?thesis by (simp add: Wait_action)
qed

lemma io_history_queue:
  assumes "kernel_ok enter taken"
  shows "sq_ok c m \<Longrightarrow> \<forall>this. Start_action this Base_op \<notin> set acts \<Longrightarrow>
    \<exists>c' k' m' es. io_history enter acts (c, k, m) = Some ((c', k', m'), es) \<and> sq_ok c' m' \<and>
      taken k' @ sq_pending c' m' = taken k @ sq_pending c m @ es \<and> uc_sq_entries c' = uc_sq_entries c"
proof (induction acts arbitrary: c k m)
  case (Cons a acts)
  then have "\<forall>this. a \<noteq> Start_action this Base_op" by auto
  from io_do_queue [OF assms Cons.prems(1) this, of k] obtain c1 k1 m1 es1 where 1:
    "io_do enter a (c, k, m) = Some ((c1, k1, m1), es1)" "sq_ok c1 m1"
    "taken k1 @ sq_pending c1 m1 = taken k @ sq_pending c m @ es1" "uc_sq_entries c1 = uc_sq_entries c" by blast
  from Cons.IH [OF 1(2), of k1] Cons.prems(2) obtain c2 k2 m2 es2 where 2:
    "io_history enter acts (c1, k1, m1) = Some ((c2, k2, m2), es2)" "sq_ok c2 m2"
    "taken k2 @ sq_pending c2 m2 = taken k1 @ sq_pending c1 m1 @ es2" "uc_sq_entries c2 = uc_sq_entries c1" by auto
  have "taken k2 @ sq_pending c2 m2 = taken k @ sq_pending c m @ es1 @ es2"
    using 1(3) 2(3) by (metis append_assoc)
  with 1 2 show ?case by (intro exI [of _ c2] exI [of _ k2] exI [of _ m2] exI [of _ "es1 @ es2"]) simp
qed simp


section \<open>A kernel and a ring to compute with\<close>

text \<open>A kernel that consumes all it is asked to and remembers the entries; it completes nothing.\<close>

definition greedy_enter :: "sqe list enter" where
  "greedy_enter fd n mc fl km =
     (let m = snd km; j = min (unat n) (unat (sq_tail m - sq_head m));
          es = map (\<lambda>i. sqes m ! unat (sq_array m ! ((unat (sq_head m) + i) mod length (sq_array m)))) [0..<j]
      in ((fst km @ es, m\<lparr>sq_head := sq_head m + of_nat j\<rparr>), int j, 0))"

lemma greedy_kernel: "kernel_ok greedy_enter (\<lambda>k. k)"
  unfolding kernel_ok_def
proof (intro allI impI)
  fix c :: uring_context and k :: "sqe list" and m and n mc fl :: u32
  assume ok: "sq_ok c m"
  then obtain s where s: "sq_shape c m s" by (auto simp: sq_ok_def)
  let ?j = "min (unat n) (unat (sq_tail m - sq_head m))"
  have "unat ((sq_head m + of_nat i) AND uc_sq_mask c) = (unat (sq_head m) + i) mod length (sq_array m)" for i
    using s slot_add [of s "sq_head m" i] by (simp add: sq_shape_def)
  then have "map (\<lambda>i. sqes m ! unat (sq_array m ! ((unat (sq_head m) + i) mod length (sq_array m)))) [0..<?j] =
      take ?j (published c m)"
    by (simp add: published_def take_queued) (simp add: queued_def sq_entry_def)
  then show "case greedy_enter (uc_fd c) n mc fl (k, m) of ((k', m'), ret, errno) \<Rightarrow>
      \<exists>j. consumes c (unat n) m m' j \<and> k' = k @ take j (published c m) \<and> (ret = int j \<or> ret = - 1 \<and> 0 < errno)"
    by (simp add: greedy_enter_def Let_def consumes_def)
qed

definition small_ring :: shared where
  "small_ring =
     \<lparr>sq_head = 0xFFFFFFFF, sq_tail = 0xFFFFFFFF, sq_ring_mask = 1, sq_array = [0, 1], sqes = [sqe_zero, sqe_zero],
      cq_head = 0xFFFFFFFF, cq_tail = 0xFFFFFFFF, cq_ring_mask = 1,
      cqes = replicate 2 \<lparr>cqe_user_data = 0, cqe_res = 0, cqe_flags = 0\<rparr>, user_mem = Map.empty\<rparr>"

definition small_context :: uring_context where
  "small_context =
     \<lparr>uc_fd = 7, uc_ring = mapped_ring_init\<lparr>m_sqes := 0x10000\<rparr>, uc_sq_entries = 2, uc_cq_entries = 2,
      uc_features = 1, uc_sq_head = 0x1000, uc_sq_tail = 0x1004, uc_sq_mask = 1, uc_sq_array = 0x1040,
      uc_sq_flags = 0x1008, uc_sq_tail_local = 0xFFFFFFFF, uc_cq_head = 0x1010, uc_cq_tail = 0x1014,
      uc_cq_mask = 1, uc_cqes = 0x1080\<rparr>"

lemma small_ok: "sq_ok small_context small_ring" "sq_pending small_context small_ring = []"
proof -
  have "sq_shape small_context small_ring 1"
    by (simp add: sq_shape_def small_context_def small_ring_def mapped_ring_init_def mask_eq_exp_minus_1)
  then show "sq_ok small_context small_ring"
    unfolding sq_ok_def by (auto simp: small_context_def small_ring_def)
  show "sq_pending small_context small_ring = []"
    by (simp add: sq_pending_def queued_def small_context_def small_ring_def)
qed

lemma small_fields: "uc_sq_entries small_context = 2" "uc_sq_tail_local small_context = 0xFFFFFFFF"
  "sq_tail small_ring = 0xFFFFFFFF" "uc_fd small_context = 7"
  by (simp_all add: small_context_def small_ring_def)

lemma small_room: "length (sq_pending small_context small_ring) < unat (uc_sq_entries small_context)"
  by (simp add: small_ok(2) small_fields)

text \<open>A kernel that refuses every call.\<close>

definition refusing_enter :: "unit enter" where
  "refusing_enter fd n mc fl km = (km, - 1, 11)"

section \<open>Properties of the submission side\<close>

text \<open>
  C22. The submission ring is a bounded queue, whatever operations are started, submitted and waited for
  in whatever order, with 32-bit cursors that wrap: the entries of the operations whose start did not
  report EBUSY are consumed by the kernel in the order of the starts, each once and with the fields its
  start wrote, or are still pending; there are never more pending than the ring has entries, no array is
  accessed outside its bounds, and the next request for an entry is refused exactly when the ring is full.
\<close>

theorem ring_is_fifo:
  assumes "kernel_ok enter taken" "sq_ok c m" "\<forall>this. Start_action this Base_op \<notin> set acts"
  shows "\<exists>c' k' m' es. io_history enter acts (c, k, m) = Some ((c', k', m'), es) \<and> sq_ok c' m' \<and>
    taken k' @ sq_pending c' m' = taken k @ sq_pending c m @ es \<and>
    length (sq_pending c' m') \<le> unat (uc_sq_entries c) \<and>
    (\<exists>c'' m'' slot. get_sqe c' m' = Some (c'', m'', slot) \<and>
       (slot = None \<longleftrightarrow> length (sq_pending c' m') = unat (uc_sq_entries c)))"
proof -
  from io_history_queue [OF assms] obtain c' k' m' es where h:
    "io_history enter acts (c, k, m) = Some ((c', k', m'), es)" "sq_ok c' m'"
    "taken k' @ sq_pending c' m' = taken k @ sq_pending c m @ es" "uc_sq_entries c' = uc_sq_entries c" by blast
  have le: "length (sq_pending c' m') \<le> unat (uc_sq_entries c)" using pending_le [OF h(2)] by (simp add: h(4))
  have "\<exists>c'' m'' slot. get_sqe c' m' = Some (c'', m'', slot) \<and>
      (slot = None \<longleftrightarrow> length (sq_pending c' m') = unat (uc_sq_entries c))"
  proof (cases "length (sq_pending c' m') = unat (uc_sq_entries c)")
    case True
    then show ?thesis using get_sqe_full [of c' m'] by (simp add: h(4))
  next
    case False
    then have "length (sq_pending c' m') < unat (uc_sq_entries c')" using le by (simp add: h(4))
    from get_sqe_room [OF h(2) this] False show ?thesis by simp
  qed
  with h le show ?thesis by blast
qed

lemma ring_is_fifo_witness:
  "\<exists>c' k' m' es. io_history greedy_enter
      [Start_action 64 Nop_op, Start_action 128 (Recv_op 5 4096 1500), Start_action 192 (Close_op 5), Submit_action]
      (small_context, [], small_ring) = Some ((c', k', m'), es) \<and> sq_ok c' m' \<and>
    k' @ sq_pending c' m' = es \<and> length (sq_pending c' m') \<le> 2 \<and>
    (\<exists>c'' m'' slot. get_sqe c' m' = Some (c'', m'', slot) \<and> (slot = None \<longleftrightarrow> length (sq_pending c' m') = 2))"
  using ring_is_fifo [OF greedy_kernel small_ok(1),
      of "[Start_action 64 Nop_op, Start_action 128 (Recv_op 5 4096 1500), Start_action 192 (Close_op 5), Submit_action]" "[]"]
    small_ok(2) by (simp add: small_fields)

text \<open>
  C23. Starting an operation either queues its entry behind the pending ones and sends no signal, or
  completes at once with the error EBUSY. It does the latter only when the ring was full and still is after a
  submission, so that the kernel took none of its entries, and then nothing is queued or lost.
\<close>

theorem start_or_busy:
  assumes "kernel_ok enter taken" "sq_ok c m" "op \<noteq> Base_op"
  shows "\<exists>c' k' m' sig. op_start enter this op c (k, m) = Some (c', (k', m'), sig) \<and> sq_ok c' m' \<and>
    (sig = None \<and> taken k' @ sq_pending c' m' = taken k @ sq_pending c m @ [op_entry this op] \<or>
     sig = Some (Io_error (System_error EBUSY (busy_text op))) \<and>
       taken k' = taken k \<and> sq_pending c' m' = sq_pending c m \<and> length (sq_pending c m) = unat (uc_sq_entries c))"
proof -
  from op_start_queue [OF assms, of this k] obtain c' k' m' ok where s:
    "op_start enter this op c (k, m) =
      Some (c', (k', m'), if ok then None else Some (Io_error (System_error EBUSY (busy_text op))))"
    "sq_ok c' m'" "taken k' @ sq_pending c' m' = taken k @ sq_pending c m @ (if ok then [op_entry this op] else [])"
    "\<not> ok \<longrightarrow> taken k' = taken k \<and> sq_pending c' m' = sq_pending c m \<and> length (sq_pending c m) = unat (uc_sq_entries c)"
    by blast
  then show ?thesis by (cases ok) auto
qed

lemma start_or_busy_witness:
  "\<exists>c' k' m' sig. op_start greedy_enter 64 (Accept_op 3 4096 4224) small_context ([], small_ring) =
      Some (c', (k', m'), sig) \<and> sq_ok c' m' \<and>
    (sig = None \<and> k' @ sq_pending c' m' = [op_entry 64 (Accept_op 3 4096 4224)] \<or>
     sig = Some (Io_error (System_error 16 '''')) \<and> k' = [] \<and> sq_pending c' m' = [] \<and> (0::nat) = 2)"
  using start_or_busy [OF greedy_kernel small_ok(1), of "Accept_op 3 4096 4224" 64 "[]"]
  by (simp add: small_ok(2) EBUSY_def busy_text_def small_fields)

text \<open>
  A submission the kernel refuses is not repeated. After \<open>submit\<close> returned an error, further calls of
  \<open>submit\<close> return 0 without entering the kernel although entries are pending; once one more operation is
  started, \<open>submit\<close> asks the kernel for one entry only, so the ring stays behind by the entries of the
  refused call.
\<close>

theorem refused_submit_is_lost:
  assumes "sq_ok c m" "uc_sq_tail_local c \<noteq> sq_tail m" "length (sq_pending c m) < unat (uc_sq_entries c)"
    and "enter (uc_fd c) (uc_sq_tail_local c - sq_tail m) 0 0 (k, m\<lparr>sq_tail := uc_sq_tail_local c\<rparr>) =
      ((k', m\<lparr>sq_tail := uc_sq_tail_local c\<rparr>), - 1, e)"
  shows "\<exists>m'. submit enter c (k, m) = ((k', m'), - e) \<and> sq_pending c m' = sq_pending c m \<and> sq_pending c m \<noteq> [] \<and>
    (\<forall>(enter' :: 'k enter) k. submit enter' c (k, m') = ((k, m'), 0)) \<and>
    (\<forall>(enter' :: 'k enter) this. \<exists>c' m''.
       op_start enter' this Nop_op c (k', m') = Some (c', (k', m''), None) \<and>
       sq_pending c' m'' = sq_pending c m @ [op_entry this Nop_op] \<and>
       submit enter' c' (k', m'') =
         (case enter' (uc_fd c) 1 0 0 (k', m''\<lparr>sq_tail := uc_sq_tail_local c'\<rparr>) of (km, r) \<Rightarrow> (km, enter_result r)))"
proof -
  define m' where "m' = m\<lparr>sq_tail := uc_sq_tail_local c\<rparr>"
  note pub = publish_queue [OF assms(1), folded m'_def]
  have ne: "sq_pending c m \<noteq> []"
  proof
    assume "sq_pending c m = []"
    then have "uc_sq_tail_local c - sq_head m = 0" by (metis list.size(3) length_pending unat_eq_zero)
    moreover have "unat (sq_tail m - sq_head m) \<le> unat (uc_sq_tail_local c - sq_head m)"
      using assms(1) by (simp add: sq_ok_def)
    ultimately show False using assms(2) by (simp add: unat_eq_zero)
  qed
  have sub: "submit enter c (k, m) = ((k', m'), - e)"
    using assms(2,4) by (simp add: submit_def m'_def enter_result_def)
  have again: "submit enter' c (k, m') = ((k, m'), 0)" for enter' :: "'k enter" and k
    by (simp add: submit_def m'_def)
  have start: "\<exists>c' m''. op_start enter' this Nop_op c (k', m') = Some (c', (k', m''), None) \<and>
       sq_pending c' m'' = sq_pending c m @ [op_entry this Nop_op] \<and>
       submit enter' c' (k', m'') =
         (case enter' (uc_fd c) 1 0 0 (k', m''\<lparr>sq_tail := uc_sq_tail_local c'\<rparr>) of (km, r) \<Rightarrow> (km, enter_result r))"
    for enter' :: "'k enter" and this
  proof -
    have room: "length (sq_pending c m') < unat (uc_sq_entries c)" using assms(3) pub(2) by simp
    let ?c = "c\<lparr>uc_sq_tail_local := uc_sq_tail_local c + 1\<rparr>" and ?m = "take_slot c m' (op_entry this Nop_op)"
    have "op_start enter' this Nop_op c (k', m') = Some (?c, (k', ?m), None)"
      by (simp add: op_start_fill op_fill_def op_entry_def start_op_def acquire_sqe_def
          get_sqe_room [OF pub(1) room] set_take_slot [OF pub(1)])
    moreover have "sq_pending ?c ?m = sq_pending c m @ [op_entry this Nop_op]"
      using take_slot_queue(1) [OF pub(1) room] pub(2) by simp
    moreover have "sq_tail ?m = uc_sq_tail_local c" by (simp add: take_slot_def m'_def Let_def)
    ultimately show ?thesis
      by (intro exI [of _ ?c] exI [of _ ?m]) (simp add: submit_def Let_def)
  qed
  show ?thesis using sub pub(2) ne again start by (intro exI [of _ m']) simp
qed

definition small_started :: shared where
  "small_started = take_slot small_context small_ring (op_entry 64 Nop_op)"

lemma refused_submit_is_lost_witness:
  "\<exists>m'. submit refusing_enter (small_context\<lparr>uc_sq_tail_local := 0\<rparr>) ((), small_started) = (((), m'), - 11) \<and>
    sq_pending (small_context\<lparr>uc_sq_tail_local := 0\<rparr>) m' = [op_entry 64 Nop_op] \<and>
    (\<forall>(enter :: unit enter) k. submit enter (small_context\<lparr>uc_sq_tail_local := 0\<rparr>) (k, m') = ((k, m'), 0))"
proof -
  have z: "uc_sq_tail_local small_context + 1 = 0" unfolding small_fields by code_simp
  have q: "sq_pending (small_context\<lparr>uc_sq_tail_local := 0\<rparr>) small_started = [op_entry 64 Nop_op]"
    "sq_ok (small_context\<lparr>uc_sq_tail_local := 0\<rparr>) small_started"
    using take_slot_queue [OF small_ok(1) small_room, of "op_entry 64 Nop_op"]
    unfolding small_started_def small_ok(2) z by simp_all
  have "sq_tail small_started = 0xFFFFFFFF"
    by (simp add: small_started_def take_slot_def Let_def small_fields)
  then show ?thesis
    using refused_submit_is_lost [OF q(2), of refusing_enter "()" "()" 11] q(1)
    by (auto simp: small_fields refusing_enter_def)
qed

text \<open>
  Moving a context that has been used forgets the submission cursor, in the move constructor as in the
  assignment to a fresh context. With no entry pending and the cursor at \<open>t\<close>, the original has room but the
  moved-to context reports a full queue, and its \<open>submit\<close> publishes the tail 0 and asks the kernel to submit
  \<open>2 ^ 32 - t\<close> entries nobody wrote. Only a context that never queued anything survives a move.
\<close>

theorem moved_context_loses_cursor:
  assumes "sq_ok c m" "sq_pending c m = []" "uc_sq_tail_local c = t"
    and "t \<noteq> 0" "uc_sq_entries c \<le> - t" "uc_sq_tail_local fresh = 0" "uc_fd fresh < 0"
  shows "\<exists>c'. fst (uring_move c) = c' \<and> fst (uring_move_assign fresh c log) = c' \<and>
    (\<exists>c1 m1 i. get_sqe c m = Some (c1, m1, Some i)) \<and>
    get_sqe c' m = Some (c', m, None) \<and>
    submit enter c' (k, m) =
      (case enter (uc_fd c) (- t) 0 0 (k, m\<lparr>sq_tail := 0\<rparr>) of (km, r) \<Rightarrow> (km, enter_result r)) \<and>
    (\<forall>c0. uc_sq_tail_local c0 = 0 \<longrightarrow> fst (uring_move c0) = c0)"
proof -
  from assms(1) obtain s where s: "sq_shape c m s" by (auto simp: sq_ok_def)
  have head: "sq_head m = t"
    using assms(2,3) length_pending [of c m] by (simp add: unat_eq_zero)
  have "unat (sq_tail m - sq_head m) \<le> 0" using assms(1,2) length_pending [of c m] by (simp add: sq_ok_def)
  then have tail: "sq_tail m = t" using head by (simp add: unat_eq_zero)
  have "length (sq_pending c m) < unat (uc_sq_entries c)" using assms(2) s by (simp add: sq_shape_def entries_unat)
  from get_sqe_room [OF assms(1) this] have "\<exists>c1 m1 i. get_sqe c m = Some (c1, m1, Some i)" by blast
  moreover have "get_sqe (fst (uring_move c)) m = Some (fst (uring_move c), m, None)"
    using assms(5) by (simp add: get_sqe_def uring_move_def head)
  moreover have "submit enter (fst (uring_move c)) (k, m) =
      (case enter (uc_fd c) (- t) 0 0 (k, m\<lparr>sq_tail := 0\<rparr>) of (km, r) \<Rightarrow> (km, enter_result r))"
    using assms(4) by (simp add: submit_def uring_move_def tail)
  ultimately show ?thesis
    using assms(6,7) by (simp add: uring_move_def uring_move_assign_def)
qed

lemma moved_context_loses_cursor_witness:
  "get_sqe (small_context\<lparr>uc_sq_tail_local := 0\<rparr>) (small_ring\<lparr>sq_head := 0x100, sq_tail := 0x100\<rparr>) =
    Some (small_context\<lparr>uc_sq_tail_local := 0\<rparr>, small_ring\<lparr>sq_head := 0x100, sq_tail := 0x100\<rparr>, None)"
proof -
  let ?c = "small_context\<lparr>uc_sq_tail_local := 0x100\<rparr>"
  let ?m = "small_ring\<lparr>sq_head := 0x100, sq_tail := 0x100\<rparr>"
  have "sq_shape ?c ?m 1"
    by (simp add: sq_shape_def small_context_def small_ring_def mapped_ring_init_def mask_eq_exp_minus_1)
  then have "sq_ok ?c ?m" unfolding sq_ok_def by (auto simp: small_context_def small_ring_def)
  moreover have "sq_pending ?c ?m = []" by (simp add: sq_pending_def queued_def small_ring_def)
  moreover have "uc_sq_entries ?c \<le> - 0x100" by (simp add: small_context_def)
  ultimately show ?thesis
    using moved_context_loses_cursor [of ?c ?m "0x100" "small_context\<lparr>uc_sq_tail_local := 0, uc_fd := - 1\<rparr>" "[]" refusing_enter "()"]
    by (simp add: uring_move_def)
qed

end
