(* ===== verification/Io_Events_Correct.thy ===== *)
theory Io_Events_Correct
  imports Io_Loop_Correct "HOL-Library.Multiset"
begin

text \<open>
  The completion side: \<open>for_each_cqe\<close> calls its function on the pending completions, in order and once,
  and a batch of the event loop gives every started operation the signal of its own completion.
\<close>

section \<open>The completion ring\<close>

definition cq_slot :: "uring_context \<Rightarrow> u32 \<Rightarrow> nat" where
  "cq_slot c t = unat (t AND uc_cq_mask c)"

definition pending_cqes :: "uring_context \<Rightarrow> shared \<Rightarrow> cqe list" where
  "pending_cqes c m = map (\<lambda>i. cqes m ! cq_slot c (cq_head m + of_nat i)) [0..<unat (cq_tail m - cq_head m)]"

text \<open>From the cursor \<open>h\<close> on, the ring holds the completions \<open>es\<close>. The kernel keeps it so until the head
  is moved.\<close>

definition holds :: "uring_context \<Rightarrow> u32 \<Rightarrow> cqe list \<Rightarrow> shared \<Rightarrow> bool" where
  "holds c h es m \<longleftrightarrow> (\<forall>i < length es. cqe_at c m (h + of_nat i) = Some (es ! i))"

definition cq_ok :: "uring_context \<Rightarrow> shared \<Rightarrow> bool" where
  "cq_ok c m \<longleftrightarrow> (\<exists>k. k < 32 \<and> uc_cq_mask c = mask k \<and> length (cqes m) = 2 ^ k)"

lemma cqe_at_ok: "cq_ok c m \<Longrightarrow> cqe_at c m t = Some (cqes m ! cq_slot c t)"
  using slot_less [of t] by (auto simp: cq_ok_def cqe_at_def cq_slot_def)

lemma pending_holds: "cq_ok c m \<Longrightarrow> holds c (cq_head m) (pending_cqes c m) m"
  by (simp add: holds_def pending_cqes_def cqe_at_ok)

fun fold_calls :: "('e \<Rightarrow> 's \<Rightarrow> 's option) \<Rightarrow> 'e list \<Rightarrow> 's \<Rightarrow> 's option" where
  "fold_calls fn [] s = Some s"
| "fold_calls fn (e # es) s = do { s \<leftarrow> fn e s; fold_calls fn es s }"

lemma cursor_eq_iff:
  fixes h :: u32
  assumes "i \<le> n" "n < 2 ^ 32"
  shows "h + of_nat i = h + of_nat n \<longleftrightarrow> i = n"
proof -
  have "unat (of_nat i :: u32) = i" "unat (of_nat n :: u32) = n"
    using assms by (auto intro!: unat_of_nat_small)
  then show ?thesis by (metis add_left_cancel)
qed

lemma cqe_loop_calls:
  assumes n: "length es < 2 ^ 32"
    and keep: "\<And>e ms ms'. holds c h es (fst ms) \<Longrightarrow> fn e ms = Some ms' \<Longrightarrow> holds c h es (fst ms')"
  shows "i \<le> length es \<Longrightarrow> holds c h es (fst ms) \<Longrightarrow>
    cqe_loop c fn (h + of_nat (length es)) (h + of_nat i) cnt ms =
      map_option (\<lambda>ms. (h + of_nat (length es), cnt + of_nat (length es - i), ms)) (fold_calls fn (drop i es) ms)"
proof (induction "length es - i" arbitrary: i cnt ms)
  case 0
  then show ?case by (subst cqe_loop.simps) simp
next
  case (Suc d)
  then have i: "i < length es" by simp
  then have ne: "h + of_nat i \<noteq> h + of_nat (length es)" using cursor_eq_iff [of i "length es" h] n by auto
  have at: "cqe_at c (fst ms) (h + of_nat i) = Some (es ! i)" using Suc.prems(2) i by (simp add: holds_def)
  have next_i: "h + of_nat i + 1 = h + of_nat (Suc i)" by simp
  have count: "cnt + 1 + of_nat (length es - Suc i) = cnt + of_nat (length es - i)"
    using i by (simp flip: Suc_diff_Suc)
  show ?case
  proof (cases "fn (es ! i) ms")
    case None
    then show ?thesis using ne at i by (subst cqe_loop.simps) (simp add: Cons_nth_drop_Suc [symmetric])
  next
    case (Some ms')
    have "holds c h es (fst ms')" by (rule keep [OF Suc.prems(2) Some])
    with Suc.hyps(1) [of "Suc i" ms' "cnt + 1"] Suc.hyps(2) i
    show ?thesis
      using ne at Some count
      by (subst cqe_loop.simps) (simp only: next_i, simp add: Cons_nth_drop_Suc [symmetric])
  qed
qed

lemma for_each_calls:
  assumes "cq_ok c m"
    and "\<forall>e ms ms'. holds c (cq_head m) (pending_cqes c m) (fst ms) \<longrightarrow> fn e ms = Some ms' \<longrightarrow>
      holds c (cq_head m) (pending_cqes c m) (fst ms')"
  shows "for_each_cqe c fn (m, s) =
    map_option (\<lambda>(m', s'). (of_nat (length (pending_cqes c m)), m'\<lparr>cq_head := cq_tail m\<rparr>, s'))
      (fold_calls fn (pending_cqes c m) (m, s))"
proof -
  let ?es = "pending_cqes c m" and ?h = "cq_head m"
  have len: "length ?es = unat (cq_tail m - cq_head m)" by (simp add: pending_cqes_def)
  then have n: "length ?es < 2 ^ 32" by (metis unsigned_less word32)
  have tail: "?h + of_nat (length ?es) = cq_tail m" by (simp add: len)
  have "cqe_loop c fn (?h + of_nat (length ?es)) (?h + of_nat 0) 0 (m, s) =
      map_option (\<lambda>ms. (?h + of_nat (length ?es), 0 + of_nat (length ?es - 0), ms)) (fold_calls fn (drop 0 ?es) (m, s))"
    using assms(2) pending_holds [OF assms(1)] by (intro cqe_loop_calls [OF n]) (blast | simp)+
  then show ?thesis
    unfolding tail by (cases "fold_calls fn ?es (m, s)") (auto simp: for_each_cqe_def)
qed

section \<open>The event loop\<close>

text \<open>The objects the completion of an operation reads are there.\<close>

definition op_ready :: "shared \<Rightarrow> uring_op \<Rightarrow> bool" where
  "op_ready m op = (case op of
      Base_op \<Rightarrow> False
    | Accept_op fd addr addrlen \<Rightarrow> read_bytes addr m \<noteq> None
    | Recvfrom_op fd msg addr \<Rightarrow> read_bytes addr m \<noteq> None
    | _ \<Rightarrow> True)"

text \<open>The signal an operation is to complete with.\<close>

definition op_outcome :: "uring_op \<Rightarrow> int \<Rightarrow> shared \<Rightarrow> io_signal" where
  "op_outcome op res m =
     (if res < 0 then Io_error (System_error (- res) '''')
      else case op of
          Accept_op fd addr addrlen \<Rightarrow> Io_accepted res (the (read_bytes addr m))
        | Recvfrom_op fd msg addr \<Rightarrow> Io_datagram (nat res) (the (read_bytes addr m))
        | Recv_op fd data len \<Rightarrow> Io_bytes (nat res)
        | Send_op fd data len \<Rightarrow> Io_bytes (nat res)
        | Sendto_op fd msg \<Rightarrow> Io_bytes (nat res)
        | _ \<Rightarrow> Io_value)"

lemma op_callback_outcome:
  "op_ready m op \<Longrightarrow> \<exists>f. op_callback op = Some f \<and> f res m = Some (op_outcome op res m)"
  by (cases op) (auto simp: op_ready_def op_callback_def op_outcome_def nop_complete_def connect_complete_def close_complete_def recv_complete_def send_complete_def sendto_complete_def
      accept_complete_def recvfrom_complete_def op_failed_def)

text \<open>Receivers that write down what they get; those of the operations \<open>P\<close> also stop the loop.\<close>

definition log_signal :: "(u64 \<Rightarrow> bool) \<Rightarrow> ('k, (u64 \<times> io_signal) list) receivers" where
  "log_signal P a s w =
     Some (fst w, (snd w)\<lparr>loop_stop := loop_stop (snd w) \<or> P a, loop_user := loop_user (snd w) @ [(a, s)]\<rparr>)"

lemma dispatch_log:
  assumes "cqe_user_data e \<noteq> 0" "loop_ops l (cqe_user_data e) = Some op" "op_ready m op"
  shows "dispatch_cqe (log_signal P) e (m, l) =
    Some (m, l\<lparr>loop_stop := loop_stop l \<or> P (cqe_user_data e),
      loop_user := loop_user l @ [(cqe_user_data e, op_outcome op (cqe_res e) m)]\<rparr>)"
proof -
  obtain f where "op_callback op = Some f" "f (cqe_res e) m = Some (op_outcome op (cqe_res e) m)"
    using op_callback_outcome [OF assms(3)] by blast
  then show ?thesis using assms(1,2) by (simp add: dispatch_cqe_def log_signal_def)
qed

lemma dispatch_all:
  "\<forall>e \<in> set es. cqe_user_data e \<noteq> 0 \<and> (\<exists>op. loop_ops l (cqe_user_data e) = Some op \<and> op_ready m op) \<Longrightarrow>
    fold_calls (dispatch_cqe (log_signal P)) es (m, l) =
      Some (m, l\<lparr>loop_stop := loop_stop l \<or> (\<exists>e \<in> set es. P (cqe_user_data e)), loop_user := loop_user l @
        map (\<lambda>e. (cqe_user_data e, op_outcome (the (loop_ops l (cqe_user_data e))) (cqe_res e) m)) es\<rparr>)"
proof (induction es arbitrary: l)
  case (Cons e es)
  then obtain op where "cqe_user_data e \<noteq> 0" "loop_ops l (cqe_user_data e) = Some op" "op_ready m op" by auto
  note d = dispatch_log [OF this] and op = this(2)
  show ?case using Cons.prems by (simp add: d Cons.IH op)
qed simp

lemma dispatch_keeps:
  "dispatch_cqe (log_signal P) e ms = Some ms' \<Longrightarrow> fst ms' = fst ms"
  by (auto simp: dispatch_cqe_def log_signal_def bind_eq_Some_conv split: if_splits option.splits)

text \<open>Starting operations while there is room for all of them: only the queue changes.\<close>

lemma loop_start_room:
  assumes "sq_ok c m" "length (sq_pending c m) < unat (uc_sq_entries c)"
    and "loop_ctx l = c" "loop_ops l a = Some op" "op \<noteq> Base_op"
  shows "loop_start enter recv a (m, l) =
    Some (take_slot c m (op_entry a op), l\<lparr>loop_ctx := c\<lparr>uc_sq_tail_local := uc_sq_tail_local c + 1\<rparr>\<rparr>)"
proof -
  obtain fill where f: "op_fill a op = Some fill" using op_fill_Some [OF assms(5)] by blast
  show ?thesis
    by (simp add: loop_start_def assms(3,4) op_start_fill f op_entry_def start_op_def acquire_sqe_def
        get_sqe_room [OF assms(1,2)] set_take_slot [OF assms(1)])
qed

lemma take_slot_fields:
  "sq_head (take_slot c m e) = sq_head m" "sq_tail (take_slot c m e) = sq_tail m"
  "cq_head (take_slot c m e) = cq_head m" "cq_tail (take_slot c m e) = cq_tail m"
  "cqes (take_slot c m e) = cqes m" "user_mem (take_slot c m e) = user_mem m"
  by (simp_all add: take_slot_def Let_def)

lemma start_all:
  "sq_ok (loop_ctx l) m \<Longrightarrow> length (sq_pending (loop_ctx l) m) + length as \<le> unat (uc_sq_entries (loop_ctx l)) \<Longrightarrow>
    \<forall>a \<in> set as. \<exists>op. loop_ops l a = Some op \<and> op \<noteq> Base_op \<Longrightarrow>
    \<exists>m' t. fold_calls (loop_start enter recv) as (m, l) =
        Some (m', l\<lparr>loop_ctx := (loop_ctx l)\<lparr>uc_sq_tail_local := t\<rparr>\<rparr>) \<and>
      sq_ok ((loop_ctx l)\<lparr>uc_sq_tail_local := t\<rparr>) m' \<and> sq_tail m' = sq_tail m \<and> sq_head m' = sq_head m \<and>
      sq_pending ((loop_ctx l)\<lparr>uc_sq_tail_local := t\<rparr>) m' =
        sq_pending (loop_ctx l) m @ map (\<lambda>a. op_entry a (the (loop_ops l a))) as"
proof (induction as arbitrary: m l)
  case Nil
  then show ?case by (intro exI [of _ m] exI [of _ "uc_sq_tail_local (loop_ctx l)"]) simp
next
  case (Cons a as)
  let ?c = "loop_ctx l"
  obtain op where op: "loop_ops l a = Some op" "op \<noteq> Base_op" using Cons.prems(3) by auto
  have room: "length (sq_pending ?c m) < unat (uc_sq_entries ?c)" using Cons.prems(2) by simp
  define c1 m1 where "c1 = ?c\<lparr>uc_sq_tail_local := uc_sq_tail_local ?c + 1\<rparr>" and "m1 = take_slot ?c m (op_entry a op)"
  have start: "loop_start enter recv a (m, l) = Some (m1, l\<lparr>loop_ctx := c1\<rparr>)"
    unfolding c1_def m1_def by (rule loop_start_room [OF Cons.prems(1) room refl op])
  have q: "sq_pending c1 m1 = sq_pending ?c m @ [op_entry a op]" "sq_ok c1 m1"
    using take_slot_queue [OF Cons.prems(1) room] by (simp_all add: c1_def m1_def)
  have "\<exists>m' t. fold_calls (loop_start enter recv) as (m1, l\<lparr>loop_ctx := c1\<rparr>) =
        Some (m', l\<lparr>loop_ctx := c1\<lparr>uc_sq_tail_local := t\<rparr>\<rparr>) \<and>
      sq_ok (c1\<lparr>uc_sq_tail_local := t\<rparr>) m' \<and> sq_tail m' = sq_tail m1 \<and> sq_head m' = sq_head m1 \<and>
      sq_pending (c1\<lparr>uc_sq_tail_local := t\<rparr>) m' = sq_pending c1 m1 @ map (\<lambda>a. op_entry a (the (loop_ops l a))) as"
    using Cons.IH [of "l\<lparr>loop_ctx := c1\<rparr>" m1] q Cons.prems(2,3) by (simp add: c1_def)
  then show ?case
    unfolding q(1) by (auto simp: start op c1_def m1_def take_slot_fields)
qed

lemma cq_tail_local [simp]:
  "pending_cqes (c\<lparr>uc_sq_tail_local := t\<rparr>) m = pending_cqes c m" "cq_ok (c\<lparr>uc_sq_tail_local := t\<rparr>) m = cq_ok c m"
  by (simp_all add: pending_cqes_def cq_slot_def cq_ok_def)

lemma pending_none [simp]: "pending_cqes c (m\<lparr>cq_head := cq_tail m\<rparr>) = []"
  by (simp add: pending_cqes_def)

lemma for_each_batch:
  assumes "cq_ok (loop_ctx l) m"
    and "\<forall>e \<in> set (pending_cqes (loop_ctx l) m).
      cqe_user_data e \<noteq> 0 \<and> (\<exists>op. loop_ops l (cqe_user_data e) = Some op \<and> op_ready m op)"
  shows "for_each_cqe (loop_ctx l) (dispatch_cqe (log_signal P)) (m, l) =
    Some (of_nat (length (pending_cqes (loop_ctx l) m)), m\<lparr>cq_head := cq_tail m\<rparr>,
      l\<lparr>loop_stop := loop_stop l \<or> (\<exists>e \<in> set (pending_cqes (loop_ctx l) m). P (cqe_user_data e)),
        loop_user := loop_user l @
        map (\<lambda>e. (cqe_user_data e, op_outcome (the (loop_ops l (cqe_user_data e))) (cqe_res e) m))
          (pending_cqes (loop_ctx l) m)\<rparr>)"
proof -
  have "for_each_cqe (loop_ctx l) (dispatch_cqe (log_signal P)) (m, l) =
      map_option (\<lambda>(m', s'). (of_nat (length (pending_cqes (loop_ctx l) m)), m'\<lparr>cq_head := cq_tail m\<rparr>, s'))
        (fold_calls (dispatch_cqe (log_signal P)) (pending_cqes (loop_ctx l) m) (m, l))"
    by (rule for_each_calls [OF assms(1)]) (auto dest: dispatch_keeps)
  then show ?thesis by (simp add: dispatch_all [OF assms(2)])
qed

lemma run_once_batch:
  assumes "submit enter (loop_ctx l) (loop_kern l, m) = ((k', m'), r)" "cq_ok (loop_ctx l) m'"
    and "\<forall>e \<in> set (pending_cqes (loop_ctx l) m').
      cqe_user_data e \<noteq> 0 \<and> (\<exists>op. loop_ops l (cqe_user_data e) = Some op \<and> op_ready m' op)"
  shows "run_once enter (log_signal P) (m, l) =
    Some (of_nat (length (pending_cqes (loop_ctx l) m')), m'\<lparr>cq_head := cq_tail m'\<rparr>,
      l\<lparr>loop_kern := k',
        loop_stop := loop_stop l \<or> (\<exists>e \<in> set (pending_cqes (loop_ctx l) m'). P (cqe_user_data e)),
        loop_user := loop_user l @
        map (\<lambda>e. (cqe_user_data e, op_outcome (the (loop_ops l (cqe_user_data e))) (cqe_res e) m'))
          (pending_cqes (loop_ctx l) m')\<rparr>)"
  using for_each_batch [of "l\<lparr>loop_kern := k'\<rparr>" m' P] assms by (simp add: run_once_def)

text \<open>
  \<open>for_each_cqe\<close> calls its function on exactly the completions that were pending when it was called, in
  the order the kernel posted them and each once, across the wrap-around of the cursors, as long as the
  function leaves them in the ring; it returns their number and moves the head to where the tail was.
  Without undefined behaviour in the function there is none.
\<close>

theorem for_each_exact:
  assumes "cq_ok c m"
    and "\<forall>e ms ms'. holds c (cq_head m) (pending_cqes c m) (fst ms) \<longrightarrow> fn e ms = Some ms' \<longrightarrow>
      holds c (cq_head m) (pending_cqes c m) (fst ms')"
  shows "for_each_cqe c fn (m, s) =
    map_option (\<lambda>(m', s'). (of_nat (length (pending_cqes c m)), m'\<lparr>cq_head := cq_tail m\<rparr>, s'))
      (fold_calls fn (pending_cqes c m) (m, s))"
  by (rule for_each_calls [OF assms])

text \<open>A ring of two entries whose kernel has posted two completions across the wrap-around.\<close>

definition two_completions :: "shared \<Rightarrow> shared" where
  "two_completions m =
     m\<lparr>cq_head := 0xFFFFFFFF, cq_tail := 1,
       cqes := [\<lparr>cqe_user_data = 128, cqe_res = 12, cqe_flags = 0\<rparr>, \<lparr>cqe_user_data = 64, cqe_res = 0, cqe_flags = 0\<rparr>]\<rparr>"

lemma two_completions_ok:
  "cq_ok small_context (two_completions m)"
  "pending_cqes small_context (two_completions m) =
     [\<lparr>cqe_user_data = 64, cqe_res = 0, cqe_flags = 0\<rparr>, \<lparr>cqe_user_data = 128, cqe_res = 12, cqe_flags = 0\<rparr>]"
proof -
  have two: "unat (1 - 0xFFFFFFFF :: u32) = 2" by code_simp
  show "cq_ok small_context (two_completions m)"
    unfolding cq_ok_def by (intro exI [of _ 1]) (simp add: small_context_def two_completions_def mask_eq_exp_minus_1)
  have slots: "cq_slot small_context 0xFFFFFFFF = 1" "cq_slot small_context (0xFFFFFFFF + 1) = 0"
    unfolding cq_slot_def small_context_def by code_simp+
  have "[0..<2] = [0, 1::nat]" by (simp add: upt_rec)
  then show "pending_cqes small_context (two_completions m) =
      [\<lparr>cqe_user_data = 64, cqe_res = 0, cqe_flags = 0\<rparr>, \<lparr>cqe_user_data = 128, cqe_res = 12, cqe_flags = 0\<rparr>]"
    using slots by (simp add: pending_cqes_def two_completions_def two)
qed

lemma for_each_exact_witness:
  "for_each_cqe small_context (\<lambda>e (m, s). Some (m, s @ [cqe_user_data e])) (two_completions small_ring, []) =
    Some (2, (two_completions small_ring)\<lparr>cq_head := cq_tail (two_completions small_ring)\<rparr>, [64, 128])"
  using for_each_exact [OF two_completions_ok(1), of small_ring "\<lambda>e (m, s). Some (m, s @ [cqe_user_data e])" "[]"]
  by (simp add: two_completions_ok(2) split: prod.splits)

text \<open>
  C21. Operations of any kinds, as many as the ring has entries, are started on an idle ring without a signal,
  and one submission offers the kernel all of them. If the kernel answers each, in whatever order, then one batch of the event
  loop reports their number, gives every operation exactly one signal, the one its result calls for (a negative
  result becomes the error with its code, the others the value with the bytes or the address the kernel
  left), and leaves no completion behind.
\<close>

theorem batch_signals_each_once:
  assumes "sq_ok (loop_ctx l) m" "sq_pending (loop_ctx l) m = []"
    and "as \<noteq> []" "length as \<le> unat (uc_sq_entries (loop_ctx l))"
    and "\<forall>a \<in> set as. a \<noteq> 0 \<and> (\<exists>op. loop_ops l a = Some op \<and> op \<noteq> Base_op)"
  shows "\<exists>m1 l1. fold_calls (loop_start enter (log_signal P)) as (m, l) = Some (m1, l1) \<and> loop_user l1 = loop_user l \<and>
    map sqe_user_data (sq_pending (loop_ctx l1) m1) = as \<and>
    (\<forall>k2 m2 r. enter (uc_fd (loop_ctx l)) (of_nat (length as)) 0 0
          (loop_kern l, m1\<lparr>sq_tail := uc_sq_tail_local (loop_ctx l1)\<rparr>) = ((k2, m2), r) \<longrightarrow>
       cq_ok (loop_ctx l) m2 \<longrightarrow>
       mset (map cqe_user_data (pending_cqes (loop_ctx l) m2)) = mset as \<longrightarrow>
       (\<forall>a \<in> set as. op_ready m2 (the (loop_ops l a))) \<longrightarrow>
       (\<exists>m3 l3. run_once enter (log_signal P) (m1, l1) = Some (of_nat (length as), m3, l3) \<and>
          loop_user l3 = loop_user l @
            map (\<lambda>e. (cqe_user_data e, op_outcome (the (loop_ops l (cqe_user_data e))) (cqe_res e) m2))
              (pending_cqes (loop_ctx l) m2) \<and>
          pending_cqes (loop_ctx l3) m3 = []))"
proof -
  let ?c = "loop_ctx l"
  have ops: "\<forall>a \<in> set as. \<exists>op. loop_ops l a = Some op \<and> op \<noteq> Base_op" using assms(5) by blast
  obtain m1 t where s:
    "fold_calls (loop_start enter (log_signal P)) as (m, l) = Some (m1, l\<lparr>loop_ctx := ?c\<lparr>uc_sq_tail_local := t\<rparr>\<rparr>)"
    "sq_ok (?c\<lparr>uc_sq_tail_local := t\<rparr>) m1" "sq_tail m1 = sq_tail m" "sq_head m1 = sq_head m"
    "sq_pending (?c\<lparr>uc_sq_tail_local := t\<rparr>) m1 = map (\<lambda>a. op_entry a (the (loop_ops l a))) as"
    using start_all [OF assms(1) _ ops, of enter "log_signal P"] assms(2,4) by auto
  let ?l = "l\<lparr>loop_ctx := ?c\<lparr>uc_sq_tail_local := t\<rparr>\<rparr>"
  have data: "map sqe_user_data (map (\<lambda>a. op_entry a (the (loop_ops l a))) as) = as"
    using ops by (auto intro!: map_idI dest!: bspec simp: op_entry_user_data)
  have "unat (sq_tail m - sq_head m) = 0"
    using assms(1) assms(2) length_pending [of ?c m] by (simp add: sq_ok_def)
  then have tail: "sq_tail m1 = sq_head m1" using s(3,4) by (simp add: unat_eq_zero)
  have u: "unat (t - sq_head m1) = length as"
    using arg_cong [OF s(5), of length] by (simp add: length_pending)
  then have n: "t \<noteq> sq_tail m1" using assms(3) tail by auto
  have d: "t - sq_tail m1 = of_nat (length as)" by (simp add: tail flip: u)
  have z: "(of_nat (length as) :: u32) \<noteq> 0" using n d by (metis right_minus_eq)
  have run: "\<exists>m3 l3. run_once enter (log_signal P) (m1, ?l) = Some (of_nat (length as), m3, l3) \<and>
          loop_user l3 = loop_user l @
            map (\<lambda>e. (cqe_user_data e, op_outcome (the (loop_ops l (cqe_user_data e))) (cqe_res e) m2))
              (pending_cqes ?c m2) \<and>
          pending_cqes (loop_ctx l3) m3 = []"
    if k: "enter (uc_fd ?c) (of_nat (length as)) 0 0 (loop_kern l, m1\<lparr>sq_tail := t\<rparr>) = ((k2, m2), r)"
      and cq: "cq_ok ?c m2" and each: "mset (map cqe_user_data (pending_cqes ?c m2)) = mset as"
      and ready: "\<forall>a \<in> set as. op_ready m2 (the (loop_ops l a))" for k2 m2 r
  proof -
    have "submit enter (loop_ctx ?l) (loop_kern ?l, m1) = ((k2, m2), enter_result r)"
      using d z k by (simp add: submit_def Let_def)
    moreover have "cqe_user_data ` set (pending_cqes ?c m2) = set as"
      using arg_cong [OF each, of set_mset] by simp
    then have "\<forall>e \<in> set (pending_cqes ?c m2).
        cqe_user_data e \<noteq> 0 \<and> (\<exists>op. loop_ops l (cqe_user_data e) = Some op \<and> op_ready m2 op)"
      using assms(5) ready by (metis image_eqI option.sel)
    moreover have "length (pending_cqes ?c m2) = length as" using arg_cong [OF each, of size] by simp
    ultimately show ?thesis
      using run_once_batch [of enter ?l m1 k2 m2 "enter_result r"] cq by simp
  qed
  show ?thesis
    using s(1,5) data run by (intro exI [of _ m1] exI [of _ ?l]) simp
qed

text \<open>The kernel of the witness answers the second of two operations first.\<close>

definition answering_enter :: "unit enter" where
  "answering_enter fd n mc fl km = ((fst km, two_completions (snd km)), 2, 0)"

definition small_loop :: "(unit, (u64 \<times> io_signal) list) event_loop" where
  "small_loop = \<lparr>loop_ctx = small_context, loop_stop = False, loop_kern = (),
     loop_ops = [128 \<mapsto> Recv_op 5 4096 1500, 64 \<mapsto> Nop_op], loop_user = []\<rparr>"

lemma batch_signals_each_once_witness:
  "\<exists>m1 l1 m3 l3. fold_calls (loop_start answering_enter (log_signal (\<lambda>_. False))) [128, 64] (small_ring, small_loop) = Some (m1, l1) \<and>
    run_once answering_enter (log_signal (\<lambda>_. False)) (m1, l1) = Some (2, m3, l3) \<and>
    loop_user l3 = [(64, Io_value), (128, Io_bytes 12)] \<and> pending_cqes (loop_ctx l3) m3 = []"
proof -
  have hyps: "sq_ok (loop_ctx small_loop) small_ring" "sq_pending (loop_ctx small_loop) small_ring = []"
    "[128, 64 :: u64] \<noteq> []" "length [128, 64 :: u64] \<le> unat (uc_sq_entries (loop_ctx small_loop))"
    "\<forall>a \<in> set [128, 64]. a \<noteq> 0 \<and> (\<exists>op. loop_ops small_loop a = Some op \<and> op \<noteq> Base_op)"
    by (simp_all add: small_loop_def small_ok small_fields)
  from batch_signals_each_once [OF hyps, of answering_enter "\<lambda>_. False"] show ?thesis
    by (auto simp: answering_enter_def small_loop_def two_completions_ok op_ready_def op_outcome_def)
qed

lemma unstopped: "\<not> loop_stop l \<Longrightarrow> l\<lparr>loop_stop := False\<rparr> = (l :: ('k, 'u) event_loop)"
  by (cases l) simp

text \<open>
  C24. The event loop \<open>run\<close>, one wait at a time. A wait that fails with EINTR is repeated, any other error is
  thrown with its code and no receiver is called. A batch is delivered completely, in order; the loop then goes
  on, unless one of its receivers asked it to stop, and then it returns. A stop requested before \<open>run\<close> has no effect.
\<close>

theorem run_one_wait:
  assumes "submit_and_wait enter (loop_ctx l) 1 (loop_kern l, m) = ((k', m'), ret)"
  shows "(ret < 0 \<longrightarrow> run_events enter (log_signal P) (m, l) =
      (if - ret = EINTR then run_events enter (log_signal P) (m', l\<lparr>loop_kern := k'\<rparr>)
       else Some (Inl (System_error (- ret) ''io_uring_enter''), m', l\<lparr>loop_stop := False, loop_kern := k'\<rparr>))) \<and>
    (0 \<le> ret \<longrightarrow> cq_ok (loop_ctx l) m' \<longrightarrow>
      (\<forall>e \<in> set (pending_cqes (loop_ctx l) m').
         cqe_user_data e \<noteq> 0 \<and> (\<exists>op. loop_ops l (cqe_user_data e) = Some op \<and> op_ready m' op)) \<longrightarrow>
      (let stopped = \<exists>e \<in> set (pending_cqes (loop_ctx l) m'). P (cqe_user_data e);
           w = (m'\<lparr>cq_head := cq_tail m'\<rparr>, l\<lparr>loop_kern := k', loop_stop := stopped,
             loop_user := loop_user l @
               map (\<lambda>e. (cqe_user_data e, op_outcome (the (loop_ops l (cqe_user_data e))) (cqe_res e) m'))
                 (pending_cqes (loop_ctx l) m')\<rparr>)
       in run_events enter (log_signal P) (m, l) =
         (if stopped then Some (Inr (), w) else run_events enter (log_signal P) w))) \<and>
    run_events enter (log_signal P) (loop_stop_request (m, l)) = run_events enter (log_signal P) (m, l)"
proof -
  let ?R = "log_signal P"
  have swap: "l\<lparr>loop_stop := False, loop_kern := k'\<rparr> = l\<lparr>loop_kern := k', loop_stop := False\<rparr>" by simp
  have step: "run_events enter ?R (m, l) =
    (if ret < 0 then if - ret = EINTR then run_events enter ?R (m', l\<lparr>loop_kern := k'\<rparr>)
       else Some (Inl (System_error (- ret) ''io_uring_enter''), m', l\<lparr>loop_stop := False, loop_kern := k'\<rparr>)
     else do { (n, w) \<leftarrow> for_each_cqe (loop_ctx l) (dispatch_cqe ?R) (m', l\<lparr>loop_kern := k', loop_stop := False\<rparr>);
            run_loop enter ?R w })"
    unfolding run_events_def by (subst run_loop.simps) (simp add: assms Let_def swap)
  have stop: "run_loop enter ?R w = (if loop_stop (snd w) then Some (Inr (), w) else run_events enter ?R w)" for w
    by (cases "loop_stop (snd w)") (simp add: run_loop.simps, simp add: run_events_def unstopped)
  show ?thesis
  proof (intro conjI impI)
    assume "0 \<le> ret" "cq_ok (loop_ctx l) m'"
      "\<forall>e \<in> set (pending_cqes (loop_ctx l) m').
         cqe_user_data e \<noteq> 0 \<and> (\<exists>op. loop_ops l (cqe_user_data e) = Some op \<and> op_ready m' op)"
    with for_each_batch [of "l\<lparr>loop_kern := k', loop_stop := False\<rparr>" m' P] step
    show "let stopped = \<exists>e \<in> set (pending_cqes (loop_ctx l) m'). P (cqe_user_data e);
           w = (m'\<lparr>cq_head := cq_tail m'\<rparr>, l\<lparr>loop_kern := k', loop_stop := stopped,
             loop_user := loop_user l @
               map (\<lambda>e. (cqe_user_data e, op_outcome (the (loop_ops l (cqe_user_data e))) (cqe_res e) m'))
                 (pending_cqes (loop_ctx l) m')\<rparr>)
       in run_events enter ?R (m, l) = (if stopped then Some (Inr (), w) else run_events enter ?R w)"
      by (simp add: Let_def stop)
  next
    show "run_events enter ?R (loop_stop_request (m, l)) = run_events enter ?R (m, l)"
      by (simp add: loop_stop_request_def run_events_def)
  qed (simp add: step)
qed

lemma run_one_wait_witness:
  "\<exists>w. run_events answering_enter (log_signal (\<lambda>a. a = 128)) (small_ring, small_loop) = Some (Inr (), w) \<and>
    loop_user (snd w) = [(64, Io_value), (128, Io_bytes 12)]"
proof -
  have wait: "submit_and_wait answering_enter (loop_ctx small_loop) 1 (loop_kern small_loop, small_ring) =
      (((), two_completions (small_ring\<lparr>sq_tail := 0xFFFFFFFF\<rparr>)), 2)"
    by (simp add: submit_and_wait_def answering_enter_def small_loop_def small_fields enter_result_def Let_def)
  show ?thesis
    using run_one_wait [OF wait, of "\<lambda>a. a = 128"] two_completions_ok [of "small_ring\<lparr>sq_tail := 0xFFFFFFFF\<rparr>"]
    by (simp add: small_loop_def op_ready_def op_outcome_def Let_def)
qed

end
