(* ===== verification/Io_Setup_Correct.thy ===== *)
theory Io_Setup_Correct
  imports Io_Uring
begin

text \<open>
  Setting a ring up and releasing it: which system calls are made on every path of the constructor, of the
  destructor and of a move, and what the constructor reports.
\<close>

lemmas setup_defs = uring_construct_def map_cq_def map_sqes_def do_mmap_def cache_pointers_def mapped_ring_init_def

text \<open>
  C25. The system calls in the life of a context. The constructor maps the rings and the entry array of the
  descriptor it got, the destructor releases each of them and closes the descriptor once. But on a kernel
  that maps both rings at once (every one with IORING_FEAT_SINGLE_MMAP) the destructor unmaps that mapping twice: the guard
  against it compares with a pointer that has just been set to null.
\<close>

theorem ring_calls:
  assumes "\<forall>log len fd off. sys_mmap s log len fd off \<noteq> 0"
    and "uring_construct s m n log = (Inr c, log')"
  shows "\<exists>fd p len q qlen. 0 \<le> fd \<and> p \<noteq> MAP_FAILED \<and> q \<noteq> MAP_FAILED \<and> uc_fd c = fd \<and>
    (if uc_features c AND IORING_FEAT_SINGLE_MMAP \<noteq> 0
     then log' = log @ [Setup_call n fd, Mmap_call len fd IORING_OFF_SQ_RING p, Mmap_call qlen fd IORING_OFF_SQES q] \<and>
       uring_destruct c log' = log' @ [Munmap_call p len, Munmap_call p len, Munmap_call q qlen, Close_call fd]
     else \<exists>r rlen. r \<noteq> MAP_FAILED \<and>
       log' = log @ [Setup_call n fd, Mmap_call len fd IORING_OFF_SQ_RING p, Mmap_call rlen fd IORING_OFF_CQ_RING r,
         Mmap_call qlen fd IORING_OFF_SQES q] \<and>
       uring_destruct c log' = log' @ [Munmap_call p len, Munmap_call r rlen, Munmap_call q qlen, Close_call fd]) \<and>
    (\<forall>log. uring_destruct (snd (uring_move c)) log = log \<and>
       uring_destruct (fst (uring_move c)) log = uring_destruct c log)"
  using assms
  by (auto simp: setup_defs uring_destruct_def unmap_ring_def uring_move_def Let_def split: prod.splits if_splits)

text \<open>A kernel that maps both rings at once, and one that has no memory for the entries.\<close>

definition small_params :: "u32 \<Rightarrow> uring_params" where
  "small_params n =
     \<lparr>p_sq_entries = n, p_cq_entries = 2 * n, p_features = 1, sq_off_head = 0, sq_off_tail = 4, sq_off_flags = 12,
      sq_off_array = 64, cq_off_head = 16, cq_off_tail = 20, cq_off_cqes = 128\<rparr>"

definition small_sys :: sys where
  "small_sys =
     \<lparr>sys_setup = \<lambda>log n. (7, small_params n), sys_mmap = \<lambda>log len fd off. 0x1000000 OR off, sys_errno = \<lambda>log. 0\<rparr>"

definition no_memory_sys :: sys where
  "no_memory_sys = small_sys
     \<lparr>sys_mmap := \<lambda>log len fd off. if off = IORING_OFF_SQES then MAP_FAILED else 0x1000000,
      sys_errno := \<lambda>log. if \<exists>len. Munmap_call MAP_FAILED len \<in> set log then 22 else 12\<rparr>"

definition blank_ring :: shared where
  "blank_ring =
     \<lparr>sq_head = 0, sq_tail = 0, sq_ring_mask = 7, sq_array = replicate 8 0, sqes = replicate 8 sqe_zero,
      cq_head = 0, cq_tail = 0, cq_ring_mask = 15,
      cqes = replicate 16 \<lparr>cqe_user_data = 0, cqe_res = 0, cqe_flags = 0\<rparr>, user_mem = Map.empty\<rparr>"

lemma ring_calls_witness:
  "\<exists>c log p len q qlen. uring_construct small_sys blank_ring 8 [] = (Inr c, log) \<and>
    log = [Setup_call 8 (uc_fd c), Mmap_call len (uc_fd c) IORING_OFF_SQ_RING p, Mmap_call qlen (uc_fd c) IORING_OFF_SQES q] \<and>
    uring_destruct c log = log @ [Munmap_call p len, Munmap_call p len, Munmap_call q qlen, Close_call (uc_fd c)]"
proof -
  have nz: "\<forall>log len fd off. sys_mmap small_sys log len fd off \<noteq> 0"
    by (auto simp: small_sys_def or_eq_0_iff)
  obtain c log where c: "uring_construct small_sys blank_ring 8 [] = (Inr c, log)"
    and f: "uc_features c = 1"
    by (simp add: setup_defs small_sys_def small_params_def MAP_FAILED_def IORING_OFF_SQ_RING_def
        IORING_OFF_SQES_def IORING_FEAT_SINGLE_MMAP_def Let_def)
  from ring_calls [OF nz c] f c show ?thesis by (auto simp: IORING_FEAT_SINGLE_MMAP_def)
qed

text \<open>
  C26. A constructor that fails leaks nothing: every region it mapped is unmapped and the descriptor it got is
  closed. But the error it throws is rarely the one that happened. A failing setup is always reported as error
  1 (the code negates the result of the call, which is -1, and not the error number), and a failing mapping of the completion
  ring or of the entries always as EINVAL, because the clean-up unmaps the address MAP_FAILED before the error number is read.
\<close>

theorem construct_errors:
  assumes "\<forall>log len fd off. sys_mmap s log len fd off \<noteq> 0"
    and "\<forall>log n. fst (sys_setup s log n) < 0 \<longrightarrow> fst (sys_setup s log n) = - 1"
    and "\<forall>log len fd. sys_errno s (log @ [Munmap_call MAP_FAILED len, Close_call fd]) = 22"
    and "uring_construct s m n log = (Inl e, log')"
  shows "\<exists>calls fd. log' = log @ Setup_call n fd # calls \<and>
    (error_what e = ''io_uring_setup'' \<and> error_code e = 1 \<and> fd < 0 \<and> calls = [] \<or>
     0 \<le> fd \<and> last calls = Close_call fd \<and>
     (\<forall>p len off. Mmap_call len fd off p \<in> set calls \<longrightarrow> p \<noteq> MAP_FAILED \<longrightarrow> Munmap_call p len \<in> set calls) \<and>
     (error_what e = ''mmap sq_ring'' \<and> error_code e = sys_errno s log' \<or>
      error_what e \<in> {''mmap cq_ring'', ''mmap sqes''} \<and> error_code e = 22))"
proof -
  have errno: "sys_errno s (log @ [a, b, c, d, Munmap_call MAP_FAILED len, Close_call fd]) = 22"
    "sys_errno s (log @ [a, b, c, d, f, Munmap_call MAP_FAILED len, Close_call fd]) = 22"
    "sys_errno s (log @ [a, b, c, d, f, g, Munmap_call MAP_FAILED len, Close_call fd]) = 22" for a b c d f g len fd
    using assms(3) [rule_format, of "log @ [a, b, c, d]"] assms(3) [rule_format, of "log @ [a, b, c, d, f]"]
      assms(3) [rule_format, of "log @ [a, b, c, d, f, g]"] by simp_all
  have nz: "MAP_FAILED \<noteq> 0" by (simp add: MAP_FAILED_def)
  have failed: "x = - 1" if "sys_setup s log n = (x, y)" "x < 0" for x y
    using assms(2) [rule_format, of log n] that by simp
  show ?thesis
    using assms(1,4)
    by (auto simp: setup_defs unmap_ring_def Let_def errno nz dest: failed split: prod.splits if_splits)
qed

lemma construct_errors_witness:
  "\<exists>e log. uring_construct no_memory_sys blank_ring 8 [] = (Inl e, log) \<and> error_code e = 22 \<and>
    sys_errno no_memory_sys (take 3 log) = 12"
proof -
  let ?s = no_memory_sys
  obtain e log where c: "uring_construct ?s blank_ring 8 [] = (Inl e, log)" and w: "error_what e = ''mmap sqes''"
    and l: "sys_errno ?s (take 3 log) = 12"
    by (simp add: setup_defs no_memory_sys_def small_sys_def small_params_def MAP_FAILED_def IORING_OFF_SQ_RING_def
        IORING_OFF_SQES_def IORING_FEAT_SINGLE_MMAP_def unmap_ring_def Let_def)
  have "\<forall>log len fd off. sys_mmap ?s log len fd off \<noteq> 0"
    "\<forall>log n. fst (sys_setup ?s log n) < 0 \<longrightarrow> fst (sys_setup ?s log n) = - 1"
    "\<forall>log len fd. sys_errno ?s (log @ [Munmap_call MAP_FAILED len, Close_call fd]) = 22"
    by (auto simp: no_memory_sys_def small_sys_def MAP_FAILED_def)
  from construct_errors [OF this c] w have "error_code e = 22" by auto
  with c l show ?thesis by blast
qed

end
