(* ===== verification/Sender_Pipeline.thy ===== *)
theory Sender_Pipeline
  imports E2E_Protector Security
begin

text \<open>
  How the sender adaptors of \<open>e2e/protector.hpp\<close> and \<open>security/enforcer.hpp\<close> compose: senders, the
  operation states \<open>connect\<close> builds from them and what \<open>start\<close> does. A sender of the third-party
  library, such as \<open>just (msg)\<close>, is what it completes with when it is started. The adaptors hold pointers
  to states and policies that live elsewhere; a pointer is a number, the living objects are in \<open>objects\<close>,
  and using a dead one is \<^term>\<open>None\<close>. Two adaptors may point to the same state.
\<close>

type_synonym 'e pipe_signal = "(security_error + 'e) signal"

record objects =
  obj_state :: "nat \<Rightarrow> e2e_state option"
  obj_policy :: "nat \<Rightarrow> policy option"

datatype 'e sender =
    Upstream_sender "'e pipe_signal"
  | Protect_sender "'e sender" nat
  | Check_sender "'e sender" nat
  | Enforce_sender "'e sender" nat instance_id

datatype 'e operation =
    Upstream_op "'e pipe_signal"
  | Protect_op nat "'e operation"
  | Check_op nat "'e operation"
  | Enforce_op nat instance_id "'e operation"

section \<open>Adaptors\<close>

datatype adaptor = Protect_adaptor nat | Check_adaptor nat | Enforce_adaptor nat instance_id

definition e2e_protect :: "nat \<Rightarrow> adaptor" where "e2e_protect state = Protect_adaptor state"
definition e2e_check :: "nat \<Rightarrow> adaptor" where "e2e_check state = Check_adaptor state"
definition enforce :: "nat \<Rightarrow> instance_id \<Rightarrow> adaptor" where "enforce pol inst = Enforce_adaptor pol inst"

definition protect_pipe :: "'e sender \<Rightarrow> nat \<Rightarrow> 'e sender" where
  "protect_pipe sender state = Protect_sender sender state"

definition check_pipe :: "'e sender \<Rightarrow> nat \<Rightarrow> 'e sender" where
  "check_pipe sender state = Check_sender sender state"

definition enforce_pipe :: "'e sender \<Rightarrow> nat \<Rightarrow> instance_id \<Rightarrow> 'e sender" where
  "enforce_pipe sender pol inst = Enforce_sender sender pol inst"

text \<open>\<open>sender | adaptor\<close>\<close>

definition pipe :: "'e sender \<Rightarrow> adaptor \<Rightarrow> 'e sender" where
  "pipe sender a =
     (case a of
        Protect_adaptor state \<Rightarrow> protect_pipe sender state
      | Check_adaptor state \<Rightarrow> check_pipe sender state
      | Enforce_adaptor pol inst \<Rightarrow> enforce_pipe sender pol inst)"

section \<open>Connecting and starting\<close>

text \<open>The constructor of an operation state connects the upstream sender to its inner receiver.\<close>

definition protect_op_state :: "'e operation \<Rightarrow> nat \<Rightarrow> 'e operation" where
  "protect_op_state inner state = Protect_op state inner"

definition check_op_state :: "'e operation \<Rightarrow> nat \<Rightarrow> 'e operation" where
  "check_op_state inner state = Check_op state inner"

definition enforce_op_state :: "'e operation \<Rightarrow> nat \<Rightarrow> instance_id \<Rightarrow> 'e operation" where
  "enforce_op_state inner pol inst = Enforce_op pol inst inner"

fun connect :: "'e sender \<Rightarrow> 'e operation" where
  "connect (Upstream_sender s) = Upstream_op s"
| "connect (Protect_sender up state) = protect_op_state (connect up) state"
| "connect (Check_sender up state) = check_op_state (connect up) state"
| "connect (Enforce_sender up pol inst) = enforce_op_state (connect up) pol inst"

text \<open>\<open>start\<close> starts the inner operation; its signal goes through the inner receiver.\<close>

definition protect_signal :: "nat \<Rightarrow> objects \<Rightarrow> 'e pipe_signal \<Rightarrow> (objects \<times> 'e pipe_signal) option" where
  "protect_signal state w s =
     (case s of
        Set_value msg \<Rightarrow> do {
          st \<leftarrow> obj_state w state;
          (st, s) \<leftarrow> protect_receiver st s;
          Some (w\<lparr>obj_state := (obj_state w)(state \<mapsto> st)\<rparr>, s)
        }
      | _ \<Rightarrow> Some (w, s))"

definition check_signal :: "nat \<Rightarrow> objects \<Rightarrow> 'e pipe_signal \<Rightarrow> (objects \<times> 'e pipe_signal) option" where
  "check_signal state w s =
     (case s of
        Set_value msg \<Rightarrow> do {
          st \<leftarrow> obj_state w state;
          (st, s) \<leftarrow> check_receiver st s;
          Some (w\<lparr>obj_state := (obj_state w)(state \<mapsto> st)\<rparr>, s)
        }
      | _ \<Rightarrow> Some (w, s))"

definition enforce_signal :: "nat \<Rightarrow> instance_id \<Rightarrow> objects \<Rightarrow> 'e pipe_signal \<Rightarrow> (objects \<times> 'e pipe_signal) option" where
  "enforce_signal pol inst w s =
     (case s of
        Set_value msg \<Rightarrow> do {
          p \<leftarrow> obj_policy w pol;
          s \<leftarrow> enforce_receiver \<lparr>enf_policy = p, enf_instance = inst\<rparr> s;
          Some (w, s)
        }
      | _ \<Rightarrow> Some (w, s))"

fun start :: "'e operation \<Rightarrow> objects \<Rightarrow> (objects \<times> 'e pipe_signal) option" where
  "start (Upstream_op s) w = Some (w, s)"
| "start (Protect_op state inner) w = do { (w, s) \<leftarrow> start inner w; protect_signal state w s }"
| "start (Check_op state inner) w = do { (w, s) \<leftarrow> start inner w; check_signal state w s }"
| "start (Enforce_op pol inst inner) w = do { (w, s) \<leftarrow> start inner w; enforce_signal pol inst w s }"

end
