(* ===== verification/Sender_Pipeline_Correct.thy ===== *)
theory Sender_Pipeline_Correct
  imports Sender_Pipeline E2E_Pipeline Security_Correct
begin

text \<open>
  A pipeline of adaptors is the composition of its receivers in the order they are written, and what the
  pipeline \<open>just (msg) | enforce (policy) | protect (state) | check (state)\<close> delivers of a stream of
  messages.
\<close>

section \<open>Pipelines\<close>

definition adaptor_signal :: "adaptor \<Rightarrow> objects \<Rightarrow> 'e pipe_signal \<Rightarrow> (objects \<times> 'e pipe_signal) option" where
  "adaptor_signal a =
     (case a of
        Protect_adaptor state \<Rightarrow> protect_signal state
      | Check_adaptor state \<Rightarrow> check_signal state
      | Enforce_adaptor pol inst \<Rightarrow> enforce_signal pol inst)"

fun signal_through :: "adaptor list \<Rightarrow> objects \<Rightarrow> 'e pipe_signal \<Rightarrow> (objects \<times> 'e pipe_signal) option" where
  "signal_through [] w s = Some (w, s)"
| "signal_through (a # as) w s = do { (w, s) \<leftarrow> adaptor_signal a w s; signal_through as w s }"

lemma start_pipe:
  "start (connect (pipe sender a)) w = do { (w, s) \<leftarrow> start (connect sender) w; adaptor_signal a w s }"
  by (cases a) (simp_all add: pipe_def protect_pipe_def check_pipe_def enforce_pipe_def protect_op_state_def
      check_op_state_def enforce_op_state_def adaptor_signal_def)

lemma start_pipes:
  "start (connect (foldl pipe sender as)) w = do { (w, s) \<leftarrow> start (connect sender) w; signal_through as w s }"
proof (induction as arbitrary: sender)
  case (Cons a as)
  show ?case by (cases "start (connect sender) w") (auto simp: Cons.IH start_pipe)
next
  case Nil
  show ?case by (cases "start (connect sender) w") auto
qed

text \<open>Messages sent one after the other, each through a pipeline of its own over the same objects.\<close>

fun run_pipeline :: "adaptor list \<Rightarrow> byte list list \<Rightarrow> objects \<Rightarrow> (objects \<times> 'e pipe_signal list) option" where
  "run_pipeline as [] w = Some (w, [])"
| "run_pipeline as (m # ms) w = do {
     (w, s) \<leftarrow> start (connect (foldl pipe (Upstream_sender (Set_value m)) as)) w;
     (w, ss) \<leftarrow> run_pipeline as ms w;
     Some (w, s # ss)
   }"

section \<open>Enforced streams\<close>

text \<open>The messages a policy lets through for an instance, and the error it gives for the others.\<close>

definition passes :: "policy \<Rightarrow> instance_id \<Rightarrow> byte list \<Rightarrow> bool" where
  "passes pol inst m \<longleftrightarrow> 16 \<le> length m \<and>
     is_allowed pol (Strong_id (u16_of (m ! 8) (m ! 9))) (Strong_id (u16_of (m ! 0) (m ! 1))) inst
       (Strong_id (u16_of (m ! 2) (m ! 3)))"

definition denial :: "byte list \<Rightarrow> 'e pipe_signal" where
  "denial m = Set_error (Upstream_exception (Inl
     (if length m < 16 then Security_error (Strong_id 0) (Strong_id 0) (Strong_id 0)
      else Security_error (Strong_id (u16_of (m ! 8) (m ! 9))) (Strong_id (u16_of (m ! 0) (m ! 1)))
        (Strong_id (u16_of (m ! 2) (m ! 3))))))"

lemma enforce_eq:
  "enforce_receiver \<lparr>enf_policy = pol, enf_instance = inst\<rparr> (Set_value m) =
     Some (if passes pol inst m then Set_value m else denial m)"
  by (simp add: passes_def denial_def enforce_receiver_def enforce_set_value_def header_size_def hdr_client_def
      hdr_service_def hdr_method_def wire_consts read_u16_be_nth Let_def)

lemma denial_through: "signal_through as w (denial m) = Some (w, denial m :: 'e pipe_signal)"
proof (induction as)
  case (Cons a as)
  then show ?case
    by (cases a) (auto simp: adaptor_signal_def denial_def protect_signal_def check_signal_def enforce_signal_def)
qed simp

text \<open>The two ends agree: the sender's next counter is one after the receiver's. They may be one object.\<close>

definition in_step :: "e2e_config \<Rightarrow> nat \<Rightarrow> nat \<Rightarrow> u32 \<Rightarrow> objects \<Rightarrow> bool" where
  "in_step cfg p q c w \<longleftrightarrow> (\<exists>st rt. obj_state w p = Some st \<and> obj_state w q = Some rt \<and>
     e2e_config st = cfg \<and> e2e_config rt = cfg \<and> send_counter st = c \<and>
     take_bit (e2e_bits cfg) (recv_counter rt) = take_bit (e2e_bits cfg) (c - 1))"

lemma bits_pos: "1 < (2 :: nat) ^ e2e_bits cfg"
  by (cases cfg) simp_all

lemma enforced_step:
  fixes w :: objects
  assumes "in_step cfg p q c w" "obj_policy w k = Some pol" "1 \<le> unat (e2e_max_delta cfg)"
    and "passes pol inst m \<longrightarrow> protectable cfg m"
  shows "\<exists>w' s. start (connect (foldl pipe (Upstream_sender (Set_value m)) [enforce k inst, e2e_protect p, e2e_check q])) w =
      Some (w', s :: 'e pipe_signal) \<and> obj_policy w' = obj_policy w \<and>
    in_step cfg p q (if passes pol inst m then c + 1 else c) w' \<and>
    (if passes pol inst m then \<exists>v. s = Set_value v \<and> protected_as cfg c m v else s = denial m)"
proof (cases "passes pol inst m")
  case False
  then show ?thesis
    using assms(1,2)
    unfolding start_pipes
    by (simp add: signal_through.simps(2) [of "Enforce_adaptor k inst"] enforce_def adaptor_signal_def enforce_signal_def
        enforce_eq denial_through del: signal_through.simps)
next
  case True
  with assms(4) have m: "protectable cfg m" by simp
  obtain st rt where st: "obj_state w p = Some st" "obj_state w q = Some rt" "e2e_config st = cfg"
    "e2e_config rt = cfg" "send_counter st = c"
    "take_bit (e2e_bits cfg) (recv_counter rt) = take_bit (e2e_bits cfg) (c - 1)"
    using assms(1) by (auto simp: in_step_def)
  obtain v where v: "protect_receiver st (Set_value m) =
      Some (st\<lparr>send_counter := c + 1\<rparr>, Set_value v :: 'e pipe_signal)" "protected_as cfg c m v"
    using protect_receiver_value [of st m] m st(3,5) by metis
  define rt1 where "rt1 = (if p = q then st\<lparr>send_counter := c + 1\<rparr> else rt)"
  have rt1: "e2e_config rt1 = cfg" "take_bit (e2e_bits cfg) (recv_counter rt1) = take_bit (e2e_bits cfg) (c - of_nat 1)"
    using st by (auto simp: rt1_def)
  have "check_receiver rt1 (Set_value v) =
    Some (rt1\<lparr>recv_counter := take_bit (e2e_bits cfg) c\<rparr>, Set_value v :: 'e pipe_signal)"
    using check_receiver_value [of rt1 c m v 1] v(2) rt1 assms(3) bits_pos [of cfg] by simp
  with rt1_def have check: "check_receiver (if q = p then st\<lparr>send_counter := c + 1\<rparr> else rt) (Set_value v) =
    Some (rt1\<lparr>recv_counter := take_bit (e2e_bits cfg) c\<rparr>, Set_value v :: 'e pipe_signal)" by (auto split: if_splits)
  define w' where "w' = w\<lparr>obj_state := (obj_state w)(p \<mapsto> st\<lparr>send_counter := c + 1\<rparr>,
    q \<mapsto> rt1\<lparr>recv_counter := take_bit (e2e_bits cfg) c\<rparr>)\<rparr>"
  have "in_step cfg p q (c + 1) w'"
    using st rt1(1) by (auto simp: in_step_def w'_def rt1_def)
  moreover have "signal_through [enforce k inst, e2e_protect p, e2e_check q] w (Set_value m) =
      Some (w', Set_value v :: 'e pipe_signal)"
    using True v(1) st(1,2) check
    by (cases "q = p") (simp_all add: enforce_def e2e_protect_def e2e_check_def adaptor_signal_def enforce_signal_def
        enforce_eq assms(2) protect_signal_def check_signal_def w'_def)
  moreover have "obj_policy w' = obj_policy w" by (simp add: w'_def)
  ultimately show ?thesis
    unfolding start_pipes using True v(2) by simp
qed

lemma run_pipeline_enforced:
  "in_step cfg p q c w \<Longrightarrow> obj_policy w k = Some pol \<Longrightarrow> 1 \<le> unat (e2e_max_delta cfg) \<Longrightarrow>
    \<forall>m \<in> set ms. passes pol inst m \<longrightarrow> protectable cfg m \<Longrightarrow>
    \<exists>w' ss. run_pipeline [enforce k inst, e2e_protect p, e2e_check q] ms w = Some (w', ss :: 'e pipe_signal list) \<and>
      length ss = length ms \<and> in_step cfg p q (c + of_nat (length (filter (passes pol inst) ms))) w' \<and>
      (\<forall>i < length ms. if passes pol inst (ms ! i)
         then \<exists>v. ss ! i = Set_value v \<and>
           protected_as cfg (c + of_nat (length (filter (passes pol inst) (take i ms)))) (ms ! i) v
         else ss ! i = denial (ms ! i))"
proof (induction ms arbitrary: c w)
  case (Cons m ms)
  from enforced_step [OF Cons.prems(1-3), of inst m] Cons.prems(4) obtain w1 s where 1:
    "start (connect (foldl pipe (Upstream_sender (Set_value m)) [enforce k inst, e2e_protect p, e2e_check q])) w =
      Some (w1, s :: 'e pipe_signal)" "obj_policy w1 = obj_policy w"
    "in_step cfg p q (if passes pol inst m then c + 1 else c) w1"
    "if passes pol inst m then \<exists>v. s = Set_value v \<and> protected_as cfg c m v else s = denial m" by auto
  from Cons.IH [OF 1(3)] Cons.prems(2-4) 1(2) obtain w2 ss where 2:
    "run_pipeline [enforce k inst, e2e_protect p, e2e_check q] ms w1 = Some (w2, ss :: 'e pipe_signal list)"
    "length ss = length ms"
    "in_step cfg p q ((if passes pol inst m then c + 1 else c) + of_nat (length (filter (passes pol inst) ms))) w2"
    "\<forall>i < length ms. if passes pol inst (ms ! i)
         then \<exists>v. ss ! i = Set_value v \<and> protected_as cfg ((if passes pol inst m then c + 1 else c) +
           of_nat (length (filter (passes pol inst) (take i ms)))) (ms ! i) v
         else ss ! i = denial (ms ! i)" by auto
  have "if passes pol inst ((m # ms) ! i)
         then \<exists>v. (s # ss) ! i = Set_value v \<and>
           protected_as cfg (c + of_nat (length (filter (passes pol inst) (take i (m # ms))))) ((m # ms) ! i) v
         else (s # ss) ! i = denial ((m # ms) ! i)" if "i < length (m # ms)" for i
    using that 1(4) 2(4) by (cases i) (auto simp: add.assoc split: if_splits)
  with 1(1) 2(1-3) show ?case
    by (intro exI [of _ w2] exI [of _ "s # ss"]) (auto simp: add.assoc)
qed simp

text \<open>
  C28. A stream of messages through \<open>just (msg) | enforce (policy) | protect (state) | check (state)\<close>, with one
  protection state at both ends or two, in step at the start. Every message the policy allows comes out,
  protected under the next counter and accepted by the check; every other one ends in the security error with
  its client, service and method, and uses no counter, so that denied messages never make an allowed one fail.
\<close>

theorem enforced_stream_stays_in_step:
  assumes "obj_state w p = Some st" "obj_state w q = Some rt" "obj_policy w k = Some pol"
    and "e2e_config st = cfg" "e2e_config rt = cfg" "1 \<le> unat (e2e_max_delta cfg)"
    and "take_bit (e2e_bits cfg) (recv_counter rt) = take_bit (e2e_bits cfg) (send_counter st - 1)"
    and "\<forall>m \<in> set ms. passes pol inst m \<longrightarrow> protectable cfg m"
  shows "\<exists>w' ss. run_pipeline [enforce k inst, e2e_protect p, e2e_check q] ms w = Some (w', ss :: 'e pipe_signal list) \<and>
    length ss = length ms \<and>
    (\<forall>i < length ms. if passes pol inst (ms ! i)
       then \<exists>v. ss ! i = Set_value v \<and>
         protected_as cfg (send_counter st + of_nat (length (filter (passes pol inst) (take i ms)))) (ms ! i) v
       else ss ! i = denial (ms ! i)) \<and>
    map_option send_counter (obj_state w' p) = Some (send_counter st + of_nat (length (filter (passes pol inst) ms)))"
proof -
  have "in_step cfg p q (send_counter st) w" using assms by (auto simp: in_step_def)
  from run_pipeline_enforced [OF this assms(3,6,8)] show ?thesis
    by (fastforce simp: in_step_def)
qed

definition example_objects :: objects where
  "example_objects = \<lparr>obj_state = [0 \<mapsto> e2e_state_init (P04 profile_04_default)],
     obj_policy = [0 \<mapsto> policy_add policy_empty allow_all]\<rparr>"

lemma enforced_stream_stays_in_step_witness:
  "\<exists>w' ss v. run_pipeline [enforce 0 (Strong_id 1), e2e_protect 0, e2e_check 0] [[1, 2], replicate 30 7] example_objects =
    Some (w', ss :: unit pipe_signal list) \<and> ss ! 0 = denial [1, 2] \<and> ss ! 1 = Set_value v \<and>
    protected_as (P04 profile_04_default) 1 (replicate 30 7) v"
proof -
  let ?pol = "policy_add policy_empty allow_all"
  have p: "passes ?pol (Strong_id 1) (replicate 30 7)" "\<not> passes ?pol (Strong_id 1) [1, 2]"
    by (simp_all add: passes_def is_allowed_def evaluate_def policy_add_def policy_empty_def matches_all)
      (simp add: allow_all_def)
  let ?cfg = "P04 profile_04_default" and ?ms = "[[1, 2], replicate 30 7] :: byte list list"
  have hyps: "obj_state example_objects 0 = Some (e2e_state_init ?cfg)" "obj_policy example_objects 0 = Some ?pol"
    "e2e_config (e2e_state_init ?cfg) = ?cfg" "1 \<le> unat (e2e_max_delta ?cfg)"
    "take_bit (e2e_bits ?cfg) (recv_counter (e2e_state_init ?cfg)) =
       take_bit (e2e_bits ?cfg) (send_counter (e2e_state_init ?cfg) - 1)"
    "\<forall>m \<in> set ?ms. passes ?pol (Strong_id 1) m \<longrightarrow> protectable ?cfg m"
    using p by (simp_all add: example_objects_def e2e_state_init_def profile_04_default_def protectable_def)
  obtain w' and ss :: "unit pipe_signal list" where r:
    "run_pipeline [enforce 0 (Strong_id 1), e2e_protect 0, e2e_check 0] ?ms example_objects = Some (w', ss)"
    "\<forall>i < length ?ms. if passes ?pol (Strong_id 1) (?ms ! i)
       then \<exists>v. ss ! i = Set_value v \<and> protected_as ?cfg (send_counter (e2e_state_init ?cfg) +
         of_nat (length (filter (passes ?pol (Strong_id 1)) (take i ?ms)))) (?ms ! i) v
       else ss ! i = denial (?ms ! i)"
    using enforced_stream_stays_in_step [where 'e = unit, OF hyps(1,1,2,3,3,4,5,6)] by blast
  have "ss ! 0 = denial [1, 2]" using r(2) [rule_format, of 0] p by simp
  moreover obtain v where "ss ! 1 = Set_value v" "protected_as ?cfg 1 (replicate 30 7) v"
    using r(2) [rule_format, of 1] p by (auto simp: e2e_state_init_def)
  ultimately show ?thesis using r(1) by blast
qed

section \<open>Enforcing after protecting\<close>

lemma protected_header:
  assumes "protected_as cfg c m v"
  shows "passes pol inst v = passes pol inst m" "denial v = (denial m :: 'e pipe_signal)"
  using assms by (auto simp: protected_as_def passes_def denial_def header_bytes_def be16_def be32_def nth_append)

text \<open>The receiver is \<open>n\<close> messages behind.\<close>

definition lagging :: "e2e_config \<Rightarrow> nat \<Rightarrow> nat \<Rightarrow> u32 \<Rightarrow> nat \<Rightarrow> objects \<Rightarrow> bool" where
  "lagging cfg p q c n w \<longleftrightarrow> p \<noteq> q \<and> (\<exists>st rt. obj_state w p = Some st \<and> obj_state w q = Some rt \<and>
     e2e_config st = cfg \<and> e2e_config rt = cfg \<and> send_counter st = c \<and>
     take_bit (e2e_bits cfg) (recv_counter rt) = take_bit (e2e_bits cfg) (c - of_nat (Suc n)))"

lemma late_step:
  fixes w :: objects
  assumes "lagging cfg p q c n w" "obj_policy w k = Some pol" "protectable cfg m" "Suc n < 2 ^ e2e_bits cfg"
  shows "\<exists>w' s v. start (connect (foldl pipe (Upstream_sender (Set_value m)) [e2e_protect p, enforce k inst, e2e_check q])) w =
      Some (w', s :: 'e pipe_signal) \<and> obj_policy w' = obj_policy w \<and> protected_as cfg c m v \<and>
    (if passes pol inst m
     then s = (if Suc n \<le> unat (e2e_max_delta cfg) then Set_value v
       else Set_error (E2e_error_exception Wrong_sequence)) \<and> lagging cfg p q (c + 1) 0 w'
     else s = denial m \<and> lagging cfg p q (c + 1) (Suc n) w')"
proof -
  obtain st rt where st: "p \<noteq> q" "obj_state w p = Some st" "obj_state w q = Some rt" "e2e_config st = cfg"
    "e2e_config rt = cfg" "send_counter st = c"
    "take_bit (e2e_bits cfg) (recv_counter rt) = take_bit (e2e_bits cfg) (c - of_nat (Suc n))"
    using assms(1) by (auto simp: lagging_def)
  obtain v where v: "protect_receiver st (Set_value m) =
      Some (st\<lparr>send_counter := c + 1\<rparr>, Set_value v :: 'e pipe_signal)" "protected_as cfg c m v"
    using protect_receiver_value [of st m] assms(3) st(4,6) by metis
  define w1 where "w1 = w\<lparr>obj_state := (obj_state w)(p \<mapsto> st\<lparr>send_counter := c + 1\<rparr>)\<rparr>"
  have first: "signal_through [e2e_protect p, enforce k inst, e2e_check q] w (Set_value m) =
      signal_through [e2e_check q] w1 (if passes pol inst m then Set_value v else denial m :: 'e pipe_signal)"
    using st(2) v(1)
    by (simp add: protected_header [OF v(2)] e2e_protect_def enforce_def adaptor_signal_def protect_signal_def enforce_signal_def enforce_eq
        assms(2) w1_def)
  have lag: "take_bit (e2e_bits cfg) (recv_counter rt) = take_bit (e2e_bits cfg) (c + 1 - of_nat (Suc (Suc n)))"
    using st(7) by (simp add: algebra_simps)
  show ?thesis
  proof (cases "passes pol inst m")
    case False
    then have "signal_through [e2e_protect p, enforce k inst, e2e_check q] w (Set_value m) = Some (w1, denial m :: 'e pipe_signal)"
      by (simp only: first denial_through if_False)
    moreover have "lagging cfg p q (c + 1) (Suc n) w1"
      using st lag by (auto simp: lagging_def w1_def)
    ultimately show ?thesis
      unfolding start_pipes using False v(2) by (auto simp: w1_def)
  next
    case True
    define w2 where "w2 = w1\<lparr>obj_state := (obj_state w1)(q \<mapsto> rt\<lparr>recv_counter := take_bit (e2e_bits cfg) c\<rparr>)\<rparr>"
    let ?s = "if Suc n \<le> unat (e2e_max_delta cfg) then Set_value v
       else Set_error (E2e_error_exception Wrong_sequence) :: 'e pipe_signal"
    have "check_receiver rt (Set_value v) = Some (rt\<lparr>recv_counter := take_bit (e2e_bits cfg) c\<rparr>, ?s)"
      using check_receiver_value [of rt c m v "Suc n"] v(2) st(5,7) assms(4) by simp
    then have "signal_through [e2e_protect p, enforce k inst, e2e_check q] w (Set_value m) = Some (w2, ?s)"
      unfolding first using True st(1,3)
      by (simp add: e2e_check_def adaptor_signal_def check_signal_def w1_def w2_def)
    moreover have "lagging cfg p q (c + 1) 0 w2"
      using st by (auto simp: lagging_def w1_def w2_def)
    ultimately show ?thesis
      unfolding start_pipes using True v(2) by (auto simp: w1_def w2_def)
  qed
qed

lemma late_denials:
  "lagging cfg p q c n w \<Longrightarrow> obj_policy w k = Some pol \<Longrightarrow> n + length ms < 2 ^ e2e_bits cfg \<Longrightarrow>
    \<forall>m \<in> set ms. protectable cfg m \<and> \<not> passes pol inst m \<Longrightarrow>
    \<exists>w'. run_pipeline [e2e_protect p, enforce k inst, e2e_check q] ms w = Some (w', map denial ms :: 'e pipe_signal list) \<and>
      lagging cfg p q (c + of_nat (length ms)) (n + length ms) w' \<and> obj_policy w' = obj_policy w"
proof (induction ms arbitrary: c n w)
  case (Cons m ms)
  from late_step [OF Cons.prems(1,2), of m inst] Cons.prems(3,4) obtain w1 where 1:
    "start (connect (foldl pipe (Upstream_sender (Set_value m)) [e2e_protect p, enforce k inst, e2e_check q])) w =
      Some (w1, denial m :: 'e pipe_signal)" "obj_policy w1 = obj_policy w" "lagging cfg p q (c + 1) (Suc n) w1" by auto
  from Cons.IH [OF 1(3)] Cons.prems(2-4) 1(2) obtain w2 where
    "run_pipeline [e2e_protect p, enforce k inst, e2e_check q] ms w1 = Some (w2, map denial ms :: 'e pipe_signal list)"
    "lagging cfg p q (c + 1 + of_nat (length ms)) (Suc n + length ms) w2" "obj_policy w2 = obj_policy w1" by auto
  with 1 show ?case by (auto simp: add.assoc)
qed simp

lemma run_pipeline_append:
  "run_pipeline as (ms @ ms') w = do {
     (w, ss) \<leftarrow> run_pipeline as ms w; (w, ss') \<leftarrow> run_pipeline as ms' w; Some (w, ss @ ss') }"
  by (induction ms arbitrary: w) (auto split: bind_splits prod.splits)

text \<open>
  The order of the adaptors matters: in \<open>just (msg) | protect (state) | enforce (policy) | check (state)\<close>
  every denied message has already used a counter. After \<open>n\<close> denied messages in a row an allowed one is
  delivered if \<open>n\<close> is less than the largest accepted step, and fails with \<open>Wrong_sequence\<close> otherwise - with the default
  step of 1 after a single denial.
\<close>

theorem protecting_first_loses_step:
  assumes "obj_state w p = Some st" "obj_state w q = Some rt" "p \<noteq> q" "obj_policy w k = Some pol"
    and "e2e_config st = cfg" "e2e_config rt = cfg"
    and "take_bit (e2e_bits cfg) (recv_counter rt) = take_bit (e2e_bits cfg) (send_counter st - 1)"
    and "\<forall>m \<in> set ms. protectable cfg m \<and> \<not> passes pol inst m" "protectable cfg m" "passes pol inst m"
    and "Suc (length ms) < 2 ^ e2e_bits cfg"
  shows "\<exists>w' s v. run_pipeline [e2e_protect p, enforce k inst, e2e_check q] (ms @ [m]) w =
      Some (w', map denial ms @ [s] :: 'e pipe_signal list) \<and>
    protected_as cfg (send_counter st + of_nat (length ms)) m v \<and>
    s = (if length ms < unat (e2e_max_delta cfg) then Set_value v else Set_error (E2e_error_exception Wrong_sequence))"
proof -
  have "lagging cfg p q (send_counter st) 0 w" using assms by (auto simp: lagging_def)
  from late_denials [where 'e = 'e, OF this assms(4), of ms inst] assms(8,11) obtain w1 where 1:
    "run_pipeline [e2e_protect p, enforce k inst, e2e_check q] ms w = Some (w1, map denial ms :: 'e pipe_signal list)"
    "lagging cfg p q (send_counter st + of_nat (length ms)) (length ms) w1" "obj_policy w1 k = Some pol"
    using assms(4) by auto
  from late_step [where 'e = 'e, OF 1(2,3) assms(9,11), of inst] assms(10) 1(1) show ?thesis
    by (auto simp: run_pipeline_append Suc_le_eq)
qed

definition partial_policy :: policy where
  "partial_policy = policy_add (policy_add policy_empty (allow_all\<lparr>rule_service := Strong_id 0x0909, rule_act := Deny\<rparr>)) allow_all"

definition two_ends :: objects where
  "two_ends = \<lparr>obj_state = [0 \<mapsto> e2e_state_init (P04 profile_04_default), 1 \<mapsto> e2e_state_init (P04 profile_04_default)],
     obj_policy = [0 \<mapsto> partial_policy]\<rparr>"

lemma protecting_first_loses_step_witness:
  "\<exists>w'. run_pipeline [e2e_protect 0, enforce 0 (Strong_id 1), e2e_check 1] [replicate 30 9, replicate 30 7] two_ends =
    Some (w', [denial (replicate 30 9), Set_error (E2e_error_exception Wrong_sequence)] :: unit pipe_signal list)"
proof -
  let ?cfg = "P04 profile_04_default"
  have p: "passes partial_policy (Strong_id 1) (replicate 30 7)" "\<not> passes partial_policy (Strong_id 1) (replicate 30 9)"
    by (simp_all add: passes_def is_allowed_def evaluate_def partial_policy_def policy_add_def policy_empty_def
        rule_matches_def allow_all_def any_client_def any_service_def any_instance_def any_method_def u16_of_def)
  have "protectable ?cfg (replicate 30 7)" "\<forall>m \<in> set [replicate 30 9]. protectable ?cfg m \<and> \<not> passes partial_policy (Strong_id 1) m"
    using p by (simp_all add: protectable_def)
  with protecting_first_loses_step [where 'e = unit, of two_ends 0 "e2e_state_init ?cfg" 1 "e2e_state_init ?cfg" 0
      partial_policy ?cfg "[replicate 30 9]" "Strong_id 1" "replicate 30 7"] p(1)
  show ?thesis by (simp add: two_ends_def e2e_state_init_def profile_04_default_def)
qed

end
