(* ===== verification/Bench_Reference.thy ===== *)
theory Bench_Reference
  imports Wire_Codec "HOL-Library.AList"
begin

text \<open>
  \<open>bench/bench_vs_vsomeip.cpp\<close>: the second implementation of the wire format the repository carries,
  \<open>vsomeip_equiv\<close>, against which the benchmark compares the library. It goes through the object
  representation of integers and decides the byte order of the host at run time, so the host is an
  argument here: \<open>le\<close> says whether it is little-endian. A returned \<open>false\<close> is an inner \<^term>\<open>None\<close>,
  undefined behaviour an outer one.
\<close>

section \<open>Object representation\<close>

definition mem16 :: "bool \<Rightarrow> u16 \<Rightarrow> byte list" where
  "mem16 le v = (if le then rev (be16 v) else be16 v)"

definition mem32 :: "bool \<Rightarrow> u32 \<Rightarrow> byte list" where
  "mem32 le v = (if le then rev (be32 v) else be32 v)"

definition mem64 :: "bool \<Rightarrow> u64 \<Rightarrow> byte list" where
  "mem64 le v = (if le then rev (be64 v) else be64 v)"

text \<open>\<open>memcpy\<close> into an integer\<close>

definition of_mem16 :: "bool \<Rightarrow> byte \<Rightarrow> byte \<Rightarrow> u16" where
  "of_mem16 le b0 b1 = (if le then u16_of b1 b0 else u16_of b0 b1)"

definition of_mem32 :: "bool \<Rightarrow> byte \<Rightarrow> byte \<Rightarrow> byte \<Rightarrow> byte \<Rightarrow> u32" where
  "of_mem32 le b0 b1 b2 b3 = (if le then u32_of b3 b2 b1 b0 else u32_of b0 b1 b2 b3)"

definition of_mem64 :: "bool \<Rightarrow> byte list \<Rightarrow> u64" where
  "of_mem64 le b =
     (if le then u64_of (u32_of (b ! 7) (b ! 6) (b ! 5) (b ! 4)) (u32_of (b ! 3) (b ! 2) (b ! 1) (b ! 0))
      else u64_of (u32_of (b ! 0) (b ! 1) (b ! 2) (b ! 3)) (u32_of (b ! 4) (b ! 5) (b ! 6) (b ! 7)))"

definition is_little_endian :: "bool \<Rightarrow> bool" where
  "is_little_endian le = (mem16 le 1 ! 0 = 1)"

text \<open>Shifts of a 16-bit value are computed in \<open>int\<close>.\<close>

definition swap16 :: "u16 \<Rightarrow> u16" where
  "swap16 v = ucast (drop_bit 8 (ucast v :: u32) OR push_bit 8 (ucast v :: u32))"

definition swap32 :: "u32 \<Rightarrow> u32" where
  "swap32 v = (drop_bit 24 v AND 0xFF) OR (drop_bit 8 v AND 0xFF00) OR
     (push_bit 8 v AND 0xFF0000) OR (push_bit 24 v AND 0xFF000000)"

definition swap64 :: "u64 \<Rightarrow> u64" where
  "swap64 v = push_bit 32 (ucast (swap32 (ucast v))) OR ucast (swap32 (ucast (drop_bit 32 v)))"

section \<open>serializer\<close>

record serializer =
  ser_data :: "byte list"
  shrink_count :: u32
  ser_threshold :: u32

definition ser_make :: "u32 \<Rightarrow> serializer" where
  "ser_make shrink_threshold = \<lparr>ser_data = [], shrink_count = 0, ser_threshold = shrink_threshold\<rparr>"

definition push_back :: "serializer \<Rightarrow> byte \<Rightarrow> serializer" where
  "push_back s b = s\<lparr>ser_data := ser_data s @ [b]\<rparr>"

definition ser_u8 :: "serializer \<Rightarrow> u8 \<Rightarrow> serializer" where
  "ser_u8 s v = push_back s v"

definition ser_u16 :: "bool \<Rightarrow> serializer \<Rightarrow> u16 \<Rightarrow> serializer" where
  "ser_u16 le s v =
     (let v = (if is_little_endian le then swap16 v else v);
          p = mem16 le v
      in push_back (push_back s (p ! 0)) (p ! 1))"

definition ser_u32 :: "bool \<Rightarrow> serializer \<Rightarrow> u32 \<Rightarrow> bool \<Rightarrow> serializer" where
  "ser_u32 le s v omit_last =
     (let v = (if is_little_endian le then swap32 v else v);
          p = mem32 le v;
          s = (if \<not> omit_last then push_back s (p ! 0) else s)
      in push_back (push_back (push_back s (p ! 1)) (p ! 2)) (p ! 3))"

text \<open>A signed integer is its two's complement word, a float its bits.\<close>

definition ser_i32 :: "bool \<Rightarrow> serializer \<Rightarrow> u32 \<Rightarrow> serializer" where
  "ser_i32 le s v = ser_u32 le s v False"

definition ser_bytes :: "serializer \<Rightarrow> byte list \<Rightarrow> serializer" where
  "ser_bytes s data = s\<lparr>ser_data := ser_data s @ data\<rparr>"

definition ser_f32 :: "bool \<Rightarrow> serializer \<Rightarrow> u32 \<Rightarrow> serializer" where
  "ser_f32 le s bits = ser_u32 le s bits False"

definition ser_u64 :: "bool \<Rightarrow> serializer \<Rightarrow> u64 \<Rightarrow> serializer" where
  "ser_u64 le s v =
     (let v = (if is_little_endian le then swap64 v else v);
          p = mem64 le v
      in foldl (\<lambda>s i. push_back s (p ! i)) s [0, 1, 2, 3, 4, 5, 6, 7])"

definition ser_get_size :: "serializer \<Rightarrow> u32" where
  "ser_get_size s = of_nat (length (ser_data s))"

text \<open>\<open>reset\<close>; the capacity of the vector is the library's.\<close>

definition ser_reset :: "nat \<Rightarrow> serializer \<Rightarrow> serializer" where
  "ser_reset capacity s =
     (let s = (if ser_threshold s \<noteq> 0
               then (if length (ser_data s) < drop_bit 1 capacity
                     then s\<lparr>shrink_count := shrink_count s + 1\<rparr> else s\<lparr>shrink_count := 0\<rparr>)
               else s);
          s = s\<lparr>ser_data := []\<rparr>
      in if ser_threshold s \<noteq> 0 \<and> ser_threshold s < shrink_count s then s\<lparr>shrink_count := 0\<rparr> else s)"

section \<open>deserializer\<close>

record deserializer =
  des_data :: "byte list"
  des_position :: nat
  des_remaining :: nat

definition des_make :: "byte list \<Rightarrow> deserializer" where
  "des_make data = \<lparr>des_data = data, des_position = 0, des_remaining = length data\<rparr>"

text \<open>\<open>*position_++\<close>, \<open>n\<close> times, and the bookkeeping of the callers\<close>

definition des_next :: "deserializer \<Rightarrow> nat \<Rightarrow> (deserializer \<times> byte list) option" where
  "des_next d n = do {
     bs \<leftarrow> subspan (des_data d) (des_position d) n;
     Some (d\<lparr>des_position := des_position d + n, des_remaining := des_remaining d - n\<rparr>, bs)
   }"

definition des_u8 :: "deserializer \<Rightarrow> (deserializer \<times> u8 option) option" where
  "des_u8 d =
     (if des_remaining d = 0 then Some (d, None)
      else do { (d, b) \<leftarrow> des_next d 1; Some (d, Some (b ! 0)) })"

definition des_u16 :: "bool \<Rightarrow> deserializer \<Rightarrow> (deserializer \<times> u16 option) option" where
  "des_u16 le d =
     (if des_remaining d < 2 then Some (d, None)
      else do {
        (d, b) \<leftarrow> des_next d 2;
        let v = of_mem16 le (b ! 0) (b ! 1);
        Some (d, Some (if is_little_endian le then swap16 v else v))
      })"

definition des_u32 :: "bool \<Rightarrow> deserializer \<Rightarrow> (deserializer \<times> u32 option) option" where
  "des_u32 le d =
     (if des_remaining d < 4 then Some (d, None)
      else do {
        (d, b) \<leftarrow> des_next d 4;
        let v = of_mem32 le (b ! 0) (b ! 1) (b ! 2) (b ! 3);
        Some (d, Some (if is_little_endian le then swap32 v else v))
      })"

definition des_i32 :: "bool \<Rightarrow> deserializer \<Rightarrow> (deserializer \<times> u32 option) option" where
  "des_i32 le d = des_u32 le d"

definition des_f32 :: "bool \<Rightarrow> deserializer \<Rightarrow> (deserializer \<times> u32 option) option" where
  "des_f32 le d = des_u32 le d"

definition des_u64 :: "bool \<Rightarrow> deserializer \<Rightarrow> (deserializer \<times> u64 option) option" where
  "des_u64 le d =
     (if des_remaining d < 8 then Some (d, None)
      else do {
        (d, b) \<leftarrow> des_next d 8;
        let v = of_mem64 le b;
        Some (d, Some (if is_little_endian le then swap64 v else v))
      })"

definition des_get_remaining :: "deserializer \<Rightarrow> nat" where
  "des_get_remaining d = des_remaining d"

section \<open>message\<close>

text \<open>The payload is behind a shared pointer, which may be null.\<close>

record ref_message =
  rm_service_id :: u16
  rm_method_id :: u16
  rm_length :: u32
  rm_client_id :: u16
  rm_session_id :: u16
  rm_proto_ver :: u8
  rm_iface_ver :: u8
  rm_msg_type :: u8
  rm_ret_code :: u8
  rm_payload :: "byte list option"

definition ref_message_make :: ref_message where
  "ref_message_make =
     \<lparr>rm_service_id = 0, rm_method_id = 0, rm_length = 0, rm_client_id = 0, rm_session_id = 0,
      rm_proto_ver = 1, rm_iface_ver = 0, rm_msg_type = 0, rm_ret_code = 0, rm_payload = Some []\<rparr>"

definition ref_get_length :: "byte list \<Rightarrow> u32" where
  "ref_get_length p = of_nat (length p)"

definition ref_set_data :: "byte list \<Rightarrow> byte list \<Rightarrow> byte list" where
  "ref_set_data p d = d"

definition serialize_to :: "bool \<Rightarrow> ref_message \<Rightarrow> serializer \<Rightarrow> serializer" where
  "serialize_to le m s =
     (let s = ser_u16 le s (rm_service_id m);
          s = ser_u16 le s (rm_method_id m);
          s = ser_u32 le s (rm_length m) False;
          s = ser_u16 le s (rm_client_id m);
          s = ser_u16 le s (rm_session_id m);
          s = ser_u8 s (rm_proto_ver m);
          s = ser_u8 s (rm_iface_ver m);
          s = ser_u8 s (rm_msg_type m);
          s = ser_u8 s (rm_ret_code m)
      in case rm_payload m of
           None \<Rightarrow> s
         | Some p \<Rightarrow> if 0 < ref_get_length p then ser_bytes s (take (unat (ref_get_length p)) p) else s)"

text \<open>A field that cannot be read keeps its value; the results of the reads are ignored.\<close>

definition keep :: "'v \<Rightarrow> 'v option \<Rightarrow> 'v" where
  "keep old v = (case v of Some x \<Rightarrow> x | None \<Rightarrow> old)"

definition deserialize_from :: "bool \<Rightarrow> ref_message \<Rightarrow> deserializer \<Rightarrow> (ref_message \<times> deserializer) option" where
  "deserialize_from le m d = do {
     (d, v) \<leftarrow> des_u16 le d;
     let m = m\<lparr>rm_service_id := keep (rm_service_id m) v\<rparr>;
     (d, v) \<leftarrow> des_u16 le d;
     let m = m\<lparr>rm_method_id := keep (rm_method_id m) v\<rparr>;
     (d, v) \<leftarrow> des_u32 le d;
     let m = m\<lparr>rm_length := keep (rm_length m) v\<rparr>;
     (d, v) \<leftarrow> des_u16 le d;
     let m = m\<lparr>rm_client_id := keep (rm_client_id m) v\<rparr>;
     (d, v) \<leftarrow> des_u16 le d;
     let m = m\<lparr>rm_session_id := keep (rm_session_id m) v\<rparr>;
     (d, v) \<leftarrow> des_u8 d;
     let m = m\<lparr>rm_proto_ver := keep (rm_proto_ver m) v\<rparr>;
     (d, v) \<leftarrow> des_u8 d;
     let m = m\<lparr>rm_iface_ver := keep (rm_iface_ver m) v\<rparr>;
     (d, v) \<leftarrow> des_u8 d;
     let m = m\<lparr>rm_msg_type := keep (rm_msg_type m) v\<rparr>;
     (d, v) \<leftarrow> des_u8 d;
     let m = m\<lparr>rm_ret_code := keep (rm_ret_code m) v\<rparr>;
     Some (m, d)
   }"

section \<open>routing_manager\<close>

text \<open>An unordered map from keys to handlers; \<open>dispatch\<close> returns the call it makes.\<close>

definition ref_register :: "u32 \<Rightarrow> 'h \<Rightarrow> (u32 \<times> 'h) list \<Rightarrow> (u32 \<times> 'h) list" where
  "ref_register key h handlers = AList.update key h handlers"

definition ref_dispatch :: "(u32 \<times> 'h) list \<Rightarrow> u32 \<Rightarrow> 'm \<Rightarrow> bool \<times> ('h \<times> 'm) list" where
  "ref_dispatch handlers key msg =
     (case map_of handlers key of Some h \<Rightarrow> (True, [(h, msg)]) | None \<Rightarrow> (False, []))"

section \<open>Members\<close>

text \<open>The overload a member of an aggregate selects; \<^term>\<open>None\<close> where there is none.\<close>

fun ser_member :: "bool \<Rightarrow> serializer \<Rightarrow> codec_value \<Rightarrow> serializer option" where
  "ser_member le s (V_u8 v) = Some (ser_u8 s v)"
| "ser_member le s (V_u16 v) = Some (ser_u16 le s v)"
| "ser_member le s (V_u32 v) = Some (ser_u32 le s v False)"
| "ser_member le s (V_i32 v) = Some (ser_i32 le s v)"
| "ser_member le s (V_f32 v) = Some (ser_f32 le s v)"
| "ser_member le s (V_u64 v) = Some (ser_u64 le s v)"
| "ser_member le s (V_bytes bs) = Some (ser_bytes s bs)"
| "ser_member le s _ = None"

fun ser_members :: "bool \<Rightarrow> serializer \<Rightarrow> codec_value list \<Rightarrow> serializer option" where
  "ser_members le s [] = Some s"
| "ser_members le s (v # vs) = do { s \<leftarrow> ser_member le s v; ser_members le s vs }"

fun des_member :: "bool \<Rightarrow> deserializer \<Rightarrow> codec_type \<Rightarrow> (deserializer \<times> codec_value option) option" where
  "des_member le d T_u8 = do { (d, v) \<leftarrow> des_u8 d; Some (d, map_option V_u8 v) }"
| "des_member le d T_u16 = do { (d, v) \<leftarrow> des_u16 le d; Some (d, map_option V_u16 v) }"
| "des_member le d T_u32 = do { (d, v) \<leftarrow> des_u32 le d; Some (d, map_option V_u32 v) }"
| "des_member le d T_i32 = do { (d, v) \<leftarrow> des_i32 le d; Some (d, map_option V_i32 v) }"
| "des_member le d T_f32 = do { (d, v) \<leftarrow> des_f32 le d; Some (d, map_option V_f32 v) }"
| "des_member le d T_u64 = do { (d, v) \<leftarrow> des_u64 le d; Some (d, map_option V_u64 v) }"
| "des_member le d _ = None"

text \<open>Reading an aggregate member by member: what each read returned.\<close>

fun des_members :: "bool \<Rightarrow> deserializer \<Rightarrow> codec_type list \<Rightarrow> (deserializer \<times> codec_value option list) option" where
  "des_members le d [] = Some (d, [])"
| "des_members le d (t # ts) = do {
     (d, v) \<leftarrow> des_member le d t;
     (d, vs) \<leftarrow> des_members le d ts;
     Some (d, v # vs)
   }"

end
