(* ===== verification/Bench_Workloads.thy ===== *)
theory Bench_Workloads
  imports Api_Service Bench_Reference
begin

text \<open>
  \<open>bench/bench_comm.cpp\<close> and the two sides of each comparison of \<open>bench/bench_vs_vsomeip.cpp\<close>: the workloads
  the repository measures, without the clock and the printing. An iteration is a function on the state
  its lambda captures. Floating-point constants are their bits, and \<open>cap\<close> is the capacity of a vector.
\<close>

section \<open>Harness\<close>

text \<open>A run that may end with an exception. Nothing catches one: it ends the program.\<close>

type_synonym ('x, 's) outcome = "('x + 's) run"

definition bind_outcome :: "('x, 's) outcome \<Rightarrow> ('s \<Rightarrow> ('x, 't) outcome) \<Rightarrow> ('x, 't) outcome" where
  "bind_outcome x f = bind_run x (\<lambda>r. case r of Inl e \<Rightarrow> Done (Inl e) | Inr s \<Rightarrow> f s)"

lemma bind_outcome_simps [simp]:
  "bind_outcome (Done (Inr s)) f = f s" "bind_outcome (Done (Inl e)) f = Done (Inl e)"
  by (simp_all add: bind_outcome_def bind_run_def)

fun bench_loop :: "nat \<Rightarrow> ('s \<Rightarrow> ('x, 's) outcome) \<Rightarrow> 's \<Rightarrow> ('x, 's) outcome" where
  "bench_loop 0 fn s = Done (Inr s)"
| "bench_loop (Suc n) fn s = bind_outcome (fn s) (bench_loop n fn)"

text \<open>A warm-up of at most 1000 iterations, then the measured ones.\<close>

definition benchmark :: "nat \<Rightarrow> ('s \<Rightarrow> ('x, 's) outcome) \<Rightarrow> 's \<Rightarrow> ('x, 's) outcome" where
  "benchmark iters fn s = bind_outcome (bench_loop (min (iters div 10) 1000) fn s) (bench_loop iters fn)"

text \<open>\<open>stdexec::sync_wait\<close> starts a sender and waits for its completion: it returns the value, or throws the error. A
  completion that has not come when \<open>start\<close> returns never comes here, where nothing else runs: the wait does not
  end.\<close>

definition sync_wait ::
    "nat \<Rightarrow> ('w, 'a) application \<Rightarrow> call_sender \<Rightarrow> (completion, ('w, 'a) application \<times> codec_value list) outcome" where
  "sync_wait fuel app c =
     bind_run (call_start fuel app c (length (app_completions app))) (\<lambda>app'.
       case drop (length (app_completions app)) (app_completions app') of
         [] \<Rightarrow> Running
       | (_, r) # _ \<Rightarrow> (case r of Value v \<Rightarrow> Done (Inr (app', v)) | _ \<Rightarrow> Done (Inl r)))"

section \<open>Payload types\<close>

definition vehicle_speed :: "codec_type list" where
  "vehicle_speed = [T_u16, T_u8, T_u8]"

definition gps_position :: "codec_type list" where
  "gps_position = [T_f64, T_f64, T_f32, T_f32, T_u32, T_u8, T_u8, T_u16]"

definition diag_request :: "codec_type list" where
  "diag_request = [T_u16, T_u16, T_bytes 32]"

definition diag_response :: "codec_type list" where
  "diag_response = [T_u16, T_u16, T_bytes 64]"

definition config_request :: "codec_type list" where
  "config_request = [T_u16, T_u16]"

definition config_response :: "codec_type list" where
  "config_response = [T_u16, T_u16, T_bytes 252]"

definition small_payload :: "codec_type list" where
  "small_payload = [T_i32, T_i32]"

definition medium_payload :: "codec_type list" where
  "medium_payload = [T_u32, T_i32, T_i32, T_i32, T_f32, T_f32, T_f32, T_u64, T_u32, T_i32, T_i32, T_u32, T_u32]"

section \<open>Services\<close>

definition served :: "'w \<Rightarrow> service_id \<Rightarrow> u8 \<Rightarrow> int \<Rightarrow> ('w, 'a) application \<times> skeleton" where
  "served w service major now =
     (case skeleton_offer (application_init app_config_default w) skeleton_make service (Strong_id 1) major 0 now of
        ((app, _), skel) \<Rightarrow> (app, skel))"

definition client :: "service_id \<Rightarrow> proxy" where
  "client service = proxy_target proxy_make service (Strong_id 1)"

text \<open>The handlers. The state of a workload is the value of its attribute.\<close>

definition speed_handler ::
    "'w \<Rightarrow> codec_value list \<Rightarrow> ('w \<times> byte list list \<times> codec_value list) option" where
  "speed_handler w req =
     (case req of
        [V_u16 speed_kmh, V_u8 gear, V_u8 padding] \<Rightarrow> Some (w, [], [V_u16 (speed_kmh + 1), V_u8 gear, V_u8 0])
      | _ \<Rightarrow> None)"

definition diag_handler ::
    "'w \<Rightarrow> codec_value list \<Rightarrow> ('w \<times> byte list list \<times> codec_value list) option" where
  "diag_handler w req =
     (case req of
        [V_u16 service_id, V_u16 sub_function, V_bytes data] \<Rightarrow>
          Some (w, [], [V_u16 service_id, V_u16 0, V_bytes (replicate 64 0)])
      | _ \<Rightarrow> None)"

definition config_handler ::
    "'w \<Rightarrow> codec_value list \<Rightarrow> ('w \<times> byte list list \<times> codec_value list) option" where
  "config_handler w req =
     (case req of
        [V_u16 param_id, V_u16 reserved] \<Rightarrow> Some (w, [], [V_u16 param_id, V_u16 1, V_bytes (replicate 252 0xAB)])
      | _ \<Rightarrow> None)"

text \<open>\<open>r.a + r.b\<close> overflows a signed integer, which is undefined, when the sum does not fit.\<close>

definition add_handler ::
    "'w \<Rightarrow> codec_value list \<Rightarrow> ('w \<times> byte list list \<times> codec_value list) option" where
  "add_handler w req =
     (case req of
        [V_i32 a, V_i32 b] \<Rightarrow>
          (let s = sint a + sint b
           in if - (2 ^ 31) \<le> s \<and> s < 2 ^ 31 then Some (w, [], [V_i32 (of_int s), V_i32 0]) else None)
      | _ \<Rightarrow> None)"

section \<open>Attribute\<close>

text \<open>The attribute object: its value is the whole state.\<close>

definition speed_attribute :: "skeleton \<Rightarrow> codec_value list attribute" where
  "speed_attribute skel = \<lparr>attr_skel = skel, attr_event = Strong_id 0x8001, attr_get = id, attr_put = (\<lambda>v w. v)\<rparr>"

text \<open>The object representation of a \<open>vehicle_speed\<close>, which \<open>memcmp\<close> compares\<close>

definition vehicle_repr :: "bool \<Rightarrow> codec_value list \<Rightarrow> byte list" where
  "vehicle_repr le v =
     (case v of [V_u16 speed_kmh, V_u8 gear, V_u8 padding] \<Rightarrow> mem16 le speed_kmh @ [gear, padding] | _ \<Rightarrow> [])"

definition attribute_app :: "bool \<Rightarrow> int \<Rightarrow> (codec_value list, 'a) application" where
  "attribute_app le now =
     (case served [V_u16 0, V_u8 0, V_u8 0] (Strong_id 0x1000) 1 now of
        (app, skel) \<Rightarrow> attribute_make app (vehicle_repr le) (speed_attribute skel) (Strong_id 1) (Strong_id 2) vehicle_speed 4)"

definition attr_get_iteration ::
    "nat \<Rightarrow> service_id \<Rightarrow> (codec_value list, 'a) application \<Rightarrow> (completion, (codec_value list, 'a) application) outcome" where
  "attr_get_iteration fuel service app =
     mem_run (attribute_proxy_get app (client service) (Strong_id 1) vehicle_speed) (\<lambda>(app, c).
       bind_outcome (sync_wait fuel app c) (\<lambda>(app, result). Done (Inr app)))"

definition attr_set_iteration ::
    "nat \<Rightarrow> service_id \<Rightarrow> (codec_value list, 'a) application \<times> u16 \<Rightarrow> (completion, (codec_value list, 'a) application \<times> u16) outcome" where
  "attr_set_iteration fuel service s =
     (case s of (app, counter) \<Rightarrow>
       mem_run (attribute_proxy_set app (client service) (Strong_id 2) 4 [V_u16 counter, V_u8 3, V_u8 0]) (\<lambda>(app, c).
         bind_outcome (sync_wait fuel app c) (\<lambda>(app, result). Done (Inr (app, counter + 1)))))"

definition bench_attribute :: "nat \<Rightarrow> bool \<Rightarrow> int \<Rightarrow> (completion, (codec_value list, 'a) application \<times> u16) outcome" where
  "bench_attribute fuel le now =
     bind_outcome (benchmark 500000 (attr_get_iteration fuel (Strong_id 0x1000)) (attribute_app le now)) (\<lambda>app.
       benchmark 500000 (attr_set_iteration fuel (Strong_id 0x1000)) (app, 0))"

section \<open>Broadcast\<close>

definition gps :: "codec_value list" where
  "gps = [V_f64 0x4042E32FEC56D5D0, V_f64 0xC05E9AD77318FC50, V_f32 0x41200000, V_f32 0x42B40000, V_u32 1000,
     V_u8 1, V_u8 12, V_u16 80]"

text \<open>The state of these workloads is \<open>recv_count\<close>.\<close>

definition count_handler :: "nat callable inplace_handler" where
  "count_handler = handler_of (User_handler (\<lambda>recv_count view. (recv_count + 1, [])))"

definition fire_iteration :: "nat \<Rightarrow> skeleton \<Rightarrow> ('w, 'a) application \<Rightarrow> (completion, ('w, 'a) application) outcome" where
  "fire_iteration fuel skel app =
     bind_run (broadcast_fire fuel app skel (Strong_id 0x8100) gps) (\<lambda>app. Done (Inr app))"

definition fanout_1 :: "nat \<Rightarrow> int \<Rightarrow> (completion, (nat, 'a) application) outcome" where
  "fanout_1 fuel now =
     (case served 0 (Strong_id 0x2000) 1 now of
        (app, skel) \<Rightarrow> benchmark 200000 (fire_iteration fuel skel)
          (register_message_handler app (Strong_id 0x2000) (Strong_id 0x8100) count_handler))"

definition fanout_10 :: "nat \<Rightarrow> int \<Rightarrow> (completion, (nat, 'a) application) outcome" where
  "fanout_10 fuel now =
     (case served 0 (Strong_id 0x2001) 1 now of
        (app, skel) \<Rightarrow> benchmark 200000 (fire_iteration fuel skel)
          (fold (\<lambda>i app. app_subscribe app (Strong_id 0x2001) (Strong_id 0x8100) count_handler) [0..<10] app))"

section \<open>Calls\<close>

definition rpc_iteration ::
    "nat \<Rightarrow> service_id \<Rightarrow> method_id \<Rightarrow> nat \<Rightarrow> codec_value list \<Rightarrow> codec_type list \<Rightarrow>
     ('w, 'a) application \<Rightarrow> (completion, ('w, 'a) application) outcome" where
  "rpc_iteration fuel service mth sizeof_req req resp app =
     mem_run (rpc_call app (client service) mth sizeof_req req resp) (\<lambda>(app, c).
       bind_outcome (sync_wait fuel app c) (\<lambda>(app, result). Done (Inr app)))"

definition rpc_small :: "nat \<Rightarrow> int \<Rightarrow> (completion, (unit, 'a) application) outcome" where
  "rpc_small fuel now =
     (case served () (Strong_id 0x3000) 1 now of
        (app, skel) \<Rightarrow> benchmark 500000
          (rpc_iteration fuel (Strong_id 0x3000) (Strong_id 1) 4 [V_u16 60, V_u8 4, V_u8 0] vehicle_speed)
          (serve app skel (Strong_id 1) vehicle_speed 4 speed_handler))"

definition rpc_medium :: "nat \<Rightarrow> int \<Rightarrow> (completion, (unit, 'a) application) outcome" where
  "rpc_medium fuel now =
     (case served () (Strong_id 0x3001) 1 now of
        (app, skel) \<Rightarrow> benchmark 500000
          (rpc_iteration fuel (Strong_id 0x3001) (Strong_id 1) 36 [V_u16 0x1234, V_u16 1, V_bytes (replicate 32 0)] diag_response)
          (serve app skel (Strong_id 1) diag_request 68 diag_handler))"

definition rpc_large :: "nat \<Rightarrow> int \<Rightarrow> (completion, (unit, 'a) application) outcome" where
  "rpc_large fuel now =
     (case served () (Strong_id 0x3002) 1 now of
        (app, skel) \<Rightarrow> benchmark 500000
          (rpc_iteration fuel (Strong_id 0x3002) (Strong_id 1) 4 [V_u16 42, V_u16 0] config_response)
          (serve app skel (Strong_id 1) config_request 256 config_handler))"

section \<open>Mixed workload\<close>

definition mixed_app :: "bool \<Rightarrow> int \<Rightarrow> (codec_value list, 'a) application \<times> skeleton" where
  "mixed_app le now =
     (case served [V_u16 0, V_u8 0, V_u8 0] (Strong_id 0x4000) 1 now of
        (app, skel) \<Rightarrow>
          (let app = attribute_make app (vehicle_repr le) (speed_attribute skel) (Strong_id 1) (Strong_id 2) vehicle_speed 4
           in (serve app skel (Strong_id 0x10) diag_request 68 diag_handler, skel)))"

definition mixed_iteration ::
    "nat \<Rightarrow> skeleton \<Rightarrow> (codec_value list, 'a) application \<times> u16 \<Rightarrow> (completion, (codec_value list, 'a) application \<times> u16) outcome" where
  "mixed_iteration fuel skel s =
     bind_outcome (attr_set_iteration fuel (Strong_id 0x4000) s) (\<lambda>(app, speed_cnt).
       bind_outcome (fire_iteration fuel skel app) (\<lambda>app.
         bind_outcome (rpc_iteration fuel (Strong_id 0x4000) (Strong_id 0x10) 36
             [V_u16 0x1234, V_u16 1, V_bytes (replicate 32 0)] diag_response app) (\<lambda>app.
           Done (Inr (app, speed_cnt)))))"

definition bench_mixed :: "nat \<Rightarrow> bool \<Rightarrow> int \<Rightarrow> (completion, (codec_value list, 'a) application \<times> u16) outcome" where
  "bench_mixed fuel le now =
     (case mixed_app le now of (app, skel) \<Rightarrow> benchmark 200000 (mixed_iteration fuel skel) (app, 0))"

section \<open>Comparison\<close>

text \<open>Each pair is the library's side and the other implementation's side of one comparison.\<close>

definition bs_header_write :: "byte list \<Rightarrow> byte list option" where
  "bs_header_write buf = do {
     buf \<leftarrow> set_service buf (Strong_id 0x1234);
     buf \<leftarrow> set_method buf (Strong_id 0x0001);
     buf \<leftarrow> set_payload_length buf 100;
     buf \<leftarrow> set_client buf (Strong_id 0x0010);
     buf \<leftarrow> set_session buf (Strong_id 42);
     buf \<leftarrow> set_protocol_ver buf 1;
     buf \<leftarrow> set_interface_ver buf 1;
     buf \<leftarrow> set_msg_type buf mt_request;
     set_ret_code buf e_ok
   }"

definition vs_header_write :: "bool \<Rightarrow> nat \<Rightarrow> serializer \<Rightarrow> serializer" where
  "vs_header_write le cap ser =
     (let ser = ser_reset cap ser;
          ser = ser_u16 le ser 0x1234;
          ser = ser_u16 le ser 0x0001;
          ser = ser_u32 le ser 108 False;
          ser = ser_u16 le ser 0x0010;
          ser = ser_u16 le ser 42;
          ser = ser_u8 ser 1;
          ser = ser_u8 ser 1;
          ser = ser_u8 ser 0x00
      in ser_u8 ser 0x00)"

definition bs_header_read ::
    "byte list \<Rightarrow> (service_id \<times> method_id \<times> client_id \<times> session_id \<times> message_type \<times> return_code \<times> u32) option" where
  "bs_header_read buf = do {
     s \<leftarrow> hdr_service buf;
     m \<leftarrow> hdr_method buf;
     c \<leftarrow> hdr_client buf;
     ss \<leftarrow> hdr_session buf;
     mt \<leftarrow> hdr_msg_type buf;
     rc \<leftarrow> hdr_ret_code buf;
     pl \<leftarrow> hdr_payload_length buf;
     Some (s, m, c, ss, mt, rc, pl)
   }"

definition vs_header_read ::
    "bool \<Rightarrow> byte list \<Rightarrow> (u16 option \<times> u16 option \<times> u32 option \<times> u16 option \<times> u16 option \<times> u8 option \<times> u8 option) option" where
  "vs_header_read le buf = do {
     let deser = des_make (take 16 buf);
     (deser, svc) \<leftarrow> des_u16 le deser;
     (deser, mth) \<leftarrow> des_u16 le deser;
     (deser, len) \<leftarrow> des_u32 le deser;
     (deser, cli) \<leftarrow> des_u16 le deser;
     (deser, ses) \<leftarrow> des_u16 le deser;
     (deser, pv) \<leftarrow> des_u8 deser;
     (deser, iv) \<leftarrow> des_u8 deser;
     (deser, mt2) \<leftarrow> des_u8 deser;
     (deser, rc2) \<leftarrow> des_u8 deser;
     Some (svc, mth, len, cli, ses, mt2, rc2)
   }"

definition small_src :: "codec_value list" where
  "small_src = [V_i32 42, V_i32 (- 100)]"

definition medium_src :: "codec_value list" where
  "medium_src = [V_u32 1, V_i32 100, V_i32 200, V_i32 300, V_f32 0x42120000, V_f32 0x447D5000, V_f32 0x42820000,
     V_u64 1234567890, V_u32 0xFF, V_i32 90, V_i32 0, V_u32 42, V_u32 0xDEAD]"

definition bs_serialize_small :: "byte list \<Rightarrow> (byte list \<times> (codec_error + nat)) option" where
  "bs_serialize_small buf = serialize buf small_src"

definition vs_serialize_small :: "bool \<Rightarrow> nat \<Rightarrow> serializer \<Rightarrow> serializer option" where
  "vs_serialize_small le cap ser = ser_members le (ser_reset cap ser) small_src"

definition bs_serialize_medium :: "byte list \<Rightarrow> (byte list \<times> (codec_error + nat)) option" where
  "bs_serialize_medium buf = serialize buf medium_src"

definition vs_serialize_medium :: "bool \<Rightarrow> nat \<Rightarrow> serializer \<Rightarrow> serializer option" where
  "vs_serialize_medium le cap ser = ser_members le (ser_reset cap ser) medium_src"

definition bs_deserialize_small :: "byte list \<Rightarrow> (codec_error + codec_value list) option" where
  "bs_deserialize_small buf = deserialize (take 8 buf) small_payload"

definition vs_deserialize_small :: "bool \<Rightarrow> byte list \<Rightarrow> (deserializer \<times> codec_value option list) option" where
  "vs_deserialize_small le buf = des_members le (des_make (take 8 buf)) small_payload"

definition bs_deserialize_medium :: "byte list \<Rightarrow> (codec_error + codec_value list) option" where
  "bs_deserialize_medium buf = deserialize (take 52 buf) medium_payload"

definition vs_deserialize_medium :: "bool \<Rightarrow> byte list \<Rightarrow> (deserializer \<times> codec_value option list) option" where
  "vs_deserialize_medium le buf = des_members le (des_make (take 52 buf)) medium_payload"

definition bs_message :: "byte list option" where
  "bs_message = do {
     msg \<leftarrow> create_request (Strong_id 0x1234) (Strong_id 0x0001) (Strong_id 0x0010) (Strong_id 1) 8;
     (msg, result) \<leftarrow> serialize_payload msg small_src;
     Some msg
   }"

definition vs_message_bytes :: "bool \<Rightarrow> serializer option" where
  "vs_message_bytes le = do {
     let msg = ref_message_make\<lparr>rm_service_id := 0x1234, rm_method_id := 0x0001, rm_client_id := 0x0010,
       rm_session_id := 1, rm_msg_type := 0x00, rm_length := 16\<rparr>;
     ser \<leftarrow> ser_members le (ser_make 0) small_src;
     p \<leftarrow> rm_payload msg;
     let msg = msg\<lparr>rm_payload := Some (ref_set_data p (take (unat (ser_get_size ser)) (ser_data ser)))\<rparr>;
     Some (serialize_to le msg (ser_make 0))
   }"

text \<open>Dispatching: a counter is the only handler.\<close>

definition bs_dispatch :: "(bool \<times> (unit \<times> message_view) list) option" where
  "bs_dispatch = do {
     let d = register_handler dispatcher_empty (Strong_id 0x1234) (Strong_id 0x0001) (handler_of ());
     let msg_buf = replicate 24 0;
     hdr \<leftarrow> set_service msg_buf (Strong_id 0x1234);
     hdr \<leftarrow> set_method hdr (Strong_id 0x0001);
     hdr \<leftarrow> set_msg_type hdr mt_request;
     hdr \<leftarrow> set_payload_length hdr 8;
     payload \<leftarrow> subspan_from hdr header_size;
     dispatch (d :: (unit, unit) dispatcher) hdr payload
   }"

definition vs_dispatch :: "bool \<times> (unit \<times> ref_message) list" where
  "vs_dispatch =
     (let key = push_bit 16 0x1234 OR 0x0001;
          vrm = ref_register key () [];
          vmsg = ref_message_make\<lparr>rm_service_id := 0x1234, rm_method_id := 0x0001\<rparr>
      in ref_dispatch vrm key vmsg)"

text \<open>A round trip. The handler of the other side has no state but \<open>response_buf\<close>; a variable whose read failed
  is used uninitialised, which is undefined.\<close>

definition bs_roundtrip_app :: "int \<Rightarrow> (unit, 'a) application" where
  "bs_roundtrip_app now =
     (case served () (Strong_id 0x1234) 1 now of (app, skel) \<Rightarrow> serve app skel (Strong_id 0x0001) small_payload 8 add_handler)"

definition bs_roundtrip :: "nat \<Rightarrow> (unit, 'a) application \<Rightarrow> (completion, (unit, 'a) application \<times> codec_value list) outcome" where
  "bs_roundtrip fuel app =
     mem_run (async_call app (client (Strong_id 0x1234)) (Strong_id 0x0001) 8 [V_i32 10, V_i32 20] small_payload) (\<lambda>(app, c).
       sync_wait fuel app c)"

definition vs_answer :: "bool \<Rightarrow> byte list \<Rightarrow> byte list option" where
  "vs_answer le p = do {
     (d, a) \<leftarrow> des_i32 le (des_make (take (unat (ref_get_length p)) p));
     (d, b) \<leftarrow> des_i32 le d;
     a \<leftarrow> a;
     b \<leftarrow> b;
     let s = sint a + sint b;
     if - (2 ^ 31) \<le> s \<and> s < 2 ^ 31
     then (let ser = ser_i32 le (ser_make 0) (of_int s);
               ser = ser_i32 le ser 0
           in Some (take (unat (ser_get_size ser)) (ser_data ser)))
     else None
   }"

definition vs_roundtrip :: "bool \<Rightarrow> (u32 \<times> u32) option" where
  "vs_roundtrip le = do {
     let key = push_bit 16 0x1234 OR 0x0001;
     let rm = ref_register key () [];
     let msg = ref_message_make\<lparr>rm_service_id := 0x1234, rm_method_id := 0x0001, rm_client_id := 0x0010, rm_session_id := 1\<rparr>;
     let ser = ser_i32 le (ser_make 0) 10;
     let ser = ser_i32 le ser 20;
     p \<leftarrow> rm_payload msg;
     let msg = msg\<lparr>rm_payload := Some (ref_set_data p (take (unat (ser_get_size ser)) (ser_data ser)))\<rparr>;
     response_buf \<leftarrow> (case ref_dispatch rm key msg of
         (True, [(_, req)]) \<Rightarrow> do { p \<leftarrow> rm_payload req; vs_answer le p }
       | _ \<Rightarrow> Some []);
     (d, result) \<leftarrow> des_i32 le (des_make response_buf);
     (d, pad) \<leftarrow> des_i32 le d;
     result \<leftarrow> result;
     pad \<leftarrow> pad;
     Some (result, pad)
   }"

end
