(* ===== verification/Bench_Main.thy ===== *)
theory Bench_Main
  imports Bench_Workloads Crc Sender_Pipeline
begin

text \<open>
  \<open>bench/bench_main.cpp\<close>, without the clock and the printing: each operation of the library in a loop. What
  the code hands to \<open>do_not_optimize\<close> is part of the state of the loop.
\<close>

section \<open>Payload types\<close>

definition structured_payload :: "codec_type list" where
  "structured_payload =
     [T_u32, T_i32, T_i32, T_i32, T_f32, T_f32, T_f32, T_u64, T_u32, T_i16, T_i16, T_u32, T_u32]"

definition large_payload :: "codec_type list" where
  "large_payload = [T_u32, T_u32] @ replicate 30 T_i32 @ [T_u32]"

section \<open>Codec\<close>

definition serialize_iteration :: "codec_value list \<Rightarrow> byte list \<Rightarrow> ('x, byte list) outcome" where
  "serialize_iteration src buf = mem_run (serialize buf src) (\<lambda>(buf, r). Done (Inr buf))"

definition deserialize_iteration ::
    "codec_type list \<Rightarrow> byte list \<Rightarrow> (codec_error + codec_value list) list \<Rightarrow>
     ('x, (codec_error + codec_value list) list) outcome" where
  "deserialize_iteration ty buf rs = mem_run (deserialize buf ty) (\<lambda>r. Done (Inr (rs @ [r])))"

text \<open>One block: serialising in a loop, serialising once more, deserialising in a loop.\<close>

definition codec_block ::
    "nat \<Rightarrow> codec_type list \<Rightarrow> codec_value list \<Rightarrow> ('x, byte list \<times> (codec_error + codec_value list) list) outcome" where
  "codec_block n ty src =
     bind_outcome (benchmark 1000000 (serialize_iteration src) (replicate n 0)) (\<lambda>buf.
       bind_outcome (serialize_iteration src buf) (\<lambda>buf.
         bind_outcome (benchmark 1000000 (deserialize_iteration ty buf) []) (\<lambda>rs. Done (Inr (buf, rs)))))"

definition codec_small :: "('x, byte list \<times> (codec_error + codec_value list) list) outcome" where
  "codec_small = codec_block 64 small_payload [V_i32 42, V_i32 (- 100)]"

definition structured_src :: "codec_value list" where
  "structured_src = [V_u32 1, V_i32 100, V_i32 200, V_i32 300, V_f32 0x42120000, V_f32 0x447D5000, V_f32 0x42820000,
     V_u64 1234567890, V_u32 0xFF, V_i16 90, V_i16 0, V_u32 42, V_u32 0xDEAD]"

definition codec_medium :: "('x, byte list \<times> (codec_error + codec_value list) list) outcome" where
  "codec_medium = codec_block 256 structured_payload structured_src"

definition large_src :: "codec_value list" where
  "large_src = [V_u32 30, V_u32 1] @
     (replicate 30 (V_i32 0))[0 := V_i32 100, 5 := V_i32 500, 10 := V_i32 1000, 20 := V_i32 2000] @ [V_u32 0xCAFE]"

definition codec_large :: "('x, byte list \<times> (codec_error + codec_value list) list) outcome" where
  "codec_large = codec_block 512 large_payload large_src"

section \<open>CRC\<close>

definition crc_data :: "byte list" where
  "crc_data = map of_nat [0..<64]"

definition crc_big_data :: "byte list" where
  "crc_big_data = map (\<lambda>i. ucast (of_nat i AND (0xFF :: u32))) [0..<1024]"

definition bench_crc :: "('x, u8 \<times> u32 \<times> u64 \<times> u32 \<times> u64) outcome" where
  "bench_crc =
     bind_outcome (benchmark 1000000 (\<lambda>_. Done (Inr (crc8_sae_j1850 crc_data 0xFF))) 0) (\<lambda>c1.
     bind_outcome (benchmark 1000000 (\<lambda>_. Done (Inr (crc32_ethernet crc_data 0xFFFFFFFF))) 0) (\<lambda>c2.
     bind_outcome (benchmark 1000000 (\<lambda>_. Done (Inr (crc64 crc_data 0xFFFFFFFFFFFFFFFF))) 0) (\<lambda>c3.
     bind_outcome (benchmark 1000000 (\<lambda>_. Done (Inr (crc32_ethernet crc_big_data 0xFFFFFFFF))) 0) (\<lambda>c4.
     bind_outcome (benchmark 1000000 (\<lambda>_. Done (Inr (crc64 crc_big_data 0xFFFFFFFFFFFFFFFF))) 0) (\<lambda>c5.
       Done (Inr (c1, c2, c3, c4, c5)))))))"

section \<open>E2E\<close>

definition e2e_bench_config :: profile_04_config where
  "e2e_bench_config = profile_04_default\<lparr>p04_data_id := 0xDEADBEEF, p04_max_delta := 100\<rparr>"

definition protect_iteration :: "byte list \<times> u16 \<Rightarrow> ('x, byte list \<times> u16) outcome" where
  "protect_iteration s =
     (case s of (payload, counter) \<Rightarrow>
       mem_run (p04_protect payload e2e_bench_config counter) (\<lambda>payload. Done (Inr (payload, counter + 1))))"

record check_state =
  chk_payload :: "byte list"
  chk_last :: u16
  chk_counter :: u16
  chk_results :: "e2e_result list"

definition check_iteration :: "check_state \<Rightarrow> ('x, check_state) outcome" where
  "check_iteration s =
     mem_run (p04_protect (chk_payload s) e2e_bench_config (chk_counter s)) (\<lambda>payload.
       mem_run (p04_check payload e2e_bench_config (chk_last s)) (\<lambda>(res, last).
         Done (Inr (s\<lparr>chk_payload := payload, chk_last := last, chk_results := chk_results s @ [res],
           chk_counter := chk_counter s + 1\<rparr>))))"

definition bench_e2e :: "('x, check_state) outcome" where
  "bench_e2e =
     bind_outcome (benchmark 1000000 protect_iteration (replicate 64 0xAA, 0)) (\<lambda>(payload, counter).
       mem_run (p04_protect payload e2e_bench_config 1) (\<lambda>payload.
         benchmark 1000000 check_iteration
           \<lparr>chk_payload = payload, chk_last = 0, chk_counter = 1, chk_results = []\<rparr>))"

section \<open>Dispatching\<close>

text \<open>The state is \<open>handler_count\<close>, which the only handler increments.\<close>

definition bench_dispatch :: "('x, nat) outcome" where
  "bench_dispatch =
     (let disp = register_handler dispatcher_empty (Strong_id 0x1234) (Strong_id 0x0001) (handler_of ()) :: (unit, unit) dispatcher
      in mem_run (do {
           let msg_buf = replicate 24 0;
           hdr \<leftarrow> set_service msg_buf (Strong_id 0x1234);
           hdr \<leftarrow> set_method hdr (Strong_id 0x0001);
           hdr \<leftarrow> set_client hdr (Strong_id 0x0010);
           hdr \<leftarrow> set_session hdr (Strong_id 1);
           hdr \<leftarrow> set_protocol_ver hdr protocol_version;
           hdr \<leftarrow> set_msg_type hdr mt_request;
           hdr \<leftarrow> set_payload_length hdr 8;
           payload \<leftarrow> subspan_from hdr header_size;
           Some (hdr, payload)
         }) (\<lambda>(hdr, payload).
           benchmark 1000000 (\<lambda>handler_count.
             mem_run (dispatch disp hdr payload) (\<lambda>(r, calls). Done (Inr (handler_count + length calls)))) 0))"

section \<open>Calls\<close>

text \<open>The state is the application and the results. \<open>then\<close> applies its function to the value of the sender.\<close>

definition async_call_iteration ::
    "nat \<Rightarrow> ('w, 'a) application \<times> codec_value list list \<Rightarrow> (completion, ('w, 'a) application \<times> codec_value list list) outcome" where
  "async_call_iteration fuel s =
     (case s of (app, results) \<Rightarrow>
       mem_run (async_call app (client (Strong_id 0x1234)) (Strong_id 0x0001) 8 [V_i32 10, V_i32 20] small_payload) (\<lambda>(app, c).
         bind_outcome (sync_wait fuel app c) (\<lambda>(app, result). Done (Inr (app, results @ [result])))))"

definition then_a :: "codec_value list \<Rightarrow> u32 option" where
  "then_a resp = (case resp of [V_i32 a, V_i32 b] \<Rightarrow> Some a | _ \<Rightarrow> None)"

definition async_then_iteration ::
    "nat \<Rightarrow> ('w, 'a) application \<times> u32 list \<Rightarrow> (completion, ('w, 'a) application \<times> u32 list) outcome" where
  "async_then_iteration fuel s =
     (case s of (app, results) \<Rightarrow>
       mem_run (async_call app (client (Strong_id 0x1234)) (Strong_id 0x0001) 8 [V_i32 10, V_i32 20] small_payload) (\<lambda>(app, c).
         bind_outcome (sync_wait fuel app c) (\<lambda>(app, resp).
           mem_run (then_a resp) (\<lambda>a. Done (Inr (app, results @ [a]))))))"

definition bench_async_call ::
    "nat \<Rightarrow> int \<Rightarrow> (completion, (unit, 'a) application \<times> codec_value list list \<times> u32 list) outcome" where
  "bench_async_call fuel now =
     (case served () (Strong_id 0x1234) 1 now of
        (app, skel) \<Rightarrow>
          bind_outcome (benchmark 500000 (async_call_iteration fuel)
              (serve app skel (Strong_id 0x0001) small_payload 8 add_handler, [])) (\<lambda>(app, results).
            bind_outcome (benchmark 500000 (async_then_iteration fuel) (app, [])) (\<lambda>(app, as).
              Done (Inr (app, results, as)))))"

section \<open>Security\<close>

definition small_policy :: policy where
  "small_policy = foldl policy_add policy_empty
     [allow_client_service (Strong_id 0x0001) (Strong_id 0x1234),
      allow_client_service (Strong_id 0x0002) (Strong_id 0x1234),
      allow_client_service (Strong_id 0x0003) (Strong_id 0x5678),
      deny_client (Strong_id 0x00FF),
      allow_all]"

definition big_policy :: policy where
  "big_policy = policy_add
     (fold (\<lambda>i p. policy_add p (allow_client_service (Strong_id (of_nat (i + 1))) (Strong_id (of_nat (i + 0x100)))))
       [0..<99] policy_empty)
     allow_all"

definition bench_security :: "('x, action list) outcome" where
  "bench_security =
     bind_outcome (benchmark 5000000
       (\<lambda>as. Done (Inr (as @ [evaluate small_policy (Strong_id 0x0001) (Strong_id 0x1234) (Strong_id 1) (Strong_id 1)]))) []) (\<lambda>a1.
     bind_outcome (benchmark 5000000
       (\<lambda>as. Done (Inr (as @ [evaluate small_policy (Strong_id 0x9999) (Strong_id 0x9999) (Strong_id 1) (Strong_id 1)]))) a1) (\<lambda>a2.
     benchmark 5000000
       (\<lambda>as. Done (Inr (as @ [evaluate big_policy (Strong_id 0xFFFF) (Strong_id 0xFFFF) (Strong_id 1) (Strong_id 1)]))) a2))"

section \<open>Combined pipeline\<close>

definition combined_config :: profile_04_config where
  "combined_config = profile_04_default\<lparr>p04_data_id := 0xFACE, p04_max_delta := 60000\<rparr>"

text \<open>The policy and the two states are the objects the adaptors point to.\<close>

definition combined_objects :: objects where
  "combined_objects =
     \<lparr>obj_state = [0 \<mapsto> e2e_state_init (P04 combined_config), 1 \<mapsto> e2e_state_init (P04 combined_config)],
      obj_policy = [0 \<mapsto> policy_add policy_empty allow_all]\<rparr>"

definition make_msg :: "byte list option" where
  "make_msg = do {
     let buf = replicate (header_size + 20) 0;
     hdr \<leftarrow> set_service buf (Strong_id 0x1234);
     hdr \<leftarrow> set_method hdr (Strong_id 0x0001);
     hdr \<leftarrow> set_client hdr (Strong_id 0x0010);
     hdr \<leftarrow> set_session hdr (Strong_id 1);
     hdr \<leftarrow> set_protocol_ver hdr protocol_version;
     hdr \<leftarrow> set_msg_type hdr mt_request;
     set_payload_length hdr 20
   }"

text \<open>\<open>sync_wait\<close> of the pipeline: a value, no value when it was stopped, an exception when it failed.\<close>

definition combined_iteration ::
    "objects \<times> byte list option list \<Rightarrow> ((security_error + 'e) exception, objects \<times> byte list option list) outcome" where
  "combined_iteration s =
     (case s of (w, results) \<Rightarrow>
       mem_run make_msg (\<lambda>msg.
         mem_run (start (connect (pipe (pipe (pipe (Upstream_sender (Set_value msg)) (enforce 0 any_instance))
             (e2e_protect 0)) (e2e_check 1))) w) (\<lambda>(w, sig).
           case sig of
             Set_value msg \<Rightarrow> Done (Inr (w, results @ [Some msg]))
           | Set_stopped \<Rightarrow> Done (Inr (w, results @ [None]))
           | Set_error e \<Rightarrow> Done (Inl e))))"

definition bench_combined :: "((security_error + 'e) exception, objects \<times> byte list option list) outcome" where
  "bench_combined = benchmark 500000 combined_iteration (combined_objects, [])"

section \<open>Header\<close>

definition header_write_iteration :: "byte list \<Rightarrow> ('x, byte list) outcome" where
  "header_write_iteration buf = mem_run (do {
     buf \<leftarrow> set_service buf (Strong_id 0x1234);
     buf \<leftarrow> set_method buf (Strong_id 0x0001);
     buf \<leftarrow> set_client buf (Strong_id 0x0010);
     buf \<leftarrow> set_session buf (Strong_id 42);
     buf \<leftarrow> set_protocol_ver buf 1;
     buf \<leftarrow> set_interface_ver buf 1;
     buf \<leftarrow> set_msg_type buf mt_request;
     buf \<leftarrow> set_ret_code buf e_ok;
     set_payload_length buf 100
   }) (\<lambda>buf. Done (Inr buf))"

definition header_read_iteration :: "byte list \<Rightarrow> (service_id \<times> u32) list \<Rightarrow> ('x, (service_id \<times> u32) list) outcome" where
  "header_read_iteration buf rs = mem_run (do {
     s \<leftarrow> hdr_service buf;
     m \<leftarrow> hdr_method buf;
     c \<leftarrow> hdr_client buf;
     ss \<leftarrow> hdr_session buf;
     mt \<leftarrow> hdr_msg_type buf;
     rc \<leftarrow> hdr_ret_code buf;
     pl \<leftarrow> hdr_payload_length buf;
     Some (s, pl)
   }) (\<lambda>r. Done (Inr (rs @ [r])))"

definition bench_header :: "('x, (service_id \<times> u32) list) outcome" where
  "bench_header =
     bind_outcome (benchmark 5000000 header_write_iteration (replicate 16 0)) (\<lambda>buf.
       benchmark 5000000 (header_read_iteration buf) [])"

end
