(* ===== verification/Bench_Reference_Correct.thy ===== *)
theory Bench_Reference_Correct
  imports Bench_Reference Api_Correct
begin

text \<open>
  The library against the second implementation of the wire format: the same bytes for the same
  messages and values on hosts of either byte order, the same values back, and what the library
  does where the other implementation reports a short buffer.
\<close>

section \<open>Byte order\<close>

lemma is_little_endian_host [simp]: "is_little_endian le = le"
  by (simp add: is_little_endian_def mem16_def be16_def)

lemma swap16_bytes [simp]: "swap16 (u16_of a b) = u16_of b a"
  unfolding swap16_def u16_of_def by (rule bit_word_eqI) (auto simp: bit_simps bit_beyond)

lemma byte_masks:
  "0xFF = (mask 8 :: u32)" "0xFF00 = push_bit 8 (mask 8 :: u32)" "0xFF0000 = push_bit 16 (mask 8 :: u32)"
  "0xFF000000 = push_bit 24 (mask 8 :: u32)"
  by (simp_all add: mask_eq_exp_minus_1 push_bit_eq_mult)

lemma swap32_bytes [simp]: "swap32 (u32_of a b c d) = u32_of d c b a"
proof (rule bit_word_eqI)
  fix n :: nat
  assume "n < LENGTH(32)"
  then consider "n < 8" | "8 \<le> n" "n < 16" | "16 \<le> n" "n < 24" | "24 \<le> n" "n < 32"
    by force
  then show "bit (swap32 (u32_of a b c d)) n = bit (u32_of d c b a) n"
    by cases (auto simp: swap32_def byte_masks u32_of_def bit_simps bit_beyond)
qed

lemma swap64_words: "swap64 (u64_of a b) = u64_of (swap32 b) (swap32 a)"
  by (simp add: swap64_def u64_of_split) (simp add: u64_of_def)

text \<open>A swapped integer is stored as the big-endian bytes of the integer, on either host.\<close>

lemma u16_cases: obtains a b where "v = u16_of a b"
  by (metis u16_of_be16)

lemma u32_cases: obtains a b c d where "v = u32_of a b c d"
  by (metis u32_of_be32)

lemma u64_cases: obtains a b where "v = u64_of a b"
  by (metis u64_of_be64)

lemma mem_swapped:
  "mem16 le (if le then swap16 v else v) = be16 v"
  "mem32 le (if le then swap32 w else w) = be32 w"
  "mem64 le (if le then swap64 x else x) = be64 x"
proof -
  show "mem16 le (if le then swap16 v else v) = be16 v"
    by (cases v rule: u16_cases) (simp add: mem16_def)
  show "mem32 le (if le then swap32 w else w) = be32 w"
    by (cases w rule: u32_cases) (simp add: mem32_def)
  obtain a b where x: "x = u64_of a b" by (rule u64_cases)
  show "mem64 le (if le then swap64 x else x) = be64 x"
    unfolding x by (cases a rule: u32_cases; cases b rule: u32_cases) (simp add: mem64_def swap64_words)
qed

section \<open>Writing\<close>

lemma ser_data_simps [simp]:
  "ser_data (ser_u8 s b) = ser_data s @ [b]"
  "ser_data (ser_u16 le s v) = ser_data s @ be16 v"
  "ser_data (ser_u32 le s w False) = ser_data s @ be32 w"
  "ser_data (ser_i32 le s w) = ser_data s @ be32 w"
  "ser_data (ser_f32 le s w) = ser_data s @ be32 w"
  "ser_data (ser_u64 le s x) = ser_data s @ be64 x"
  "ser_data (ser_bytes s bs) = ser_data s @ bs"
proof -
  show "ser_data (ser_u8 s b) = ser_data s @ [b]" "ser_data (ser_bytes s bs) = ser_data s @ bs"
    by (simp_all add: ser_u8_def push_back_def ser_bytes_def)
  show "ser_data (ser_u16 le s v) = ser_data s @ be16 v"
    unfolding ser_u16_def is_little_endian_host Let_def mem_swapped by (simp add: push_back_def be16_def)
  show four: "ser_data (ser_u32 le s w False) = ser_data s @ be32 w"
    unfolding ser_u32_def is_little_endian_host Let_def mem_swapped by (simp add: push_back_def be32_def numeral_2_eq_2 numeral_3_eq_3)
  show "ser_data (ser_i32 le s w) = ser_data s @ be32 w" "ser_data (ser_f32 le s w) = ser_data s @ be32 w"
    by (simp_all add: ser_i32_def ser_f32_def four)
  show "ser_data (ser_u64 le s x) = ser_data s @ be64 x"
    unfolding ser_u64_def is_little_endian_host Let_def mem_swapped by (simp add: push_back_def be64_def be32_def)
qed

text \<open>What the other implementation can write.\<close>

fun has_overload :: "codec_value \<Rightarrow> bool" where
  "has_overload (V_u8 v) = True"
| "has_overload (V_u16 v) = True"
| "has_overload (V_u32 v) = True"
| "has_overload (V_i32 v) = True"
| "has_overload (V_f32 v) = True"
| "has_overload (V_u64 v) = True"
| "has_overload (V_bytes v) = True"
| "has_overload _ = False"

lemma ser_members_bytes:
  "list_all has_overload vs \<Longrightarrow> \<exists>s'. ser_members le s vs = Some s' \<and> ser_data s' = ser_data s @ encode_all vs"
proof (induction vs arbitrary: s)
  case (Cons v vs)
  then have "\<exists>s'. ser_member le s v = Some s' \<and> ser_data s' = ser_data s @ encode v"
    by (cases v) simp_all
  then obtain s' where s': "ser_member le s v = Some s'" "ser_data s' = ser_data s @ encode v" by blast
  with Cons.IH [of s'] Cons.prems show ?case by auto
qed simp

lemma serialize_to_bytes:
  assumes "length p < 2 ^ 32"
  shows "ser_data (serialize_to le \<lparr>rm_service_id = svc, rm_method_id = mth, rm_length = l, rm_client_id = cl,
      rm_session_id = ss, rm_proto_ver = pv, rm_iface_ver = iv, rm_msg_type = mt, rm_ret_code = rc, rm_payload = Some p\<rparr> s) =
    ser_data s @ header_bytes \<lparr>f_service = Strong_id svc, f_method = Strong_id mth, f_length = l, f_client = Strong_id cl,
      f_session = Strong_id ss, f_protocol = pv, f_interface = iv, f_type = Message_type mt, f_rcode = Return_code rc\<rparr> @ p"
proof -
  have n: "unat (ref_get_length p) = length p" using assms by (simp add: ref_get_length_def unat_of_nat_small)
  then have "0 < ref_get_length p \<longleftrightarrow> p \<noteq> []" by (simp add: word_less_nat_alt)
  with n show ?thesis by (simp add: serialize_to_def Let_def header_bytes_def)
qed

section \<open>Reading\<close>

text \<open>A deserializer that has read \<open>xs\<close> of its bytes and has \<open>ys\<close> left.\<close>

definition des_at :: "byte list \<Rightarrow> byte list \<Rightarrow> deserializer" where
  "des_at xs ys = \<lparr>des_data = xs @ ys, des_position = length xs, des_remaining = length ys\<rparr>"

lemma des_make_at: "des_make buf = des_at [] buf"
  by (simp add: des_make_def des_at_def)

lemma des_next_at:
  "length bs = n \<Longrightarrow> des_next (des_at xs (bs @ ys)) n = Some (des_at (xs @ bs) ys, bs)"
  by (simp add: des_next_def des_at_def subspan_def)

lemma of_mem_swapped:
  "(if le then swap16 (of_mem16 le b0 b1) else of_mem16 le b0 b1) = u16_of b0 b1"
  "(if le then swap32 (of_mem32 le b0 b1 b2 b3) else of_mem32 le b0 b1 b2 b3) = u32_of b0 b1 b2 b3"
  "(if le then swap64 (of_mem64 le bs) else of_mem64 le bs) =
     u64_of (u32_of (bs ! 0) (bs ! 1) (bs ! 2) (bs ! 3)) (u32_of (bs ! 4) (bs ! 5) (bs ! 6) (bs ! 7))"
  by (simp_all add: of_mem16_def of_mem32_def of_mem64_def swap64_words)

lemma des_at_simps:
  "des_u8 (des_at xs (b # ys)) = Some (des_at (xs @ [b]) ys, Some b)"
  "des_u16 le (des_at xs (be16 v @ ys)) = Some (des_at (xs @ be16 v) ys, Some v)"
  "des_u32 le (des_at xs (be32 w @ ys)) = Some (des_at (xs @ be32 w) ys, Some w)"
  "des_u64 le (des_at xs (be64 x @ ys)) = Some (des_at (xs @ be64 x) ys, Some x)"
proof -
  show "des_u8 (des_at xs (b # ys)) = Some (des_at (xs @ [b]) ys, Some b)"
    using des_next_at [of "[b]" 1 xs ys] by (simp add: des_u8_def) (simp add: des_at_def)
  have left: "\<not> des_remaining (des_at xs (bs @ ys)) < length bs" for bs by (simp add: des_at_def)
  show "des_u16 le (des_at xs (be16 v @ ys)) = Some (des_at (xs @ be16 v) ys, Some v)"
    using des_next_at [of "be16 v" 2 xs ys] left [of "be16 v"]
    unfolding des_u16_def is_little_endian_host by (simp add: Let_def of_mem_swapped) (simp add: be16_def u16_of_be16)
  show "des_u32 le (des_at xs (be32 w @ ys)) = Some (des_at (xs @ be32 w) ys, Some w)"
    using des_next_at [of "be32 w" 4 xs ys] left [of "be32 w"]
    unfolding des_u32_def is_little_endian_host by (simp add: Let_def of_mem_swapped) (simp add: be32_def u32_of_be32)
  show "des_u64 le (des_at xs (be64 x @ ys)) = Some (des_at (xs @ be64 x) ys, Some x)"
    using des_next_at [of "be64 x" 8 xs ys] left [of "be64 x"]
    unfolding des_u64_def is_little_endian_host
    by (simp add: Let_def of_mem_swapped) (simp add: be64_def be32_def u32_of_be32 u64_of_be64)
qed

text \<open>The types the other implementation can read.\<close>

fun readable :: "codec_type \<Rightarrow> bool" where
  "readable T_u8 = True"
| "readable T_u16 = True"
| "readable T_u32 = True"
| "readable T_i32 = True"
| "readable T_f32 = True"
| "readable T_u64 = True"
| "readable _ = False"

lemma readable_pos: "readable t \<Longrightarrow> 0 < wire_size t"
  by (cases t) simp_all

lemma des_member_fits:
  assumes "readable t" and "wire_size t \<le> length ys"
  obtains v r where "ys = encode v @ r" "has_type v t"
    "des_member le (des_at xs ys) t = Some (des_at (xs @ encode v) r, Some v)"
proof -
  have four: "\<exists>w r. ys = be32 w @ r" if "4 \<le> length ys" by (rule split_be32 [OF that]) blast
  have "\<exists>v r. ys = encode v @ r \<and> has_type v t \<and>
    des_member le (des_at xs ys) t = Some (des_at (xs @ encode v) r, Some v)"
  proof (cases t)
    case T_u8
    then obtain b r where "ys = b # r" using assms(2) by (cases ys) auto
    then show ?thesis using T_u8 by (intro exI [of _ "V_u8 b"] exI [of _ r]) (simp add: des_at_simps)
  next
    case T_u16
    then obtain v r where "ys = be16 v @ r" using assms(2) split_be16 [of ys] by auto
    then show ?thesis using T_u16 by (intro exI [of _ "V_u16 v"] exI [of _ r]) (simp add: des_at_simps)
  next
    case T_u32
    then obtain w r where "ys = be32 w @ r" using assms(2) four by auto
    then show ?thesis using T_u32 by (intro exI [of _ "V_u32 w"] exI [of _ r]) (simp add: des_at_simps)
  next
    case T_i32
    then obtain w r where "ys = be32 w @ r" using assms(2) four by auto
    then show ?thesis using T_i32 by (intro exI [of _ "V_i32 w"] exI [of _ r]) (simp add: des_i32_def des_at_simps)
  next
    case T_f32
    then obtain w r where "ys = be32 w @ r" using assms(2) four by auto
    then show ?thesis using T_f32 by (intro exI [of _ "V_f32 w"] exI [of _ r]) (simp add: des_f32_def des_at_simps)
  next
    case T_u64
    then obtain x r where "ys = be64 x @ r" using assms(2) split_be64 [of ys] by auto
    then show ?thesis using T_u64 by (intro exI [of _ "V_u64 x"] exI [of _ r]) (simp add: des_at_simps)
  qed (use assms(1) in simp_all)
  with that show thesis by blast
qed

lemma des_member_short:
  "readable t \<Longrightarrow> length ys < wire_size t \<Longrightarrow> des_member le (des_at xs ys) t = Some (des_at xs ys, None)"
  by (cases t) (simp_all add: des_u8_def des_u16_def des_u32_def des_i32_def des_f32_def des_u64_def, simp_all add: des_at_def)

lemma des_members_fit:
  "list_all readable ts \<Longrightarrow> total_size ts \<le> length ys \<Longrightarrow>
   \<exists>vs r. ys = encode_all vs @ r \<and> types vs ts \<and> des_members le (des_at xs ys) ts = Some (des_at (xs @ encode_all vs) r, map Some vs)"
proof (induction ts arbitrary: xs ys)
  case Nil
  then show ?case by (intro exI [of _ "[]"] exI [of _ ys]) simp
next
  case (Cons t ts)
  then have "readable t" "wire_size t \<le> length ys" by simp_all
  then obtain v r where v: "ys = encode v @ r" "has_type v t"
    "des_member le (des_at xs ys) t = Some (des_at (xs @ encode v) r, Some v)" by (rule des_member_fits)
  have "total_size ts \<le> length r" using Cons.prems(2) v(1) has_type_size [OF v(2)] by simp
  from Cons.IH [OF _ this, of "xs @ encode v"] Cons.prems(1) obtain vs r' where "r = encode_all vs @ r'" "types vs ts"
    "des_members le (des_at (xs @ encode v) r) ts = Some (des_at ((xs @ encode v) @ encode_all vs) r', map Some vs)"
    unfolding list.pred_inject by blast
  with v show ?case by (intro exI [of _ "v # vs"] exI [of _ r']) simp
qed

lemma des_members_total: "list_all readable ts \<Longrightarrow> \<exists>d rs. des_members le (des_at xs ys) ts = Some (d, rs)"
proof (induction ts arbitrary: xs ys)
  case (Cons t ts)
  have "\<exists>xs' ys' r. des_member le (des_at xs ys) t = Some (des_at xs' ys', r)"
  proof (cases "wire_size t \<le> length ys")
    case True
    with Cons.prems show ?thesis by (auto elim!: des_member_fits [of t ys le xs])
  next
    case False
    with Cons.prems show ?thesis by (auto simp: des_member_short)
  qed
  then obtain xs' ys' r where "des_member le (des_at xs ys) t = Some (des_at xs' ys', r)" by blast
  with Cons.IH [of xs' ys'] Cons.prems show ?case by auto
qed auto

lemma des_members_short:
  "list_all readable ts \<Longrightarrow> length ys < total_size ts \<Longrightarrow>
   \<exists>d rs. des_members le (des_at xs ys) ts = Some (d, rs) \<and> None \<in> set rs"
proof (induction ts arbitrary: xs ys)
  case (Cons t ts)
  show ?case
  proof (cases "wire_size t \<le> length ys")
    case True
    with Cons.prems(1) obtain v r where v: "ys = encode v @ r" "has_type v t"
      "des_member le (des_at xs ys) t = Some (des_at (xs @ encode v) r, Some v)" by (auto elim!: des_member_fits [of t ys le xs])
    have "length r < total_size ts" using Cons.prems(2) v(1) has_type_size [OF v(2)] by simp
    with Cons.IH [of r "xs @ encode v"] Cons.prems(1) v(3) show ?thesis by auto
  next
    case False
    with Cons.prems(1) have "des_member le (des_at xs ys) t = Some (des_at xs ys, None)" by (simp add: des_member_short)
    with des_members_total [of ts le xs ys] Cons.prems(1) show ?thesis by auto
  qed
qed simp

text \<open>Reading a header.\<close>

lemma deserialize_from_bytes:
  "deserialize_from le m (des_make (header_bytes h @ rest)) = Some (m\<lparr>rm_service_id := id_value (f_service h),
     rm_method_id := id_value (f_method h), rm_length := f_length h, rm_client_id := id_value (f_client h),
     rm_session_id := id_value (f_session h), rm_proto_ver := f_protocol h, rm_iface_ver := f_interface h,
     rm_msg_type := mt_code (f_type h), rm_ret_code := rc_code (f_rcode h)\<rparr>, des_at (header_bytes h) rest)"
  by (simp add: deserialize_from_def des_make_at header_bytes_def des_at_simps keep_def Let_def)

text \<open>The results of the reads are ignored: of a header cut inside the client identifier, the last byte is
  taken for the protocol version.\<close>

lemma cut_header_misread:
  "\<exists>m d. deserialize_from le ref_message_make (des_make (be16 0x1234 @ be16 1 @ be32 8 @ [0xAB])) = Some (m, d) \<and>
     rm_client_id m = 0 \<and> rm_proto_ver m = 0xAB"
proof -
  have short: "des_u16 le (des_at xs [b]) = Some (des_at xs [b], None)" for xs b by (simp add: des_u16_def des_at_def)
  have last: "des_u8 (des_at xs []) = Some (des_at xs [], None)" for xs by (simp add: des_u8_def des_at_def)
  show ?thesis
    by (simp add: deserialize_from_def des_make_at des_at_simps short last keep_def Let_def ref_message_make_def)
qed

section \<open>Properties\<close>

text \<open>C39. The library and the second implementation agree on requests, on hosts of either byte order: the request
  a proxy builds for a call is byte for byte what the other implementation serialises for a message with
  the same identifiers, the length of header tail and payload, and the payload serialised member by
  member; and reading the library's request, the other implementation gets that message back with the
  payload left to read.\<close>

theorem reference_same_message:
  assumes "list_all has_overload vs" and "length (encode_all vs) \<le> sizeof_req" and "length (encode_all vs) + 8 < 2 ^ 32"
  shows "\<exists>app1 c pl m d. async_call app p mth sizeof_req vs resp = Some (app1, c) \<and>
    ser_members le (ser_make 0) vs = Some pl \<and>
    m = ref_message_make\<lparr>rm_service_id := id_value (prx_service p), rm_method_id := id_value mth,
      rm_length := 8 + ser_get_size pl, rm_client_id := id_value (app_client (app_cfg app)),
      rm_session_id := id_value (snd (next_session app)),
      rm_payload := Some (ref_set_data [] (take (unat (ser_get_size pl)) (ser_data pl)))\<rparr> \<and>
    req_msg c = ser_data (serialize_to le m (ser_make 0)) \<and>
    deserialize_from le ref_message_make (des_make (req_msg c)) = Some (m\<lparr>rm_payload := Some []\<rparr>, d) \<and>
    des_get_remaining d = length (ser_data pl)"
proof -
  obtain app1 ss where n: "next_session app = (app1, ss)" by fastforce
  let ?h = "request_header (prx_service p) mth (app_client (app_cfg app)) ss"
  obtain pl where pl: "ser_members le (ser_make 0) vs = Some pl" "ser_data pl = encode_all vs"
    using ser_members_bytes [OF assms(1), of le "ser_make 0"] by (auto simp: ser_make_def)
  have size: "unat (ser_get_size pl) = length (encode_all vs)"
    using assms(3) pl(2) by (simp add: ser_get_size_def unat_of_nat_small)
  have small: "length (encode_all vs) < 2 ^ 32" using assms(3) by simp
  show ?thesis
    using build_request_bytes [OF assms(2), of app p mth resp] n pl size
      serialize_to_bytes [OF small, of le "id_value (prx_service p)" "id_value mth" "8 + ser_get_size pl"
        "id_value (app_client (app_cfg app))" "id_value ss" 1 0 0 0 "ser_make 0"]
    by (simp add: ref_message_make_def ref_set_data_def message_of_def deserialize_from_bytes request_header_def
        mt_request_def e_ok_def ser_make_def ser_get_size_def des_get_remaining_def des_at_def add.commute)
qed

lemma reference_same_message_witness:
  "\<exists>app c m d. async_call (application_init app_config_default () :: (unit, unit) application)
       (proxy_target proxy_make (Strong_id 0x1234) (Strong_id 1)) (Strong_id 1) 8 [V_i32 42, V_i32 (- 100)] [T_i32] = Some (app, c) \<and>
     deserialize_from True ref_message_make (des_make (req_msg c)) = Some (m, d) \<and>
     rm_service_id m = 0x1234 \<and> rm_length m = 16 \<and> des_get_remaining d = 8"
proof -
  let ?vs = "[V_i32 42, V_i32 (- 100)]"
  have pl: "ser_data pl = encode_all ?vs" if "ser_members True (ser_make 0) ?vs = Some pl" for pl
    using that by (auto simp: ser_make_def)
  have size: "ser_get_size pl = 8" "length (ser_data pl) = 8" if "ser_members True (ser_make 0) ?vs = Some pl" for pl
    using pl [OF that] by (simp_all add: ser_get_size_def)
  show ?thesis
    using reference_same_message [of ?vs 8 "application_init app_config_default () :: (unit, unit) application"
        "proxy_target proxy_make (Strong_id 0x1234) (Strong_id 1)" "Strong_id 1" "[T_i32]" True] size
    by (fastforce simp: proxy_target_def proxy_make_def)
qed

text \<open>C40. The library and the second implementation agree on the values they read, and differ on short buffers. From a
  buffer that is long enough both return the same members. From a shorter one, the other implementation
  never reads outside of it and reports a read that failed; the library reports the error exactly when
  the buffer ends between two members, and reads past its end otherwise.\<close>

theorem reference_same_values:
  assumes "list_all readable ts"
  shows "\<exists>d rs. des_members le (des_make buf) ts = Some (d, rs) \<and>
    (total_size ts \<le> length buf \<longrightarrow> (\<exists>vs. rs = map Some vs \<and> types vs ts \<and> deserialize buf ts = Some (Inr vs))) \<and>
    (length buf < total_size ts \<longrightarrow> None \<in> set rs \<and> deserialize buf ts =
      (if \<exists>k < length ts. length buf = total_size (take k ts) then Some (Inl Buffer_too_small) else None))"
proof -
  have pos: "\<forall>t \<in> set ts. 0 < wire_size t" using assms readable_pos by (auto simp: list_all_iff)
  show ?thesis
  proof (cases "total_size ts \<le> length buf")
    case True
    from des_members_fit [OF assms True, of le "[]"] obtain vs r where vs: "buf = encode_all vs @ r" "types vs ts"
      "des_members le (des_make buf) ts = Some (des_at (encode_all vs) r, map Some vs)" by (auto simp: des_make_at)
    have "deserialize buf ts = Some (Inr vs)"
      using deserialize_checked_encode [OF vs(2) pos, of "[]" 0 r] vs(1) by (simp add: deserialize_def)
    with vs True show ?thesis by auto
  next
    case False
    with des_members_short [OF assms, of buf le "[]"] deserialize_checked_exact [OF pos, of 0 buf] show ?thesis
      by (auto simp: des_make_at deserialize_def split: if_splits)
  qed
qed

lemma reference_same_values_witness:
  "(\<exists>d rs. des_members True (des_make [1, 2, 3]) [T_u16, T_u32] = Some (d, rs) \<and> None \<in> set rs) \<and>
   deserialize [1, 2] [T_u16, T_u32] = Some (Inl Buffer_too_small) \<and> deserialize [1, 2, 3] [T_u16, T_u32] = None"
proof -
  have cut: "(\<exists>k < length [T_u16, T_u32]. n = total_size (take k [T_u16, T_u32])) \<longleftrightarrow> n = 0 \<or> n = 2" for n
    by (auto simp: less_Suc_eq)
  show ?thesis
    using reference_same_values [of "[T_u16, T_u32]" True "[1, 2]"] reference_same_values [of "[T_u16, T_u32]" True "[1, 2, 3]"]
    unfolding cut by auto
qed

end
