(* ===== verification/Bench_Workloads_Correct.thy ===== *)
theory Bench_Workloads_Correct
  imports Bench_Workloads Bench_Reference_Correct Comm_Correct
begin

text \<open>
  What the workloads of the benchmarks do: that every call they wait for completes, so that they end; which
  of their handlers are called; and whether the two sides of each comparison compute the same.
\<close>

section \<open>Loops\<close>

lemma bench_loop_inv:
  assumes "\<And>s. keeps s \<Longrightarrow> \<exists>s'. fn s = Done (Inr s') \<and> keeps s' \<and> count s' = count s + k" and "keeps s"
  shows "\<exists>s'. bench_loop n fn s = Done (Inr s') \<and> keeps s' \<and> count s' = count s + n * k"
  using assms(2)
proof (induction n arbitrary: s)
  case (Suc n)
  from assms(1) [OF Suc.prems] obtain s1 where s1: "fn s = Done (Inr s1)" "keeps s1" "count s1 = count s + k" by blast
  from Suc.IH [OF s1(2)] s1 show ?case by auto
qed simp

lemma benchmark_inv:
  assumes "\<And>s. keeps s \<Longrightarrow> \<exists>s'. fn s = Done (Inr s') \<and> keeps s' \<and> count s' = count s + k" and "keeps s"
  shows "\<exists>s'. benchmark n fn s = Done (Inr s') \<and> keeps s' \<and> count s' = count s + (min (n div 10) 1000 + n) * (k :: nat)"
proof -
  obtain s1 where s1: "bench_loop (min (n div 10) 1000) fn s = Done (Inr s1)" "keeps s1" "count s1 = count s + min (n div 10) 1000 * k"
    using bench_loop_inv [of keeps fn count k, OF assms] by blast
  obtain s2 where "bench_loop n fn s1 = Done (Inr s2)" "keeps s2" "count s2 = count s1 + n * k"
    using bench_loop_inv [of keeps fn count k, OF assms(1) s1(2)] by blast
  with s1 show ?thesis by (auto simp: benchmark_def add_mult_distrib)
qed

section \<open>Services and calls\<close>

lemma served_app:
  assumes "served w service major now = (app, skel)"
  shows "rm_dispatcher (app_router app) = dispatcher_empty" "app_world app = w" "app_completions app = []"
    "skel_service skel = service"
  using assms
  by (auto simp: served_def skeleton_offer_def app_offer_service_def manager_offer_service_def after_registry_def
      application_init_def manager_empty_def split: prod.splits)

lemma async_call_frame:
  assumes "async_call app p mth n vs resp = Some (app1, c)"
  shows "app_completions app1 = app_completions app"
proof -
  obtain app0 ss where n: "next_session app = (app0, ss)" by fastforce
  from assms obtain msg msg' r where "serialize_payload msg vs = Some (msg', r)"
    and r: "(case r of Inl err \<Rightarrow> do { msg \<leftarrow> set_payload_length (vec_resize 0 msg' header_size) 0; Some (app0, msg) }
       | Inr n \<Rightarrow> do { msg \<leftarrow> finish_message msg' n; Some (app0, msg) }) = Some (app1, req_msg c)"
    by (auto simp: async_call_def build_request_impl_def n bind_eq_Some_conv Let_def)
  from r have "app1 = app0" by (cases r) (auto simp: bind_eq_Some_conv Let_def)
  with next_session_frame [OF n] show ?thesis by simp
qed

lemma served_call:
  assumes "target (rm_dispatcher (app_router app)) (prx_service p) mth = Some (handler_of (Serve ts size_resp handler))"
    and "\<not> (prx_service p = sd_service \<and> mth = sd_method)"
    and "types vs ts" "\<forall>t \<in> set ts. 0 < wire_size t" "total_size ts + 8 < 2 ^ 32" "total_size ts \<le> size_req"
    and "types r rs" "\<forall>t \<in> set rs. 0 < wire_size t" "total_size rs + 8 < 2 ^ 32" "total_size rs \<le> size_resp"
    and "handler (app_world app) vs = Some (w, sent, r)"
    and "\<And>a. app_router a = app_router app \<Longrightarrow>
      route_each (app_route (Suc fuel)) (a\<lparr>app_world := w\<rparr>) sent = Done (a\<lparr>app_world := w'\<rparr>)"
  shows "\<exists>app1 c app2. async_call app p mth size_req vs rs = Some (app1, c) \<and>
    sync_wait (Suc (Suc fuel)) app1 c = Done (Inr (app2, r)) \<and>
    app_completions app2 = app_completions app @ [(length (app_completions app), Value r)] \<and>
    app_world app2 = w' \<and> app_router app2 = app_router app"
proof -
  from async_call_served [OF assms, of "length (app_completions app)"] obtain app1 c app2 where
    one: "async_call app p mth size_req vs rs = Some (app1, c)"
      "call_start (Suc (Suc fuel)) app1 c (length (app_completions app)) = Done app2"
      "app_completions app2 = app_completions app @ [(length (app_completions app), Value r)]"
      "app_world app2 = w'" "app_router app2 = app_router app" by metis
  then have "sync_wait (Suc (Suc fuel)) app1 c = Done (Inr (app2, r))"
    using async_call_frame [OF one(1)] by (simp add: sync_wait_def)
  with one show ?thesis by blast
qed

lemma rpc_iteration_served:
  assumes "target (rm_dispatcher (app_router app)) service mth = Some (handler_of (Serve ts size_resp handler))"
    and "service \<noteq> sd_service" and "types vs ts" "\<forall>t \<in> set ts. 0 < wire_size t" "total_size ts + 8 < 2 ^ 32" "total_size ts \<le> size_req"
    and "types r rs" "\<forall>t \<in> set rs. 0 < wire_size t" "total_size rs + 8 < 2 ^ 32" "total_size rs \<le> size_resp"
    and "handler (app_world app) vs = Some (app_world app, [], r)"
  shows "\<exists>app'. rpc_iteration (Suc (Suc fuel)) service mth size_req vs rs app = Done (Inr app') \<and>
    app_completions app' = app_completions app @ [(length (app_completions app), Value r)] \<and>
    app_world app' = app_world app \<and> app_router app' = app_router app"
proof -
  have p: "prx_service (client service) = service" by (simp add: client_def proxy_target_def proxy_make_def)
  have "\<exists>app1 c app2. async_call app (client service) mth size_req vs rs = Some (app1, c) \<and>
    sync_wait (Suc (Suc fuel)) app1 c = Done (Inr (app2, r)) \<and>
    app_completions app2 = app_completions app @ [(length (app_completions app), Value r)] \<and>
    app_world app2 = app_world app \<and> app_router app2 = app_router app"
    by (rule served_call [where ts = ts and size_resp = size_resp and handler = handler and sent = "[]" and w = "app_world app"])
      (use assms p in simp_all)
  then show ?thesis by (auto simp: rpc_iteration_def rpc_call_def)
qed

text \<open>A benchmark of one call, repeated: it ends, and every call was completed with the handler's answer.\<close>

lemma rpc_benchmark:
  assumes "served w service 1 now = (app, skel)" and "service \<noteq> sd_service"
    and "types vs ts" "\<forall>t \<in> set ts. 0 < wire_size t" "total_size ts + 8 < 2 ^ 32" "total_size ts \<le> size_req"
    and "types r rs" "\<forall>t \<in> set rs. 0 < wire_size t" "total_size rs + 8 < 2 ^ 32" "total_size rs \<le> size_resp"
    and "handler w vs = Some (w, [], r)"
  shows "\<exists>app'. benchmark n (rpc_iteration (Suc (Suc fuel)) service mth size_req vs rs)
      (serve app skel mth ts size_resp handler) = Done (Inr app') \<and>
    snd ` set (app_completions app') \<subseteq> {Value r} \<and> length (app_completions app') = min (n div 10) 1000 + n"
proof -
  let ?t = "target (rm_dispatcher (app_router (serve app skel mth ts size_resp handler))) service mth"
  note frame = served_app [OF assms(1)]
  have t: "?t = Some (handler_of (Serve ts size_resp handler))"
    by (rule target_exact) (simp add: serve_def handler_at_register frame dispatcher_empty_maps)
  have start: "app_world (serve app skel mth ts size_resp handler) = w" "app_completions (serve app skel mth ts size_resp handler) = []"
    by (simp_all add: serve_def register_message_handler_def with_dispatcher_def frame)
  let ?keeps = "\<lambda>b. app_router b = app_router (serve app skel mth ts size_resp handler) \<and> app_world b = w \<and>
    snd ` set (app_completions b) \<subseteq> {Value r}"
  have "\<exists>b'. rpc_iteration (Suc (Suc fuel)) service mth size_req vs rs b = Done (Inr b') \<and> ?keeps b' \<and>
      length (app_completions b') = length (app_completions b) + 1" if "?keeps b" for b
  proof -
    have "target (rm_dispatcher (app_router b)) service mth = Some (handler_of (Serve ts size_resp handler))"
      "handler (app_world b) vs = Some (app_world b, [], r)" using that t assms(11) by simp_all
    from rpc_iteration_served [OF this(1) assms(2-10) this(2), of fuel] that show ?thesis by auto
  qed
  from benchmark_inv [of ?keeps _ "\<lambda>b. length (app_completions b)" 1, OF this] start show ?thesis by fastforce
qed

lemma rpc_benchmarks:
  "\<exists>app :: (unit, 'a) application. rpc_small (Suc (Suc fuel)) now = Done (Inr app) \<and> snd ` set (app_completions app) \<subseteq> {Value [V_u16 61, V_u8 4, V_u8 0]} \<and>
     length (app_completions app) = 501000"
  "\<exists>app :: (unit, 'a) application. rpc_medium (Suc (Suc fuel)) now = Done (Inr app) \<and>
     snd ` set (app_completions app) \<subseteq> {Value [V_u16 0x1234, V_u16 0, V_bytes (replicate 64 0)]} \<and>
     length (app_completions app) = 501000"
  "\<exists>app :: (unit, 'a) application. rpc_large (Suc (Suc fuel)) now = Done (Inr app) \<and>
     snd ` set (app_completions app) \<subseteq> {Value [V_u16 42, V_u16 1, V_bytes (replicate 252 0xAB)]} \<and>
     length (app_completions app) = 501000"
proof -
  obtain app :: "(unit, 'a) application" and skel where s: "served () (Strong_id 0x3000) 1 now = (app, skel)" by fastforce
  show "\<exists>app :: (unit, 'a) application. rpc_small (Suc (Suc fuel)) now = Done (Inr app) \<and> snd ` set (app_completions app) \<subseteq> {Value [V_u16 61, V_u8 4, V_u8 0]} \<and>
     length (app_completions app) = 501000"
    unfolding rpc_small_def s prod.case
    using rpc_benchmark [OF s, of "[V_u16 60, V_u8 4, V_u8 0]" vehicle_speed 4 "[V_u16 61, V_u8 4, V_u8 0]" vehicle_speed 4
        speed_handler 500000 fuel "Strong_id 1"]
    by (simp add: vehicle_speed_def speed_handler_def sd_service_def)
  obtain app :: "(unit, 'a) application" and skel where s: "served () (Strong_id 0x3001) 1 now = (app, skel)" by fastforce
  show "\<exists>app :: (unit, 'a) application. rpc_medium (Suc (Suc fuel)) now = Done (Inr app) \<and>
     snd ` set (app_completions app) \<subseteq> {Value [V_u16 0x1234, V_u16 0, V_bytes (replicate 64 0)]} \<and>
     length (app_completions app) = 501000"
    unfolding rpc_medium_def s prod.case
    using rpc_benchmark [OF s, of "[V_u16 0x1234, V_u16 1, V_bytes (replicate 32 0)]" diag_request 36
        "[V_u16 0x1234, V_u16 0, V_bytes (replicate 64 0)]" diag_response 68 diag_handler 500000 fuel "Strong_id 1"]
    by (simp add: diag_request_def diag_response_def diag_handler_def sd_service_def)
  obtain app :: "(unit, 'a) application" and skel where s: "served () (Strong_id 0x3002) 1 now = (app, skel)" by fastforce
  show "\<exists>app :: (unit, 'a) application. rpc_large (Suc (Suc fuel)) now = Done (Inr app) \<and>
     snd ` set (app_completions app) \<subseteq> {Value [V_u16 42, V_u16 1, V_bytes (replicate 252 0xAB)]} \<and>
     length (app_completions app) = 501000"
    unfolding rpc_large_def s prod.case
    using rpc_benchmark [OF s, of "[V_u16 42, V_u16 0]" config_request 4
        "[V_u16 42, V_u16 1, V_bytes (replicate 252 0xAB)]" config_response 256 config_handler 500000 fuel "Strong_id 1"]
    by (simp add: config_request_def config_response_def config_handler_def sd_service_def)
qed

section \<open>Attributes and broadcasts\<close>

lemma notification_not_response: "\<not> is_response (f_type (notification_header svc ev))"
  by (simp add: notification_header_def mt_notification_def is_response_def)

lemma route_notification_unhandled:
  assumes "target (rm_dispatcher (app_router app)) svc ev = None" and "svc \<noteq> sd_service"
    and "types v ts" "total_size ts + 8 < 2 ^ 32"
  shows "app_route (Suc fuel) app (message_of (notification_header svc ev) v) = Done (app, False)"
  using app_route_dispatch [OF assms(3,4), of "notification_header svc ev" app fuel] assms(1,2) notification_not_response
  by (simp add: notification_header_def)

text \<open>A served speed attribute whose event nobody handles.\<close>

definition speed_served :: "bool \<Rightarrow> skeleton \<Rightarrow> (codec_value list, 'a) application \<Rightarrow> bool" where
  "speed_served le skel app \<longleftrightarrow>
     target (rm_dispatcher (app_router app)) (skel_service skel) (Strong_id 1) =
       Some (handler_of (Serve [T_u8] 4 (\<lambda>w _. Some (w, [], w)))) \<and>
     target (rm_dispatcher (app_router app)) (skel_service skel) (Strong_id 2) =
       Some (handler_of (Serve vehicle_speed 1 (\<lambda>w v. do {
         (w, sent) \<leftarrow> attribute_set (vehicle_repr le) (speed_attribute skel) w v; Some (w, sent, [V_u8 0]) }))) \<and>
     target (rm_dispatcher (app_router app)) (skel_service skel) (Strong_id 0x8001) = None \<and>
     skel_service skel \<noteq> sd_service"

lemma speed_served_router: "app_router app' = app_router app \<Longrightarrow> speed_served le skel app' \<longleftrightarrow> speed_served le skel app"
  by (simp add: speed_served_def)

lemma client_service: "prx_service (client service) = service"
  by (simp add: client_def proxy_target_def proxy_make_def)

lemma speed_type:
  "\<forall>t \<in> set vehicle_speed. 0 < wire_size t" "total_size vehicle_speed = 4"
  "types v vehicle_speed \<Longrightarrow> length (encode_all v) = 4"
  using types_size [of v vehicle_speed] by (simp_all add: vehicle_speed_def)

lemma attr_get_served:
  assumes "speed_served le skel app" and "types (app_world app) vehicle_speed"
  shows "\<exists>app'. attr_get_iteration (Suc (Suc fuel)) (skel_service skel) app = Done (Inr app') \<and>
    app_completions app' = app_completions app @ [(length (app_completions app), Value (app_world app))] \<and>
    app_world app' = app_world app \<and> app_router app' = app_router app"
proof -
  have "\<exists>app1 c app2. async_call app (client (skel_service skel)) (Strong_id 1) 1 [V_u8 0] vehicle_speed = Some (app1, c) \<and>
    sync_wait (Suc (Suc fuel)) app1 c = Done (Inr (app2, app_world app)) \<and>
    app_completions app2 = app_completions app @ [(length (app_completions app), Value (app_world app))] \<and>
    app_world app2 = app_world app \<and> app_router app2 = app_router app"
    by (rule served_call [where ts = "[T_u8]" and size_resp = 4 and handler = "\<lambda>w _. Some (w, [], w)" and sent = "[]"
          and w = "app_world app"])
      (use assms in \<open>simp_all add: speed_served_def client_service speed_type\<close>)
  then show ?thesis by (auto simp: attr_get_iteration_def attribute_proxy_get_def)
qed

lemma attr_set_served:
  assumes "speed_served le skel app"
  shows "\<exists>app'. attr_set_iteration (Suc (Suc fuel)) (skel_service skel) (app, n) = Done (Inr (app', n + 1)) \<and>
    app_completions app' = app_completions app @ [(length (app_completions app), Value [V_u8 0])] \<and>
    app_world app' = [V_u16 n, V_u8 3, V_u8 0] \<and> app_router app' = app_router app"
proof -
  let ?v = "[V_u16 n, V_u8 3, V_u8 0]" and ?a = "speed_attribute skel"
  let ?sent = "if vehicle_repr le (app_world app) = vehicle_repr le ?v then []
    else [message_of (notification_header (skel_service skel) (Strong_id 0x8001)) ?v]"
  have ty: "types ?v vehicle_speed" by (simp add: vehicle_speed_def)
  have "attribute_set (vehicle_repr le) ?a (app_world app) ?v = Some (?v, ?sent)"
    using speed_type(3) [OF ty] attribute_set_bytes [of ?v ?a "vehicle_repr le" "app_world app"]
    by (simp add: speed_attribute_def)
  moreover have "route_each (app_route (Suc fuel)) (b\<lparr>app_world := ?v\<rparr>) ?sent = Done (b\<lparr>app_world := ?v\<rparr>)"
    if "app_router b = app_router app" for b
  proof -
    have "target (rm_dispatcher (app_router (b\<lparr>app_world := ?v\<rparr>))) (skel_service skel) (Strong_id 0x8001) = None"
      "skel_service skel \<noteq> sd_service" "total_size vehicle_speed + 8 < 2 ^ 32"
      using that assms by (simp_all add: speed_served_def speed_type)
    from route_notification_unhandled [OF this(1,2) ty this(3), of fuel] show ?thesis by simp
  qed
  ultimately have "\<exists>app1 c app2. async_call app (client (skel_service skel)) (Strong_id 2) 4 ?v [T_u8] = Some (app1, c) \<and>
    sync_wait (Suc (Suc fuel)) app1 c = Done (Inr (app2, [V_u8 0])) \<and>
    app_completions app2 = app_completions app @ [(length (app_completions app), Value [V_u8 0])] \<and>
    app_world app2 = ?v \<and> app_router app2 = app_router app"
    by (intro served_call [where ts = vehicle_speed and size_resp = 1 and w = ?v and sent = ?sent
          and handler = "\<lambda>w v. do { (w, sent) \<leftarrow> attribute_set (vehicle_repr le) ?a w v; Some (w, sent, [V_u8 0]) }"])
      (use assms ty in \<open>simp_all add: speed_served_def client_service speed_type\<close>)
  then show ?thesis by (auto simp: attr_set_iteration_def attribute_proxy_set_def)
qed

lemma gps_type: "types gps gps_position" "total_size gps_position + 8 < 2 ^ 32" "length (encode_all gps) = 32"
  by (simp_all add: gps_def gps_position_def)

lemma fire_unhandled:
  assumes "target (rm_dispatcher (app_router app)) (skel_service skel) (Strong_id 0x8100) = None" "skel_service skel \<noteq> sd_service"
  shows "fire_iteration (Suc fuel) skel app = Done (Inr app)"
  using route_notification_unhandled [OF assms gps_type(1,2), of fuel]
  by (simp add: fire_iteration_def broadcast_fire_def skeleton_notify_def notify_message_bytes gps_type(3))

lemma fire_counted:
  assumes "target (rm_dispatcher (app_router app)) (skel_service skel) (Strong_id 0x8100) = Some count_handler"
    and "skel_service skel \<noteq> sd_service"
  shows "fire_iteration (Suc fuel) skel app = Done (Inr (app\<lparr>app_world := app_world app + 1\<rparr>))"
proof -
  have "app_route (Suc fuel) app (message_of (notification_header (skel_service skel) (Strong_id 0x8100)) gps) =
      Done (app\<lparr>app_world := app_world app + 1\<rparr>, True)"
    using app_route_dispatch [OF gps_type(1,2), of "notification_header (skel_service skel) (Strong_id 0x8100)" app fuel]
      assms notification_not_response
    by (simp add: notification_header_def handler_call_def count_handler_def handler_of_def call_callable_def)
  then show ?thesis
    by (simp add: fire_iteration_def broadcast_fire_def skeleton_notify_def notify_message_bytes gps_type(3))
qed

lemma target_empty: "target dispatcher_empty s m = None"
  by (simp add: target_def dispatcher_empty_maps)

lemma fanout_1_counts: "\<exists>app :: (nat, 'a) application. fanout_1 (Suc fuel) now = Done (Inr app) \<and> app_world app = 201000"
proof -
  obtain app :: "(nat, 'a) application" and skel where s: "served 0 (Strong_id 0x2000) 1 now = (app, skel)" by fastforce
  note frame = served_app [OF s]
  let ?app = "register_message_handler app (Strong_id 0x2000) (Strong_id 0x8100) count_handler"
  have t: "target (rm_dispatcher (app_router ?app)) (skel_service skel) (Strong_id 0x8100) = Some count_handler"
    by (rule target_exact) (simp add: handler_at_register frame dispatcher_empty_maps)
  have w: "app_world ?app = 0" by (simp add: register_message_handler_def with_dispatcher_def frame)
  let ?keeps = "\<lambda>b. app_router b = app_router ?app"
  have "\<exists>b'. fire_iteration (Suc fuel) skel b = Done (Inr b') \<and> ?keeps b' \<and> app_world b' = app_world b + 1" if "?keeps b" for b
    using fire_counted [of b skel fuel] t that by (simp add: frame sd_service_def)
  from benchmark_inv [of ?keeps _ app_world 1, OF this, of ?app 200000] w show ?thesis
    by (auto simp: fanout_1_def s)
qed

lemma fanout_10_counts: "\<exists>app :: (nat, 'a) application. fanout_10 (Suc fuel) now = Done (Inr app) \<and> app_world app = 0"
proof -
  obtain app :: "(nat, 'a) application" and skel where s: "served 0 (Strong_id 0x2001) 1 now = (app, skel)" by fastforce
  note frame = served_app [OF s]
  let ?sub = "\<lambda>i app. app_subscribe app (Strong_id 0x2001) (Strong_id 0x8100) count_handler"
  have sub: "disp_handlers (rm_dispatcher (app_router (fold ?sub xs b))) = disp_handlers (rm_dispatcher (app_router b)) \<and>
      app_world (fold ?sub xs b) = app_world b" for xs :: "nat list" and b :: "(nat, 'a) application"
    by (induction xs arbitrary: b) (simp_all add: app_subscribe_def with_dispatcher_def subscribe_def)
  let ?app = "fold ?sub [0..<10] app"
  have t: "target (rm_dispatcher (app_router ?app)) (skel_service skel) (Strong_id 0x8100) = None"
    using sub [of "[0..<10]" app] by (simp add: target_def handler_at_def frame dispatcher_empty_def del: upt_rec_numeral)
  let ?keeps = "\<lambda>b. b = ?app"
  have "\<exists>b'. fire_iteration (Suc fuel) skel b = Done (Inr b') \<and> ?keeps b' \<and> (0 :: nat) = 0 + 0" if "?keeps b" for b
    using fire_unhandled [of b skel fuel] t that by (simp add: frame sd_service_def del: upt_rec_numeral)
  from benchmark_inv [of ?keeps "fire_iteration (Suc fuel) skel" "\<lambda>b. 0" 0 ?app 200000, OF this] sub [of "[0..<10]" app] show ?thesis
    by (simp add: fanout_10_def s frame del: upt_rec_numeral)
qed

text \<open>The attribute of a fresh application, and further handlers beside it.\<close>

lemma speed_served_make:
  fixes app :: "(codec_value list, 'a) application"
  assumes "served w service 1 now = (app, skel)" and "service \<noteq> sd_service"
  defines "app1 le \<equiv> attribute_make app (vehicle_repr le) (speed_attribute skel) (Strong_id 1) (Strong_id 2) vehicle_speed 4"
  shows "speed_served le skel (app1 le)" "dispatcher_inv (rm_dispatcher (app_router (app1 le)))"
    "app_world (app1 le) = w" "app_completions (app1 le) = []"
  using assms(2) unfolding app1_def attribute_make_def serve_def Let_def
  by (simp_all add: served_app [OF assms(1)] speed_served_def target_def handler_at_register dispatcher_empty_maps
      speed_attribute_def any_method_def)
    (simp_all add: register_message_handler_def with_dispatcher_def served_app [OF assms(1)])

lemma bench_attribute_completes:
  "\<exists>(app :: (codec_value list, 'a) application) n. bench_attribute (Suc (Suc fuel)) le now = Done (Inr (app, n)) \<and>
     length (app_completions app) = 1002000 \<and> (\<forall>r \<in> snd ` set (app_completions app). \<exists>v. r = Value v)"
proof -
  let ?w = "[V_u16 0, V_u8 0, V_u8 0]"
  obtain app :: "(codec_value list, 'a) application" and skel where s: "served ?w (Strong_id 0x1000) 1 now = (app, skel)" by fastforce
  have sd: "Strong_id 0x1000 \<noteq> sd_service" by (simp add: sd_service_def)
  note made = speed_served_make [OF s sd, of le]
  have app: "attribute_app le now = attribute_make app (vehicle_repr le) (speed_attribute skel) (Strong_id 1) (Strong_id 2) vehicle_speed 4"
    by (simp add: attribute_app_def s)
  have svc: "skel_service skel = Strong_id 0x1000" using served_app [OF s] by simp
  let ?fine = "\<lambda>b :: (codec_value list, 'a) application. \<forall>r \<in> snd ` set (app_completions b). \<exists>v. r = Value v"
  let ?keeps = "\<lambda>b. speed_served le skel b \<and> types (app_world b) vehicle_speed \<and> ?fine b"
  have "\<exists>b'. attr_get_iteration (Suc (Suc fuel)) (Strong_id 0x1000) b = Done (Inr b') \<and> ?keeps b' \<and>
      length (app_completions b') = length (app_completions b) + 1" if "?keeps b" for b
  proof -
    from that attr_get_served [of le skel b fuel] obtain b' where
      "attr_get_iteration (Suc (Suc fuel)) (Strong_id 0x1000) b = Done (Inr b')" "app_world b' = app_world b"
      "app_completions b' = app_completions b @ [(length (app_completions b), Value (app_world b))]"
      "app_router b' = app_router b" unfolding svc by blast
    with that speed_served_router [OF this(4), of le skel] show ?thesis by auto
  qed
  moreover have "?keeps (attribute_app le now)" using made by (simp add: app) (simp add: vehicle_speed_def)
  ultimately obtain b where b: "benchmark 500000 (attr_get_iteration (Suc (Suc fuel)) (Strong_id 0x1000)) (attribute_app le now) = Done (Inr b)"
      "?keeps b" "length (app_completions b) = 501000"
    using benchmark_inv [of ?keeps "attr_get_iteration (Suc (Suc fuel)) (Strong_id 0x1000)" "\<lambda>b. length (app_completions b)" 1
        "attribute_app le now" 500000] made(4) by (auto simp: app)
  let ?keep2 = "\<lambda>s. speed_served le skel (fst s) \<and> ?fine (fst s)"
  have "\<exists>s'. attr_set_iteration (Suc (Suc fuel)) (Strong_id 0x1000) s = Done (Inr s') \<and> ?keep2 s' \<and>
      length (app_completions (fst s')) = length (app_completions (fst s)) + 1" if "?keep2 s" for s
  proof -
    from that attr_set_served [of le skel "fst s" fuel "snd s"] obtain b' where
      "attr_set_iteration (Suc (Suc fuel)) (Strong_id 0x1000) s = Done (Inr (b', snd s + 1))"
      "app_completions b' = app_completions (fst s) @ [(length (app_completions (fst s)), Value [V_u8 0])]"
      "app_router b' = app_router (fst s)" unfolding svc prod.collapse by blast
    with that speed_served_router [OF this(3), of le skel] show ?thesis by auto
  qed
  from benchmark_inv [of ?keep2 "attr_set_iteration (Suc (Suc fuel)) (Strong_id 0x1000)"
      "\<lambda>s. length (app_completions (fst s))" 1 "(b, 0)" 500000, OF this] b show ?thesis
    by (auto simp: bench_attribute_def)
qed

text \<open>One iteration of the mixed workload.\<close>

definition mixed_served :: "bool \<Rightarrow> skeleton \<Rightarrow> (codec_value list, 'a) application \<Rightarrow> bool" where
  "mixed_served le skel app \<longleftrightarrow> speed_served le skel app \<and>
     target (rm_dispatcher (app_router app)) (skel_service skel) (Strong_id 0x10) =
       Some (handler_of (Serve diag_request 68 diag_handler)) \<and>
     target (rm_dispatcher (app_router app)) (skel_service skel) (Strong_id 0x8100) = None"

lemma mixed_served_router: "app_router app' = app_router app \<Longrightarrow> mixed_served le skel app' \<longleftrightarrow> mixed_served le skel app"
  by (simp add: mixed_served_def speed_served_def)

lemma mixed_iteration_served:
  assumes "mixed_served le skel app" and "skel_service skel = Strong_id 0x4000"
  shows "\<exists>app' i j. mixed_iteration (Suc (Suc fuel)) skel (app, n) = Done (Inr (app', n + 1)) \<and> app_router app' = app_router app \<and>
    app_completions app' = app_completions app @
      [(i, Value [V_u8 0]), (j, Value [V_u16 0x1234, V_u16 0, V_bytes (replicate 64 0)])] \<and>
    app_world app' = [V_u16 n, V_u8 3, V_u8 0]"
proof -
  have "speed_served le skel app" using assms(1) by (simp add: mixed_served_def)
  from attr_set_served [OF this, of fuel n] obtain app1 where one:
    "attr_set_iteration (Suc (Suc fuel)) (Strong_id 0x4000) (app, n) = Done (Inr (app1, n + 1))"
    "app_completions app1 = app_completions app @ [(length (app_completions app), Value [V_u8 0])]"
    "app_world app1 = [V_u16 n, V_u8 3, V_u8 0]" "app_router app1 = app_router app" by (auto simp: assms(2))
  have served: "mixed_served le skel app1" using assms(1) mixed_served_router [OF one(4)] by simp
  then have two: "fire_iteration (Suc (Suc fuel)) skel app1 = Done (Inr app1)"
    by (intro fire_unhandled) (auto simp: mixed_served_def speed_served_def)
  let ?r = "[V_u16 0x1234, V_u16 0, V_bytes (replicate 64 0)]"
  have "\<exists>app'. rpc_iteration (Suc (Suc fuel)) (Strong_id 0x4000) (Strong_id 0x10) 36
      [V_u16 0x1234, V_u16 1, V_bytes (replicate 32 0)] diag_response app1 = Done (Inr app') \<and>
    app_completions app' = app_completions app1 @ [(length (app_completions app1), Value ?r)] \<and>
    app_world app' = app_world app1 \<and> app_router app' = app_router app1"
    by (rule rpc_iteration_served [where ts = diag_request and size_resp = 68 and handler = diag_handler])
      (use served assms(2) in \<open>simp_all add: mixed_served_def speed_served_def diag_request_def diag_response_def diag_handler_def
        sd_service_def\<close>)
  then show ?thesis using one two by (fastforce simp: mixed_iteration_def)
qed

lemma mixed_app_served:
  fixes app :: "(codec_value list, 'a) application"
  assumes "mixed_app le now = (app, skel)"
  shows "mixed_served le skel app" "skel_service skel = Strong_id 0x4000" "app_completions app = []"
proof -
  obtain app0 :: "(codec_value list, 'a) application" and skel0
    where s: "served [V_u16 0, V_u8 0, V_u8 0] (Strong_id 0x4000) 1 now = (app0, skel0)" by fastforce
  let ?app1 = "attribute_make app0 (vehicle_repr le) (speed_attribute skel0) (Strong_id 1) (Strong_id 2) vehicle_speed 4"
  have eq: "skel = skel0" "app = serve ?app1 skel0 (Strong_id 0x10) diag_request 68 diag_handler"
    using assms by (auto simp: mixed_app_def s Let_def)
  have sd: "Strong_id 0x4000 \<noteq> sd_service" by (simp add: sd_service_def)
  note frame = served_app [OF s] and made = speed_served_make [OF s sd, of le]
  show "skel_service skel = Strong_id 0x4000" using frame eq(1) by simp
  show "app_completions app = []"
    using made(4) by (simp add: eq(2) serve_def register_message_handler_def with_dispatcher_def)
  show "mixed_served le skel app"
    unfolding eq mixed_served_def speed_served_def attribute_make_def serve_def Let_def
    by (simp add: target_def handler_at_register frame dispatcher_empty_maps any_method_def speed_attribute_def sd)
qed

lemma bench_mixed_completes:
  "\<exists>(app :: (codec_value list, 'a) application) n. bench_mixed (Suc (Suc fuel)) le now = Done (Inr (app, n)) \<and>
     length (app_completions app) = 402000 \<and> (\<forall>r \<in> snd ` set (app_completions app). \<exists>v. r = Value v)"
proof -
  obtain app :: "(codec_value list, 'a) application" and skel where s: "mixed_app le now = (app, skel)" by fastforce
  note made = mixed_app_served [OF s]
  let ?keeps = "\<lambda>s. mixed_served le skel (fst s) \<and> (\<forall>r \<in> snd ` set (app_completions (fst s)). \<exists>v. r = Value v)"
  have "\<exists>s'. mixed_iteration (Suc (Suc fuel)) skel s = Done (Inr s') \<and> ?keeps s' \<and>
      length (app_completions (fst s')) = length (app_completions (fst s)) + 2" if "?keeps s" for s
  proof -
    obtain b n where b: "s = (b, n)" by fastforce
    with that mixed_iteration_served [of le skel b fuel n] made(2) obtain b' i j where
      "mixed_iteration (Suc (Suc fuel)) skel s = Done (Inr (b', n + 1))" "app_router b' = app_router b"
      "app_completions b' = app_completions b @ [(i, Value [V_u8 0]), (j, Value [V_u16 0x1234, V_u16 0, V_bytes (replicate 64 0)])]"
      by auto
    with that b mixed_served_router [OF this(2), of le skel] show ?thesis by auto
  qed
  from benchmark_inv [of ?keeps _ "\<lambda>s. length (app_completions (fst s))" 2 "(app, 0)" 200000, OF this] made show ?thesis
    by (auto simp: bench_mixed_def s)
qed

section \<open>Comparisons\<close>

text \<open>Headers: both sides write the same 16 bytes, whatever was there before, and read the same fields.\<close>

lemma header_write_agrees:
  "bs_header_write (header_bytes h @ rest) = Some (ser_data (vs_header_write le cap ser) @ rest)"
  by (simp add: bs_header_write_def hdr_setters)
    (simp add: vs_header_write_def ser_reset_def Let_def header_bytes_def mt_request_def e_ok_def)

lemma header_read_agrees:
  "bs_header_read (header_bytes h @ rest) = Some (f_service h, f_method h, f_client h, f_session h, f_type h, f_rcode h,
     if 8 \<le> f_length h then f_length h - 8 else 0)"
  "vs_header_read le (header_bytes h @ rest) = Some (Some (id_value (f_service h)), Some (id_value (f_method h)),
     Some (f_length h), Some (id_value (f_client h)), Some (id_value (f_session h)), Some (mt_code (f_type h)), Some (rc_code (f_rcode h)))"
  by (simp add: bs_header_read_def hdr_getters)
    (simp add: vs_header_read_def des_make_at header_bytes_def des_at_simps Let_def)

text \<open>Values: the same bytes.\<close>

lemma reset_members:
  "list_all has_overload vs \<Longrightarrow> map_option ser_data (ser_members le (ser_reset cap ser) vs) = Some (encode_all vs)"
proof -
  assume "list_all has_overload vs"
  from ser_members_bytes [OF this, of le "ser_reset cap ser"] show ?thesis by (auto simp: ser_reset_def Let_def)
qed

lemma serialize_agrees:
  "length buf = 64 \<Longrightarrow> bs_serialize_small buf = Some (encode_all small_src @ drop 8 buf, Inr 8) \<and>
     map_option ser_data (vs_serialize_small le cap ser) = Some (encode_all small_src)"
  "length buf = 256 \<Longrightarrow> bs_serialize_medium buf = Some (encode_all medium_src @ drop 56 buf, Inr 56) \<and>
     map_option ser_data (vs_serialize_medium le cap ser) = Some (encode_all medium_src)"
proof -
  have len: "length (encode_all small_src) = 8" "length (encode_all medium_src) = 56"
    by (simp_all add: small_src_def medium_src_def)
  have over: "list_all has_overload small_src" "list_all has_overload medium_src"
    by (simp_all add: small_src_def medium_src_def)
  have ser: "serialize buf vs = Some (encode_all vs @ drop (length (encode_all vs)) buf, Inr (length (encode_all vs)))"
    if "length (encode_all vs) \<le> length buf" for vs
    using that by (simp add: serialize_def serialize_checked_store overwrite_def)
  show "length buf = 64 \<Longrightarrow> bs_serialize_small buf = Some (encode_all small_src @ drop 8 buf, Inr 8) \<and>
     map_option ser_data (vs_serialize_small le cap ser) = Some (encode_all small_src)"
    using ser [of small_src] len by (simp add: bs_serialize_small_def vs_serialize_small_def reset_members [OF over(1)])
  show "length buf = 256 \<Longrightarrow> bs_serialize_medium buf = Some (encode_all medium_src @ drop 56 buf, Inr 56) \<and>
     map_option ser_data (vs_serialize_medium le cap ser) = Some (encode_all medium_src)"
    using ser [of medium_src] len by (simp add: bs_serialize_medium_def vs_serialize_medium_def reset_members [OF over(2)])
qed

text \<open>The medium payload has 56 bytes, not the 52 both sides are given: the library's side measures the error path,
  and the last read of the other side fails.\<close>

lemma deserialize_medium_fails:
  assumes "52 \<le> length buf"
  shows "bs_deserialize_medium buf = Some (Inl Buffer_too_small)"
    and "\<exists>d rs. vs_deserialize_medium le buf = Some (d, rs) \<and> None \<in> set rs"
proof -
  have len: "length (take 52 buf) = 52" using assms unfolding length_take by (rule min_absorb2)
  have pos: "\<forall>t \<in> set medium_payload. 0 < wire_size t" by (simp add: medium_payload_def)
  have "12 < length medium_payload \<and> length (take 52 buf) = 0 + total_size (take 12 medium_payload)"
    by (simp add: medium_payload_def len del: length_take)
  then have "\<exists>k < length medium_payload. length (take 52 buf) = 0 + total_size (take k medium_payload)" by blast
  then show "bs_deserialize_medium buf = Some (Inl Buffer_too_small)"
    using deserialize_checked_exact [OF pos, of 0 "take 52 buf"] len
    unfolding bs_deserialize_medium_def deserialize_def by (simp add: medium_payload_def del: length_take)
  have "list_all readable medium_payload" "length (take 52 buf) < total_size medium_payload"
    using len by (simp_all add: medium_payload_def del: length_take)
  then show "\<exists>d rs. vs_deserialize_medium le buf = Some (d, rs) \<and> None \<in> set rs"
    unfolding vs_deserialize_medium_def des_make_at by (rule des_members_short)
qed

text \<open>Messages, dispatching and the round trip.\<close>

lemma message_agrees: "bs_message = map_option ser_data (vs_message_bytes le)"
proof -
  have n: "unat (ser_get_size s) = 8" if "ser_data s = encode_all small_src" for s
    by (simp add: ser_get_size_def that small_src_def)
  obtain pl where pl: "ser_members le (ser_make 0) small_src = Some pl" "ser_data pl = encode_all small_src"
    using ser_members_bytes [of small_src le "ser_make 0"] by (auto simp: ser_make_def small_src_def)
  have empty: "ser_data (ser_make 0) = []" by (simp add: ser_make_def)
  have "ser_data pl = encode_all small_src" "length (encode_all small_src) = 8" using pl(2) by (simp_all add: small_src_def)
  then show ?thesis
    using serialize_to_bytes [of "encode_all small_src" le "0x1234" 1 16 "0x10" 1 1 0 0 0 "ser_make 0"] n [OF pl(2)]
    by (simp add: bs_message_def create_bytes serialize_payload_bytes vs_message_bytes_def pl(1) ref_message_make_def
        ref_set_data_def request_header_def mt_request_def e_ok_def empty Let_def)
qed

lemma dispatch_agrees:
  "map_option fst bs_dispatch = Some True" "fst vs_dispatch = True"
  "map_option (\<lambda>r. length (snd r)) bs_dispatch = Some (length (snd vs_dispatch))"
proof -
  have "replicate 24 (0 :: byte) = header_bytes \<lparr>f_service = Strong_id 0, f_method = Strong_id 0, f_length = 0,
      f_client = Strong_id 0, f_session = Strong_id 0, f_protocol = 0, f_interface = 0, f_type = Message_type 0,
      f_rcode = Return_code 0\<rparr> @ replicate 8 0" (is "_ = header_bytes ?h @ _")
    by (simp add: header_bytes_def be16_def be32_def numeral_eq_Suc)
  then obtain v where v: "bs_dispatch = Some (True, [((), v)])"
    by (simp add: bs_dispatch_def hdr_setters dispatch_target target_def handler_at_def register_handler_def dispatcher_empty_def
        handler_call_def handler_of_def subspan_from_Some wire_consts Let_def)
  then show "map_option fst bs_dispatch = Some True" "fst vs_dispatch = True"
    "map_option (\<lambda>r. length (snd r)) bs_dispatch = Some (length (snd vs_dispatch))"
    by (simp_all add: v vs_dispatch_def ref_dispatch_def ref_register_def Let_def)
qed

text \<open>The round trip through the library and the other implementation's own dispatch return the same sum.\<close>

abbreviation adds :: "(unit, 'a) application \<Rightarrow> bool" where
  "adds app \<equiv> target (rm_dispatcher (app_router app)) (Strong_id 0x1234) (Strong_id 1) =
     Some (handler_of (Serve small_payload 8 add_handler))"

lemma adds_serve:
  "served () (Strong_id 0x1234) 1 now = (app, skel) \<Longrightarrow> adds (serve app skel (Strong_id 1) small_payload 8 add_handler)"
  by (rule target_exact) (simp add: serve_def handler_at_register served_app dispatcher_empty_maps)

lemma add_call:
  assumes "adds app"
  obtains app1 c app2 where
    "async_call app (client (Strong_id 0x1234)) (Strong_id 1) 8 [V_i32 10, V_i32 20] small_payload = Some (app1, c)"
    "sync_wait (Suc (Suc fuel)) app1 c = Done (Inr (app2, [V_i32 30, V_i32 0]))" "adds app2"
proof -
  have "\<exists>app1 c app2. async_call app (client (Strong_id 0x1234)) (Strong_id 1) 8 [V_i32 10, V_i32 20] small_payload = Some (app1, c) \<and>
    sync_wait (Suc (Suc fuel)) app1 c = Done (Inr (app2, [V_i32 30, V_i32 0])) \<and>
    app_completions app2 = app_completions app @ [(length (app_completions app), Value [V_i32 30, V_i32 0])] \<and>
    app_world app2 = () \<and> app_router app2 = app_router app"
    by (rule served_call [where ts = small_payload and size_resp = 8 and handler = add_handler and sent = "[]" and w = "()"])
      (use assms in \<open>simp_all add: client_service small_payload_def add_handler_def sd_service_def\<close>)
  with assms that show thesis by auto
qed

lemma roundtrip_agrees:
  "\<exists>app'. bs_roundtrip (Suc (Suc fuel)) (bs_roundtrip_app now :: (unit, 'a) application) = Done (Inr (app', [V_i32 30, V_i32 0]))"
  "vs_roundtrip le = Some (30, 0)"
proof -
  obtain app :: "(unit, 'a) application" and skel where s: "served () (Strong_id 0x1234) 1 now = (app, skel)" by fastforce
  let ?app = "serve app skel (Strong_id 1) small_payload 8 add_handler"
  obtain app1 c app2 where "async_call ?app (client (Strong_id 0x1234)) (Strong_id 1) 8 [V_i32 10, V_i32 20] small_payload = Some (app1, c)"
    "sync_wait (Suc (Suc fuel)) app1 c = Done (Inr (app2, [V_i32 30, V_i32 0]))"
    by (rule add_call [OF adds_serve [OF s], of fuel])
  then show "\<exists>app'. bs_roundtrip (Suc (Suc fuel)) (bs_roundtrip_app now :: (unit, 'a) application) = Done (Inr (app', [V_i32 30, V_i32 0]))"
    by (simp add: bs_roundtrip_def bs_roundtrip_app_def s)
  have answer: "vs_answer le (be32 10 @ be32 20) = Some (be32 30 @ be32 0)"
    using des_at_simps(3) [of le "[]" 10 "be32 20"] des_at_simps(3) [of le "be32 10" 20 "[]"]
    by (simp add: vs_answer_def des_make_at des_i32_def ref_get_length_def ser_make_def ser_get_size_def)
  have "des_i32 le (des_make (be32 30 @ be32 0)) = Some (des_at (be32 30) (be32 0), Some 30)"
    "des_i32 le (des_at (be32 30) (be32 0)) = Some (des_at (be32 30 @ be32 0) [], Some 0)"
    using des_at_simps(3) [of le "[]" 30 "be32 0"] des_at_simps(3) [of le "be32 30" 0 "[]"]
    by (simp_all add: des_make_at des_i32_def)
  then show "vs_roundtrip le = Some (30, 0)"
    using answer
    by (simp add: vs_roundtrip_def ref_dispatch_def ref_register_def ref_message_make_def ref_set_data_def ser_make_def
        ser_get_size_def Let_def)
qed

end
