(* ===== verification/Bench_Main_Correct.thy ===== *)
theory Bench_Main_Correct
  imports Bench_Main Bench_Workloads_Correct Sender_Pipeline_Correct Security_Correct Crc_Correct
begin

text \<open>
  Every loop of the main benchmark ends without undefined behaviour and without an exception, and what
  is measured is the path it means to measure: values that are read back, checks that pass, the rule
  the label names, calls that are answered.
\<close>

section \<open>Loops with a log\<close>

lemma benchmark_log:
  assumes "\<And>s. keeps s \<Longrightarrow> \<exists>s' r. fn s = Done (Inr s') \<and> keeps s' \<and> log s' = log s @ [r] \<and> ok r"
    and "keeps s" and "\<forall>r \<in> set (log s). ok r"
  shows "\<exists>s'. benchmark n fn s = Done (Inr s') \<and> keeps s' \<and> length (log s') = length (log s) + (min (n div 10) 1000 + n) \<and>
    (\<forall>r \<in> set (log s'). ok r)"
proof -
  have "\<exists>s'. fn s = Done (Inr s') \<and> (keeps s' \<and> (\<forall>r \<in> set (log s'). ok r)) \<and> length (log s') = length (log s) + 1"
    if "keeps s \<and> (\<forall>r \<in> set (log s). ok r)" for s
  proof -
    from that assms(1) [of s] obtain s' r where "fn s = Done (Inr s')" "keeps s'" "log s' = log s @ [r]" "ok r" by blast
    with that show ?thesis by auto
  qed
  from benchmark_inv [of "\<lambda>s. keeps s \<and> (\<forall>r \<in> set (log s). ok r)" fn "\<lambda>s. length (log s)" 1 s n, OF this] assms(2,3)
  show ?thesis by auto
qed

lemma all_same: "length xs = n \<Longrightarrow> \<forall>x \<in> set xs. x = a \<Longrightarrow> xs = replicate n a"
  by (induction xs arbitrary: n) auto

text \<open>An iteration that overwrites its state.\<close>

lemma benchmark_const:
  assumes "\<And>s. keeps s \<Longrightarrow> fn s = Done (Inr t)" and "keeps s" "keeps t" "0 < n"
  shows "benchmark n fn s = Done (Inr t)"
proof -
  have "bench_loop k fn s = Done (Inr (if k = 0 then s else t))" if "keeps s" for k s
    using that assms(1,3) by (induction k arbitrary: s) auto
  with assms(2-4) show ?thesis by (simp add: benchmark_def)
qed

section \<open>Codec\<close>

lemma codec_block_roundtrip:
  assumes "types src ty" "\<forall>t \<in> set ty. 0 < wire_size t" "total_size ty \<le> n"
  shows "(codec_block n ty src :: ('x, _) outcome) = Done (Inr (encode_all src @ replicate (n - total_size ty) 0, replicate 1001000 (Inr src)))"
proof -
  let ?ser = "serialize_iteration src :: byte list \<Rightarrow> ('x, byte list) outcome"
  let ?des = "deserialize_iteration ty (encode_all src @ replicate (n - total_size ty) 0) ::
    (codec_error + codec_value list) list \<Rightarrow> ('x, _) outcome"
  let ?buf = "\<lambda>b. \<exists>xs. length xs = total_size ty \<and> b = xs @ replicate (n - total_size ty) 0"
  let ?out = "encode_all src @ replicate (n - total_size ty) 0"
  have len: "length (encode_all src) = total_size ty" by (rule types_size [OF assms(1)])
  have ser: "?ser b = Done (Inr ?out)" if "?buf b" for b
    using that len by (auto simp: serialize_iteration_def serialize_def serialize_checked_store overwrite_def mem_run_def)
  have bufs: "?buf ?out" "?buf (replicate n 0)"
    using len assms(3) by (blast, intro exI [of _ "replicate (total_size ty) 0"], simp flip: replicate_add)
  then have "benchmark 1000000 ?ser (replicate n 0) = Done (Inr ?out)" by (intro benchmark_const [of ?buf]) (auto simp: ser)
  moreover note ser [OF bufs(1)]
  moreover have "?des rs = Done (Inr (rs @ [Inr src]))" for rs
    using deserialize_checked_encode [OF assms(1,2), of "[]" 0 "replicate (n - total_size ty) 0"]
    by (simp add: deserialize_iteration_def deserialize_def mem_run_def)
  moreover from this obtain rs where "benchmark 1000000 ?des [] = Done (Inr rs)"
      "length rs = 1001000" "\<forall>r \<in> set rs. r = Inr src"
    using benchmark_log [of "\<lambda>_. True" ?des id "\<lambda>r. r = Inr src" "[]" 1000000] by auto
  ultimately show ?thesis using all_same [of rs 1001000] by (simp add: codec_block_def)
qed

lemma codec_small_roundtrip:
  "codec_small = Done (Inr (encode_all [V_i32 42, V_i32 (- 100)] @ replicate 56 0, replicate 1001000 (Inr [V_i32 42, V_i32 (- 100)])))"
  using codec_block_roundtrip [of "[V_i32 42, V_i32 (- 100)]" small_payload 64] by (simp add: codec_small_def small_payload_def)

lemma codec_medium_roundtrip:
  "codec_medium = Done (Inr (encode_all structured_src @ replicate 204 0, replicate 1001000 (Inr structured_src)))"
  using codec_block_roundtrip [of structured_src structured_payload 256]
  by (simp add: codec_medium_def structured_payload_def structured_src_def)

lemma codec_large_roundtrip:
  "codec_large = Done (Inr (encode_all large_src @ replicate 380 0, replicate 1001000 (Inr large_src)))"
proof -
  have "types large_src large_payload" "total_size large_payload = 132" "\<forall>t \<in> set large_payload. 0 < wire_size t"
    by (simp_all add: large_src_def large_payload_def numeral_eq_Suc)
  then show ?thesis using codec_block_roundtrip [of large_src large_payload 512] by (simp add: codec_large_def)
qed

section \<open>CRC\<close>

lemma bench_crc_values:
  "bench_crc = Done (Inr (crc8_spec crc_data 0xFF, crc32_spec crc_data 0xFFFFFFFF, crc64_spec crc_data 0xFFFFFFFFFFFFFFFF,
     crc32_spec crc_big_data 0xFFFFFFFF, crc64_spec crc_big_data 0xFFFFFFFFFFFFFFFF))"
  by (simp add: bench_crc_def benchmark_const [where keeps = "\<lambda>_. True"] crc32_ethernet_def crc32_fast_steps crc32_spec_steps
      crc64_def crc64_fast_steps crc64_spec_steps crc8_steps crc8_spec_steps)

section \<open>E2E\<close>

lemma protected_payload:
  assumes "length p = 64"
  obtains d where "length d = 52" "\<And>c. p04_protect p cfg c =
      Some (p04_frame 64 c (p04_data_id cfg) (be32 (p04_sum 64 c (p04_data_id cfg) d)) d)"
proof -
  obtain n c i x d where p: "p = p04_frame n c i (be32 x) d" by (rule p04_cases [of p]) (use assms in simp)
  with assms show thesis by (intro that [of d]) (simp_all add: p04_protect_eq Let_def)
qed

lemma check_step:
  assumes "length (chk_payload s) = 64" "chk_counter s = chk_last s + 1"
  shows "\<exists>s'. (check_iteration s :: ('x, check_state) outcome) = Done (Inr s') \<and> length (chk_payload s') = 64 \<and> chk_counter s' = chk_last s' + 1 \<and>
    chk_results s' = chk_results s @ [E2e_ok]"
proof -
  obtain d where d: "length d = 52" "\<And>c. p04_protect (chk_payload s) e2e_bench_config c =
      Some (p04_frame 64 c (p04_data_id e2e_bench_config) (be32 (p04_sum 64 c (p04_data_id e2e_bench_config) d)) d)"
    using protected_payload [OF assms(1), of e2e_bench_config] by metis
  have "delta_verdict (chk_counter s - chk_last s) (p04_max_delta e2e_bench_config) = E2e_ok"
    by (simp add: assms(2) delta_verdict_def e2e_bench_config_def)
  then show ?thesis using d by (simp add: check_iteration_def mem_run_def p04_check_eq)
qed

lemma bench_e2e_passes:
  "\<exists>s. (bench_e2e :: ('x, check_state) outcome) = Done (Inr s) \<and> chk_results s = replicate 1001000 E2e_ok"
proof -
  let ?pro = "protect_iteration :: byte list \<times> u16 \<Rightarrow> ('x, _) outcome"
  let ?chk = "check_iteration :: check_state \<Rightarrow> ('x, _) outcome"
  let ?keeps = "\<lambda>s :: byte list \<times> u16. length (fst s) = 64"
  have "\<exists>s'. ?pro s = Done (Inr s') \<and> ?keeps s' \<and> (0 :: nat) = 0 + 0" if "?keeps s" for s
  proof -
    have p: "length (fst s) = 64" by (rule that)
    obtain d where "length d = 52" "\<And>c. p04_protect (fst s) e2e_bench_config c =
        Some (p04_frame 64 c (p04_data_id e2e_bench_config) (be32 (p04_sum 64 c (p04_data_id e2e_bench_config) d)) d)"
      using protected_payload [OF p, of e2e_bench_config] by metis
    then show ?thesis by (cases s) (simp add: protect_iteration_def mem_run_def)
  qed
  from benchmark_inv [of ?keeps ?pro "\<lambda>_. 0" 0 "(replicate 64 0xAA, 0)" 1000000, OF this] obtain p c where
    one: "benchmark 1000000 ?pro (replicate 64 0xAA, 0) = Done (Inr (p, c))" "length p = 64" by auto
  obtain q where q: "p04_protect p e2e_bench_config 1 = Some q" "length q = 64"
    by (rule protected_payload [OF one(2), where cfg = e2e_bench_config]) (simp add: p04_frame_length)
  let ?keep2 = "\<lambda>s. length (chk_payload s) = 64 \<and> chk_counter s = chk_last s + 1"
  from benchmark_log [of ?keep2 ?chk chk_results "\<lambda>r. r = E2e_ok"
      "\<lparr>chk_payload = q, chk_last = 0, chk_counter = 1, chk_results = []\<rparr>" 1000000] check_step q(2) obtain s where
    "benchmark 1000000 ?chk \<lparr>chk_payload = q, chk_last = 0, chk_counter = 1, chk_results = []\<rparr> = Done (Inr s)"
    "length (chk_results s) = 1001000" "\<forall>r \<in> set (chk_results s). r = E2e_ok" by force
  with one(1) q(1) all_same [of "chk_results s"] show ?thesis by (auto simp: bench_e2e_def mem_run_def)
qed

section \<open>Dispatching\<close>

lemma bench_dispatch_counts: "bench_dispatch = Done (Inr 1001000)"
proof -
  have zeros: "replicate 24 (0 :: byte) = header_bytes \<lparr>f_service = Strong_id 0, f_method = Strong_id 0, f_length = 0,
      f_client = Strong_id 0, f_session = Strong_id 0, f_protocol = 0, f_interface = 0, f_type = Message_type 0,
      f_rcode = Return_code 0\<rparr> @ replicate 8 0"
    by (simp add: header_bytes_def be16_def be32_def numeral_eq_Suc)
  let ?disp = "register_handler dispatcher_empty (Strong_id 0x1234) (Strong_id 0x0001) (handler_of ()) :: (unit, unit) dispatcher"
  have calls: "\<exists>v. dispatch ?disp (header_bytes h @ p) p = Some (True, [((), v)])"
    if "f_service h = Strong_id 0x1234" "f_method h = Strong_id 1" for h p
    using that by (simp add: dispatch_target target_def handler_at_def register_handler_def dispatcher_empty_def
        handler_call_def handler_of_def)
  define h where "h = \<lparr>f_service = Strong_id 0x1234, f_method = Strong_id 1, f_length = 16, f_client = Strong_id 0x10,
      f_session = Strong_id 1, f_protocol = protocol_version, f_interface = 0, f_type = mt_request, f_rcode = Return_code 0\<rparr>"
  let ?fn = "\<lambda>n. mem_run (dispatch ?disp (header_bytes h @ replicate 8 0) (replicate 8 0)) (\<lambda>(r, calls). Done (Inr (n + length calls))) ::
    ('x, nat) outcome"
  have "?fn n = Done (Inr (n + 1))" for n
    using calls [of h "replicate 8 0"] by (auto simp: h_def mem_run_def)
  then have "benchmark 1000000 ?fn 0 = Done (Inr 1001000)"
    using benchmark_inv [of "\<lambda>_. True" ?fn id 1 0 1000000] by auto
  then show ?thesis
    unfolding bench_dispatch_def zeros Let_def
    by (simp add: hdr_setters subspan_from_Some wire_consts mem_run_def h_def)
qed

section \<open>Security\<close>

text \<open>The labels are right: the first request is decided by the first rule, the others by the last.\<close>

definition deciding_rule :: "rule list \<Rightarrow> client_id \<Rightarrow> service_id \<Rightarrow> instance_id \<Rightarrow> method_id \<Rightarrow> nat" where
  "deciding_rule rs c s i m = length (takeWhile (\<lambda>r. \<not> rule_matches r c s i m) rs)"

lemma first_match_deciding:
  "first_match rs c s i m = (if deciding_rule rs c s i m < length rs then rule_act (rs ! deciding_rule rs c s i m) else Deny)"
  by (induction rs) (simp_all add: deciding_rule_def)

lemma big_policy_rules:
  "policy_rules big_policy =
     map (\<lambda>i. allow_client_service (Strong_id (of_nat (i + 1))) (Strong_id (of_nat (i + 0x100)))) [0..<99] @ [allow_all]"
proof -
  have "policy_rules (fold (\<lambda>i p. policy_add p (f i)) xs p) = policy_rules p @ map f xs" for f :: "nat \<Rightarrow> rule" and xs p
    by (induction xs arbitrary: p) (simp_all add: policy_add_def)
  then show ?thesis by (simp add: big_policy_def policy_add_def policy_empty_def del: upt_rec_numeral)
qed

lemma rules_hit:
  "deciding_rule (policy_rules small_policy) (Strong_id 0x0001) (Strong_id 0x1234) (Strong_id 1) (Strong_id 1) = 0"
  "deciding_rule (policy_rules small_policy) (Strong_id 0x9999) (Strong_id 0x9999) (Strong_id 1) (Strong_id 1) = 4"
  "deciding_rule (policy_rules big_policy) (Strong_id 0xFFFF) (Strong_id 0xFFFF) (Strong_id 1) (Strong_id 1) = 99"
proof -
  show "deciding_rule (policy_rules small_policy) (Strong_id 0x0001) (Strong_id 0x1234) (Strong_id 1) (Strong_id 1) = 0"
    "deciding_rule (policy_rules small_policy) (Strong_id 0x9999) (Strong_id 0x9999) (Strong_id 1) (Strong_id 1) = 4"
    by (simp_all add: deciding_rule_def small_policy_def policy_add_def policy_empty_def allow_client_service_def deny_client_def
        allow_all_def rule_matches_def any_client_def any_service_def any_instance_def any_method_def)
  let ?f = "\<lambda>i. allow_client_service (Strong_id (of_nat (i + 1))) (Strong_id (of_nat (i + 0x100)))"
  have miss: "\<not> rule_matches (?f i) (Strong_id 0xFFFF) (Strong_id 0xFFFF) (Strong_id 1) (Strong_id 1)" if "i < 99" for i
  proof -
    have "unat (of_nat (i + 1) :: u16) = i + 1" using that by (intro unat_of_nat_small) simp
    then have "(of_nat (i + 1) :: u16) \<noteq> 0xFFFF" using that by auto
    then show ?thesis by (simp add: rule_matches_def allow_client_service_def any_client_def)
  qed
  show "deciding_rule (policy_rules big_policy) (Strong_id 0xFFFF) (Strong_id 0xFFFF) (Strong_id 1) (Strong_id 1) = 99"
  proof -
    let ?P = "\<lambda>r. \<not> rule_matches r (Strong_id 0xFFFF) (Strong_id 0xFFFF) (Strong_id 1) (Strong_id 1)"
    have "takeWhile ?P (map ?f [0..<99] @ [allow_all]) = map ?f [0..<99] @ takeWhile ?P [allow_all]"
      by (rule takeWhile_append2) (use miss in auto)
    then show ?thesis by (simp only: deciding_rule_def big_policy_rules) (simp add: matches_all del: upt_rec_numeral)
  qed
qed

lemma bench_security_allows: "(bench_security :: ('x, _) outcome) = Done (Inr (replicate 15003000 Allow))"
proof -
  note rules = evaluate_def first_match_deciding rules_hit
  have allow: "evaluate small_policy (Strong_id 0x0001) (Strong_id 0x1234) (Strong_id 1) (Strong_id 1) = Allow"
    "evaluate small_policy (Strong_id 0x9999) (Strong_id 0x9999) (Strong_id 1) (Strong_id 1) = Allow"
    unfolding rules by (simp_all add: small_policy_def policy_add_def policy_empty_def allow_client_service_def allow_all_def)
  have big: "evaluate big_policy (Strong_id 0xFFFF) (Strong_id 0xFFFF) (Strong_id 1) (Strong_id 1) = Allow"
    unfolding rules by (simp add: big_policy_rules nth_append allow_all_def del: upt_rec_numeral)
  let ?fn = "\<lambda>as. Done (Inr (as @ [Allow])) :: ('x, _) outcome"
  from allow big have steps: "bench_security = bind_outcome (benchmark 5000000 ?fn []) (\<lambda>a1.
      bind_outcome (benchmark 5000000 ?fn a1) (benchmark 5000000 ?fn))" by (simp add: bench_security_def)
  have "benchmark 5000000 ?fn (replicate k Allow) = Done (Inr (replicate (k + 5001000) Allow))" for k
  proof -
    have "\<exists>as. benchmark 5000000 ?fn (replicate k Allow) = Done (Inr as) \<and> length as = k + 5001000 \<and> (\<forall>a \<in> set as. a = Allow)"
      using benchmark_log [of "\<lambda>_. True" ?fn "\<lambda>as. as" "\<lambda>a. a = Allow" "replicate k Allow" 5000000] by auto
    then show ?thesis using all_same [of _ "k + 5001000" Allow] by auto
  qed
  from this [of 0] this [of 5001000] this [of 10002000] show ?thesis
    unfolding steps by simp
qed

section \<open>Combined pipeline\<close>

lemma bench_combined_passes:
  "\<exists>w results. (bench_combined :: ((security_error + 'e) exception, _) outcome) = Done (Inr (w, results)) \<and>
     length results = 501000 \<and> None \<notin> set results"
proof -
  let ?cfg = "P04 combined_config" and ?pol = "policy_add policy_empty allow_all"
  let ?fn = "combined_iteration :: _ \<Rightarrow> ((security_error + 'e) exception, _) outcome"
  let ?keeps = "\<lambda>s :: objects \<times> byte list option list. (\<exists>c. in_step ?cfg 0 1 c (fst s)) \<and> obj_policy (fst s) 0 = Some ?pol"
  have zeros: "replicate 36 (0 :: byte) = header_bytes \<lparr>f_service = Strong_id 0, f_method = Strong_id 0, f_length = 0,
      f_client = Strong_id 0, f_session = Strong_id 0, f_protocol = 0, f_interface = 0, f_type = Message_type 0,
      f_rcode = Return_code 0\<rparr> @ replicate 20 0"
    by (simp add: header_bytes_def be16_def be32_def numeral_eq_Suc)
  have "replicate (header_size + 20) (0 :: byte) = replicate 36 0" by (simp add: header_size_def)
  then obtain m where m: "make_msg = Some m" "length m = 36"
    unfolding make_msg_def zeros by (simp add: hdr_setters)
  have ok: "passes ?pol any_instance m" "protectable ?cfg m"
    by (simp_all add: passes_def m(2) is_allowed_def evaluate_def policy_add_def policy_empty_def matches_all protectable_def)
      (simp_all add: allow_all_def combined_config_def)
  have "\<exists>s' r. ?fn s = Done (Inr s') \<and> ?keeps s' \<and> snd s' = snd s @ [r] \<and> (\<exists>v. r = Some v)" if keeps: "?keeps s" for s
  proof -
    from keeps obtain c where c: "in_step ?cfg 0 1 c (fst s)" "obj_policy (fst s) 0 = Some ?pol" by blast
    have delta: "1 \<le> unat (e2e_max_delta ?cfg)" by (simp add: combined_config_def)
    from enforced_step [OF c delta, of any_instance m] ok obtain w v where
      "start (connect (pipe (pipe (pipe (Upstream_sender (Set_value m)) (enforce 0 any_instance)) (e2e_protect 0)) (e2e_check 1))) (fst s) =
        Some (w, Set_value v :: 'e pipe_signal)" "obj_policy w = obj_policy (fst s)" "in_step ?cfg 0 1 (c + 1) w" by auto
    with c(2) show ?thesis by (cases s) (auto simp: combined_iteration_def m(1) mem_run_def)
  qed
  moreover have "?keeps (combined_objects, [])"
    by (auto simp: combined_objects_def in_step_def e2e_state_init_def intro!: exI [of _ 1])
  ultimately show ?thesis
    using benchmark_log [of ?keeps ?fn snd "\<lambda>r. \<exists>v. r = Some v" "(combined_objects, [])" 500000]
    by (fastforce simp: bench_combined_def)
qed

section \<open>Header\<close>

lemma bench_header_reads: "(bench_header :: ('x, _) outcome) = Done (Inr (replicate 5001000 (Strong_id 0x1234, 100)))"
proof -
  let ?wr = "header_write_iteration :: _ \<Rightarrow> ('x, _) outcome" and ?keeps = "\<lambda>b. \<exists>h. b = header_bytes h"
  define h where "h = \<lparr>f_service = Strong_id 0x1234, f_method = Strong_id 1, f_length = 108, f_client = Strong_id 0x10,
      f_session = Strong_id 42, f_protocol = 1, f_interface = 1, f_type = mt_request, f_rcode = e_ok\<rparr>"
  have wr: "?wr b = Done (Inr (header_bytes h))" if "?keeps b" for b
    using that hdr_setters [where r = "[]"] by (auto simp: header_write_iteration_def mem_run_def h_def intro!: arg_cong [where f = header_bytes] header_fields.equality)
  obtain h0 p where "replicate 16 (0 :: byte) = header_bytes h0 @ p" by (rule header_cases [of "replicate 16 0"]) simp
  moreover from this have "length (header_bytes h0 @ p) = 16" by (metis length_replicate)
  then have "p = []" by simp
  ultimately have "?keeps (replicate 16 0)" by auto
  then have one: "benchmark 5000000 ?wr (replicate 16 0) = Done (Inr (header_bytes h))"
    by (intro benchmark_const [where keeps = ?keeps]) (rule wr, blast+, simp)
  let ?read = "header_read_iteration (header_bytes h) :: _ \<Rightarrow> ('x, _) outcome"
  have "header_read_iteration (header_bytes h @ []) rs = Done (Inr (rs @ [(Strong_id 0x1234, 100)]))" for rs
    by (simp add: header_read_iteration_def mem_run_def hdr_getters h_def del: append_Nil2)
  then have "?read rs = Done (Inr (rs @ [(Strong_id 0x1234, 100)]))" for rs by simp
  then obtain rs where "benchmark 5000000 ?read [] = Done (Inr rs)" "length rs = 5001000" "\<forall>r \<in> set rs. r = (Strong_id 0x1234, 100)"
    using benchmark_log [of "\<lambda>_. True" ?read "\<lambda>rs. rs" "\<lambda>r. r = (Strong_id 0x1234, 100)" "[]" 5000000] by auto
  with one all_same [of rs 5001000] show ?thesis by (simp add: bench_header_def)
qed

section \<open>Calls\<close>

lemma bench_async_call_answers:
  "\<exists>app :: (unit, 'a) application. bench_async_call (Suc (Suc fuel)) now =
     Done (Inr (app, replicate 501000 [V_i32 30, V_i32 0], replicate 501000 30))"
proof -
  obtain app0 :: "(unit, 'a) application" and skel where s: "served () (Strong_id 0x1234) 1 now = (app0, skel)" by fastforce
  let ?app = "serve app0 skel (Strong_id 1) small_payload 8 add_handler"
  let ?one = "async_call_iteration (Suc (Suc fuel)) :: _ \<Rightarrow> (completion, (unit, 'a) application \<times> _) outcome"
  let ?two = "async_then_iteration (Suc (Suc fuel)) :: _ \<Rightarrow> (completion, (unit, 'a) application \<times> _) outcome"
  have "\<exists>s' r. ?one s = Done (Inr s') \<and> adds (fst s') \<and> snd s' = snd s @ [r] \<and> r = [V_i32 30, V_i32 0]" if keeps: "adds (fst s)" for s
    by (rule add_call [OF keeps, of fuel], cases s) (auto simp: async_call_iteration_def mem_run_def)
  from benchmark_log [of "\<lambda>s. adds (fst s)" ?one snd "\<lambda>r. r = [V_i32 30, V_i32 0]" "(?app, [])" 500000, OF this] adds_serve [OF s]
  obtain app1 rs where one: "benchmark 500000 ?one (?app, []) = Done (Inr (app1, rs))" "adds app1" "length rs = 501000"
    "\<forall>r \<in> set rs. r = [V_i32 30, V_i32 0]" by auto
  have "\<exists>s' r. ?two s = Done (Inr s') \<and> adds (fst s') \<and> snd s' = snd s @ [r] \<and> r = 30" if keeps: "adds (fst s)" for s
    by (rule add_call [OF keeps, of fuel], cases s) (auto simp: async_then_iteration_def mem_run_def then_a_def)
  from benchmark_log [of "\<lambda>s. adds (fst s)" ?two snd "\<lambda>r. r = 30" "(app1, [])" 500000, OF this] one(2)
  obtain app2 as where "benchmark 500000 ?two (app1, []) = Done (Inr (app2, as))" "length as = 501000" "\<forall>a \<in> set as. a = 30" by auto
  with one s all_same [of rs 501000] all_same [of as 501000] show ?thesis by (auto simp: bench_async_call_def)
qed

end
