(* ===== verification/Spec2Isabelle.thy ===== *)
theory Spec2Isabelle
  imports Wire_TP_Correct Crc_Correct E2E_Pipeline Sd_Discovery_Correct Route_Correct Route_Handlers Io_Framer_Correct Security_Correct Buffer_Pool_Correct Wire_Codec_Correct Comm_Correct Compat_Correct Config Io_Events_Correct Io_Setup_Correct Sender_Pipeline_Correct Bench_Main_Correct
begin

text \<open>
  Verification library of bsomeip, a header-only C++ implementation of the SOME/IP middleware
  (\<open>src/include/bsomeip\<close>). A component \<open>X\<close> has a theory \<open>X\<close> with its data and operations, in the
  order of its header file and under the names of the code, and a theory \<open>X_Correct\<close> with what is proved
  about it. This theory imports all of them.

  \<^bold>\<open>The program.\<close> \<open>wire\<close> reads and writes the 16-byte header, cuts large payloads into SOME/IP-TP segments
  and reassembles them, and serialises aggregates by reflection. \<open>e2e\<close> protects payloads with a counter and a
  CRC and checks them on arrival; \<open>security\<close> filters messages by a rule list; both are sender adaptors that
  sit between a source of messages and a receiver. \<open>sd\<close> encodes service-discovery messages and runs
  the timers that send offers and finds. \<open>route\<close> keeps the registry of services, the table of message handlers
  and the availability listeners, and hands each received message to its handler. \<open>io\<close> frames a TCP stream
  into messages, pools buffers and drives sockets through an io_uring ring. \<open>api\<close> and \<open>comm\<close> tie this
  together: an application owns a routing manager, a discovery and the pending calls; skeletons serve
  requests and proxies make them through it. \<open>compat\<close> dresses the application in the vsomeip API.

  \<^bold>\<open>Conventions.\<close> (\<open>Prelude\<close>, \<open>Containers\<close>) Machine integers are words, sizes of objects natural numbers. A
  buffer is a list of bytes, a pointer an offset. Undefined behaviour (an access outside a buffer, a null or
  dead pointer, an oversized shift) is \<^term>\<open>None\<close>, so that ``no undefined behaviour'' is something
  theorems state; the errors the code returns are values (\<open>Inl\<close>) inside the option. \<open>std::map\<close> is a sorted
  association list, \<open>std::unordered_map\<close> one with distinct keys; both interpret the locale \<open>keyed_store\<close>.
  Callables, exceptions of third parties and times are type parameters or arguments; calls of handlers
  are results, in the order they are made.

  \<^bold>\<open>Theories and sources.\<close>
  \<^item> \<open>Byte_Order\<close>: \<open>platform/byte_order.hpp\<close>. \<open>Wire_Types\<close>: \<open>wire/types.hpp\<close>, \<open>constants.hpp\<close>,
    \<open>message_type.hpp\<close>, \<open>return_code.hpp\<close>; identifiers keep their phantom tag and are an instance of
    \<open>linorder\<close>. \<open>Wire_Header\<close>: \<open>wire/header.hpp\<close>, getters and setters at their offsets, with the
    correspondence to the record of header fields.
  \<^item> \<open>Wire_TP\<close>, \<open>Wire_TP_Correct\<close>: \<open>wire/tp.hpp\<close>, \<open>segment_message\<close> and \<open>tp_assembler::feed\<close>. Segmentation is a
    \<open>partial_function\<close>: it returns exactly when the payload is empty or the segment size positive. Segments in
    any order reassemble. Over any sequence of segments whose senders agree on the length of each message, \<open>feed\<close> is
    memory safe and returns only bytes it received; two crafted segments that disagree make it overrun its result.
  \<^item> \<open>Wire_Codec\<close>, \<open>Wire_Codec_Correct\<close>: \<open>wire/codec.hpp\<close> over a universe of member types, resizable containers
    of bytes included; when exactly a value comes back, and the bounds at which the checked variants still leave the buffer.
  \<^item> \<open>Crc\<close>, \<open>Crc_Correct\<close>: \<open>e2e/crc.hpp\<close>. The locale \<open>crc_register\<close> is the algebra of a table-driven register,
    \<open>crc_slicing\<close> extends it by slicing; CRC-8, CRC-32 and CRC-64 interpret them. The tables are
    computed by the bitwise step.
  \<^item> \<open>E2E_Profiles\<close>, \<open>E2E_Protector\<close>, \<open>E2E_Correct\<close>, \<open>E2E_Pipeline\<close>: \<open>e2e/profile.hpp\<close> and the receivers of
    \<open>e2e/protector.hpp\<close>. The locale \<open>e2e_profile\<close> is what the pipeline needs of a profile; all four interpret it, and
    the properties of streams (losses, repetition, corruption, counter wrap-around) are proved once. Which
    corruptions are sure to be detected is \<open>e2e_guarded\<close>; under profile 02 a counter byte has aliases that are not.
  \<^item> \<open>Security\<close>, \<open>Security_Correct\<close>: \<open>security/policy.hpp\<close> and \<open>enforcer.hpp\<close>.
  \<^item> \<open>Sender_Pipeline\<close>, \<open>Sender_Pipeline_Correct\<close>: the senders, operation states and pipe operators of the three
    adaptors, and what their order does to a stream.
  \<^item> \<open>Sd_Entry\<close>, \<open>Sd_Option\<close>, \<open>Sd_Message\<close>, \<open>Sd_Message_Correct\<close>: \<open>sd/entry.hpp\<close>, \<open>option.hpp\<close>, \<open>message.hpp\<close>. The
    locale \<open>wire_item\<close> is a fixed-size item with its writer, reader and bytes; entries and both kinds of options interpret it.
  \<^item> \<open>Sd_Discovery\<close>, \<open>Sd_Discovery_Correct\<close>: \<open>sd/discovery.hpp\<close>, the phases of offers and finds and \<open>tick\<close>; time is an
    argument in nanoseconds.
  \<^item> \<open>Route_Registry\<close>, \<open>Route_Dispatcher\<close>, \<open>Route_Manager\<close>, \<open>Route_Correct\<close>: \<open>route/*.hpp\<close>. \<open>Route_Handlers\<close>: the
    lifetime of type-erased callables over histories of operations on a heap of handlers, against a ledger of who holds
    which callable. The moves copy bytes, so this holds for callables that allow it and fails for others; everywhere
    else a registered callable is taken to be one that does.
  \<^item> \<open>Io_Framer\<close>, \<open>Buffer_Pool\<close> with their \<open>_Correct\<close>: \<open>io/framer.hpp\<close>, \<open>io/buffer_pool.hpp\<close>.
  \<^item> \<open>Io_Uring\<close>: \<open>io/uring_context.hpp\<close>, \<open>io/detail/uring_syscall.hpp\<close>. \<open>Io_Loop\<close>: \<open>io/uring_scheduler.hpp\<close>,
    \<open>io/socket_ops.hpp\<close>. \<open>Io_Uring_Correct\<close>: cursors, slots and the locale \<open>bounded_queue\<close> interpreted on the ring.
    \<open>Io_Loop_Correct\<close>: starting operations. \<open>Io_Events_Correct\<close>: completions and the event loop.
    \<open>Io_Setup_Correct\<close>: the system calls of constructor and destructor.
  \<^item> \<open>Api_Application\<close>, \<open>Api_Service\<close>, \<open>Api_Correct\<close>: \<open>api/*.hpp\<close>, \<open>comm/*.hpp\<close>. The locale \<open>route_blind\<close> is the contract of
    an operation that \<open>route\<close> does not notice; eventgroup subscription interprets it. \<open>Comm_Correct\<close>: what
    a one-way method does with messages of every length, and attributes from the client side.
  \<^item> \<open>Compat_Vsomeip\<close>, \<open>Compat_Correct\<close>: \<open>compat/vsomeip.hpp\<close>. \<open>Config\<close>: \<open>config/config.hpp\<close>.
  \<^item> \<open>Bench_Reference\<close>, \<open>Bench_Reference_Correct\<close>: the namespace \<open>vsomeip_equiv\<close> of \<open>bench/bench_vs_vsomeip.cpp\<close>, a second
    implementation of the wire format. It agrees with the library on hosts of either byte order.
  \<^item> \<open>Bench_Workloads\<close>, \<open>Bench_Main\<close>: the workloads of \<open>bench_comm.cpp\<close>, \<open>bench_vs_vsomeip.cpp\<close> and \<open>bench_main.cpp\<close>, loops over
    the operations of the other theories. Their \<open>_Correct\<close> theories show that every loop ends, that the calls in it are answered
    and the checks in it pass, and which workloads do not measure what their label says.

  \<^bold>\<open>Parameters and hypotheses.\<close> The kernel is not part of the repository. \<open>io_uring_enter\<close> is an argument of the
  ring operations; \<open>kernel_ok\<close> is the part of its documentation the submission side relies on (it consumes
  published entries from the head, in order, at most as many as it was asked to) and is shown for a kernel that consumes
  all it is asked to. The calls of setup and release are functions of the calls made before, and the model logs them.
  Receivers of operations are an argument of the event loop. Sizes of C++ objects, the bytes \<open>memcmp\<close> compares
  and \<open>std::hash\<close> are arguments. The sender library is modelled by what a third-party sender completes with.

  \<^bold>\<open>Bounds and fuel.\<close> \<open>app_route\<close> takes the permitted nesting of \<open>route\<close> calls: 2 is enough for a call that is served in
  the process (the request and the response in it), and the property on responses nobody waits for shows
  that no bound is enough for them. Draining the framer takes one call per byte at most. The loops over completions
  and over fragments terminate by their measures; \<open>run_loop\<close> and \<open>segment_loop\<close> may not and are partial functions.

  \<^bold>\<open>Not modelled.\<close> \<open>async/execution.hpp\<close> (aliases of the third-party library), \<open>wire/annotations.hpp\<close> (tags no code
  reads), the umbrella headers, and of the programs under \<open>src/bench\<close> the clock, the printing and \<open>main\<close>.
  Concurrency: the locks of the registry make its operations atomic, and the ring, the dispatcher and the
  application are documented as single-threaded; an SQ-polling kernel and a \<open>stop\<close> from another thread during a
  wait are not considered. That spans into the framer's buffer die with the next call is not tracked.
\<close>

end
